(* ===== verification/Prelude.thy ===== *)
theory Prelude
  imports Main "HOL-Library.Word"
begin

text \<open>
  What every component of the model shares: the outcome type of a C function that can
  report an error or run into undefined behaviour, C characters and NUL-terminated
  strings with the routines of the C library the program calls on them
  (\<open>isspace\<close>, \<open>tolower\<close>, \<open>snprintf\<close>, \<open>strtol\<close>, the conversions \<open>%d\<close> and \<open>%u\<close>),
  and general lemmas on lists.

  A C string is a \<^typ>\<open>string\<close> without the terminating NUL; a pointer into it is the
  remaining suffix, and reading through the pointer is \<open>peek\<close>, which gives NUL at the
  end.  A character array of size n that holds a string is the string itself; what fits
  is made explicit by \<open>snprintf n\<close>, which keeps the first n - 1 characters.  The program
  never calls \<open>setlocale\<close>, so the character classes are those of the C locale.
\<close>

named_theorems outcome_simps "equations and case rules of outcomes"
named_theorems ctext_simps "rewriting of C text routines"
named_theorems shrinking "a parser step leaves at most what it was given"

section \<open>Outcomes of C functions\<close>

text \<open>
  A function that reports errors through a buffer and a negative return value has the
  outcome \<open>Err e\<close> there and \<open>Ok x\<close> where it returns 0.  An access outside an array has
  the outcome \<open>Fault\<close>: C gives it no meaning, so a theorem that a function does not
  fault is a theorem that this access does not happen.
\<close>

datatype fault =
    ColumnMapOverflow    \<comment> \<open>a write past \<open>column_map[MAX_COLUMNS]\<close>\<close>
  | RowStorageOverflow   \<comment> \<open>a write past \<open>Table.rows[MAX_ROWS]\<close>\<close>
  | NullReply            \<comment> \<open>a read through the NULL pointer of a reply without payload\<close>

datatype ('e, 'a) outcome = Ok 'a | Err 'e | Fault fault

fun obind :: "('e, 'a) outcome \<Rightarrow> ('a \<Rightarrow> ('e, 'b) outcome) \<Rightarrow> ('e, 'b) outcome" where
  "obind (Ok x) f = f x"
| "obind (Err e) f = Err e"
| "obind (Fault u) f = Fault u"

definition ok :: "('e, 'a) outcome \<Rightarrow> bool" where
  "ok r = (case r of Ok _ \<Rightarrow> True | _ \<Rightarrow> False)"

definition faults :: "('e, 'a) outcome \<Rightarrow> bool" where
  "faults r = (case r of Fault _ \<Rightarrow> True | _ \<Rightarrow> False)"

lemma obind_Ok_iff [outcome_simps]: "obind r f = Ok y \<longleftrightarrow> (\<exists>x. r = Ok x \<and> f x = Ok y)"
  by (cases r) auto

lemma obind_Fault_iff [outcome_simps]:
  "obind r f = Fault u \<longleftrightarrow> r = Fault u \<or> (\<exists>x. r = Ok x \<and> f x = Fault u)"
  by (cases r) auto

lemma ok_simps [simp]: "ok (Ok x)" "\<not> ok (Err e)" "\<not> ok (Fault u)"
  by (simp_all add: ok_def)

lemma faults_simps [simp]: "\<not> faults (Ok x)" "\<not> faults (Err e)" "faults (Fault u)"
  by (simp_all add: faults_def)

lemma ok_iff: "ok r \<longleftrightarrow> (\<exists>x. r = Ok x)"
  by (cases r) auto

lemma faults_iff: "faults r \<longleftrightarrow> (\<exists>u. r = Fault u)"
  by (cases r) auto

lemma faults_obind [outcome_simps]:
  "faults (obind r f) \<longleftrightarrow> faults r \<or> (\<exists>x. r = Ok x \<and> faults (f x))"
  by (cases r) auto

section \<open>Characters of the C locale\<close>

abbreviation NUL :: char where
  "NUL \<equiv> CHR 0x00"

definition isspace :: "char \<Rightarrow> bool" where
  "isspace c \<longleftrightarrow> c \<in> {CHR '' '', CHR 0x09, CHR 0x0A, CHR 0x0B, CHR 0x0C, CHR 0x0D}"

definition isupper :: "char \<Rightarrow> bool" where
  "isupper c \<longleftrightarrow> 65 \<le> (of_char c :: nat) \<and> (of_char c :: nat) \<le> 90"

definition islower :: "char \<Rightarrow> bool" where
  "islower c \<longleftrightarrow> 97 \<le> (of_char c :: nat) \<and> (of_char c :: nat) \<le> 122"

definition isdigit :: "char \<Rightarrow> bool" where
  "isdigit c \<longleftrightarrow> 48 \<le> (of_char c :: nat) \<and> (of_char c :: nat) \<le> 57"

definition isalnum :: "char \<Rightarrow> bool" where
  "isalnum c \<longleftrightarrow> isupper c \<or> islower c \<or> isdigit c"

text \<open>The upper-case letters are 65 to 90; adding 32 to one of them sets its bit 5.\<close>

definition tolower :: "char \<Rightarrow> char" where
  "tolower c =
     (if isupper c
      then (case c of Char b0 b1 b2 b3 b4 b5 b6 b7 \<Rightarrow> Char b0 b1 b2 b3 b4 True b6 b7)
      else c)"

lemma isspace_NUL [simp]: "\<not> isspace NUL"
  by (simp add: isspace_def)

lemma isalnum_NUL [simp]: "\<not> isalnum NUL"
  by (simp add: isalnum_def isupper_def islower_def isdigit_def)

section \<open>C strings\<close>

text \<open>The string that a byte buffer with a final NUL holds: what precedes its first NUL.\<close>

definition cstr :: "string \<Rightarrow> string" where
  "cstr bs = takeWhile (\<lambda>c. c \<noteq> NUL) bs"

definition peek :: "string \<Rightarrow> char" where
  "peek p = (case p of [] \<Rightarrow> NUL | c # _ \<Rightarrow> c)"

text \<open>\<open>snprintf(buf, n, "%s", s)\<close>: the text is cut so that it and its NUL fit into n bytes.\<close>

definition snprintf :: "nat \<Rightarrow> string \<Rightarrow> string" where
  "snprintf n s = take (n - 1) s"

lemma peek_simps [simp]: "peek [] = NUL" "peek (c # p) = c"
  by (simp_all add: peek_def)

lemma cstr_no_NUL [simp]: "NUL \<notin> set (cstr s)"
  by (auto simp: cstr_def dest: set_takeWhileD)

lemma cstr_id: "NUL \<notin> set s \<Longrightarrow> cstr s = s"
  by (auto simp: cstr_def takeWhile_eq_all_conv)

lemma length_snprintf [simp]: "length (snprintf n s) = min (length s) (n - 1)"
  by (simp add: snprintf_def min.commute)

lemma length_snprintf_less: "0 < n \<Longrightarrow> length (snprintf n s) < n"
  by simp

lemma snprintf_fits: "length s < n \<Longrightarrow> snprintf n s = s"
  by (simp add: snprintf_def)

lemma snprintf_idem [simp]: "snprintf n (snprintf n s) = snprintf n s"
  by (simp add: snprintf_def)

lemma set_snprintf: "set (snprintf n s) \<subseteq> set s"
  by (auto simp: snprintf_def dest: in_set_takeD)

section \<open>Decimal conversions\<close>

definition digit_char :: "nat \<Rightarrow> char" where
  "digit_char d = ''0123456789'' ! d"

fun dec :: "nat \<Rightarrow> string" where
  "dec n = (if n < 10 then [digit_char n] else dec (n div 10) @ [digit_char (n mod 10)])"

declare dec.simps [simp del]

lemma dec_simps_numeral [ctext_simps]:
  "dec 0 = ''0''" "dec (Suc 0) = ''1''"
  "dec (numeral k) = (if numeral k < (10 :: nat) then [digit_char (numeral k)]
     else dec (numeral k div 10) @ [digit_char (numeral k mod 10)])"
  by (subst dec.simps, simp add: digit_char_def)+

text \<open>The conversions \<open>%d\<close> and \<open>%ld\<close> of a signed value.\<close>

definition sdec :: "int \<Rightarrow> string" where
  "sdec i = (if i < 0 then CHR ''-'' # dec (nat (- i)) else dec (nat i))"

definition digit_val :: "char \<Rightarrow> nat" where
  "digit_val c = (of_char c :: nat) - 48"

definition digits_val :: "string \<Rightarrow> nat" where
  "digits_val ds = foldl (\<lambda>acc c. 10 * acc + digit_val c) 0 ds"

text \<open>
  \<open>strtol(s, &end, 10)\<close> on a 64-bit \<open>long\<close>: white space, an optional sign, digits.
  The result is \<open>None\<close> where no digit is found (\<open>end == s\<close>), else the value with the
  unread rest and whether the value was out of range (\<open>errno == ERANGE\<close>).
\<close>

definition strtol :: "string \<Rightarrow> (int \<times> string \<times> bool) option" where
  "strtol s =
     (let s1 = dropWhile isspace s;
          neg = (peek s1 = CHR ''-'');
          s2 = (if peek s1 = CHR ''-'' \<or> peek s1 = CHR ''+'' then tl s1 else s1);
          ds = takeWhile isdigit s2;
          v = (if neg then - int (digits_val ds) else int (digits_val ds))
      in if ds = [] then None
         else if v < - (2 ^ 63) then Some (- (2 ^ 63), dropWhile isdigit s2, True)
         else if 2 ^ 63 \<le> v then Some (2 ^ 63 - 1, dropWhile isdigit s2, True)
         else Some (v, dropWhile isdigit s2, False))"

lemma digit_char_props:
  "d < 10 \<Longrightarrow> isdigit (digit_char d) \<and> digit_val (digit_char d) = d \<and> \<not> isspace (digit_char d)"
proof -
  assume "d < 10"
  then have "d \<in> {0, 1, 2, 3, 4, 5, 6, 7, 8, 9}" by auto
  then show ?thesis
    by (auto simp: digit_char_def isdigit_def digit_val_def isspace_def)
qed

lemma dec_not_Nil [simp]: "dec n \<noteq> []"
  by (subst dec.simps) simp

lemma dec_digits: "c \<in> set (dec n) \<Longrightarrow> isdigit c"
proof (induction n rule: dec.induct)
  case (1 n)
  then show ?case
    by (subst (asm) (2) dec.simps) (auto simp: digit_char_props split: if_splits)
qed

lemma digits_val_snoc [simp]: "digits_val (ds @ [c]) = 10 * digits_val ds + digit_val c"
  by (simp add: digits_val_def)

lemma digits_val_dec [simp]: "digits_val (dec n) = n"
proof (induction n rule: dec.induct)
  case (1 n)
  show ?case
  proof (cases "n < 10")
    case True
    then show ?thesis
      by (subst dec.simps) (simp add: digits_val_def digit_char_props)
  next
    case False
    with 1 show ?thesis
      by (subst dec.simps) (simp add: digit_char_props)
  qed
qed

lemma length_dec: "n < 10 ^ Suc k \<Longrightarrow> length (dec n) \<le> Suc k"
proof (induction k arbitrary: n)
  case 0
  then show ?case by (subst dec.simps) simp
next
  case (Suc k)
  have "n div 10 < 10 ^ Suc k"
    using Suc.prems by (simp add: less_mult_imp_div_less)
  then have "length (dec (n div 10)) \<le> Suc k" by (rule Suc.IH)
  then show ?case by (subst dec.simps) simp
qed

lemma isdigit_not_sign: "isdigit c \<Longrightarrow> c \<noteq> CHR ''-'' \<and> c \<noteq> CHR ''+'' \<and> \<not> isspace c \<and> c \<noteq> NUL"
  by (auto simp: isdigit_def isspace_def)

lemma dropWhile_all_not: "xs \<noteq> [] \<Longrightarrow> \<not> P (hd xs) \<Longrightarrow> dropWhile P xs = xs"
  by (cases xs) auto

lemma hd_dec_digit: "isdigit (hd (dec n))"
  by (rule dec_digits [of _ n]) simp

text \<open>Printing a value in range and reading it back gives the value and reads every digit.\<close>

lemma strtol_sdec:
  assumes "- (2 ^ 63) \<le> i" "i < 2 ^ 63"
  shows "strtol (sdec i) = Some (i, [], False)"
proof -
  have tk: "takeWhile isdigit (dec n) = dec n" and dr: "dropWhile isdigit (dec n) = []"
    and sp: "dropWhile isspace (dec n) = dec n" for n
    using dec_digits [of _ n] hd_dec_digit [of n] isdigit_not_sign
    by (auto simp: takeWhile_eq_all_conv dropWhile_eq_Nil_conv intro!: dropWhile_all_not)
  have pk: "peek (dec n) = hd (dec n)" for n
    by (cases "dec n") auto
  show ?thesis
  proof (cases "i < 0")
    case True
    then have "strtol (sdec i) = strtol (CHR ''-'' # dec (nat (- i)))"
      by (simp add: sdec_def)
    also have "\<dots> = Some (i, [], False)"
      using True assms by (simp add: strtol_def isspace_def tk dr)
    finally show ?thesis .
  next
    case False
    then show ?thesis
      using assms isdigit_not_sign [OF hd_dec_digit [of "nat i"]]
      by (simp add: strtol_def sdec_def sp pk tk dr Let_def)
  qed
qed

section \<open>Lists\<close>

text \<open>The loop \<open>for (i = 0; i < n; i++) if (P(a[i])) return i;\<close>, with \<open>None\<close> for no index.\<close>

fun first_index :: "('a \<Rightarrow> bool) \<Rightarrow> 'a list \<Rightarrow> nat option" where
  "first_index P [] = None"
| "first_index P (x # xs) = (if P x then Some 0 else map_option Suc (first_index P xs))"

lemma first_index_Some_iff:
  "first_index P xs = Some i \<longleftrightarrow> i < length xs \<and> P (xs ! i) \<and> (\<forall>j<i. \<not> P (xs ! j))"
proof (induction xs arbitrary: i)
  case Nil
  then show ?case by simp
next
  case (Cons x xs)
  show ?case
    by (cases i) (auto simp: Cons.IH less_Suc_eq_0_disj)
qed

lemma first_index_None_iff: "first_index P xs = None \<longleftrightarrow> (\<forall>x \<in> set xs. \<not> P x)"
  by (induction xs) auto

lemma first_index_SomeD:
  "first_index P xs = Some i \<Longrightarrow> i < length xs" "first_index P xs = Some i \<Longrightarrow> P (xs ! i)"
  by (simp_all add: first_index_Some_iff)

text \<open>The longest prefix of at most k characters that satisfy P, and the rest.\<close>

definition scan :: "('a \<Rightarrow> bool) \<Rightarrow> nat \<Rightarrow> 'a list \<Rightarrow> 'a list \<times> 'a list" where
  "scan P k s = (let a = takeWhile P (take k s) in (a, drop (length a) s))"

lemma scan_append: "scan P k s = (a, r) \<Longrightarrow> a @ r = s"
proof -
  assume sc: "scan P k s = (a, r)"
  then have "a = takeWhile P (take k s)" "r = drop (length a) s"
    by (auto simp: scan_def Let_def)
  moreover have "a @ (dropWhile P (take k s) @ drop k s) = s"
    unfolding \<open>a = _\<close> append_assoc [symmetric] by (simp only: takeWhile_dropWhile_id append_take_drop_id)
  ultimately show "a @ r = s" by (metis append_eq_conv_conj)
qed

lemma scan_bounds: "scan P k s = (a, r) \<Longrightarrow> length a \<le> k \<and> (\<forall>c \<in> set a. P c)"
  using length_takeWhile_le [of P "take k s"]
  by (auto simp: scan_def Let_def dest: set_takeWhileD)

lemma scan_exact:
  assumes "\<forall>c \<in> set a. P c" "length a \<le> k" "r = [] \<or> \<not> P (hd r)"
  shows "scan P k (a @ r) = (a, r)"
proof -
  have "takeWhile P (take k (a @ r)) = a"
    using assms by (cases r) (auto simp: takeWhile_append take_Cons' takeWhile_eq_all_conv)
  then show ?thesis by (simp add: scan_def)
qed

text \<open>The elements of a list of texts with a separator between them.\<close>

fun join :: "'a list \<Rightarrow> 'a list list \<Rightarrow> 'a list" where
  "join sep [] = []"
| "join sep [x] = x"
| "join sep (x # y # xs) = x @ sep @ join sep (y # xs)"

lemma join_Cons: "join sep (x # xs) = (if xs = [] then x else x @ sep @ join sep xs)"
  by (cases xs) auto

section \<open>Lines of a file\<close>

text \<open>\<open>fgets(buf, n, f)\<close>: at most n - 1 characters, up to and with a newline; and what is left.\<close>

definition fgets :: "nat \<Rightarrow> string \<Rightarrow> string \<times> string" where
  "fgets n s =
     (let (a, r) = scan (\<lambda>c. c \<noteq> CHR 0x0A) (n - 1) s in
      if length a < n - 1 \<and> r \<noteq> [] then (a @ [hd r], tl r) else (a, r))"

lemma fgets_progress: "2 \<le> n \<Longrightarrow> s \<noteq> [] \<Longrightarrow> length (snd (fgets n s)) < length s"
proof -
  assume n: "2 \<le> n" and s: "s \<noteq> []"
  obtain a b where sc: "scan (\<lambda>c. c \<noteq> CHR 0x0A) (n - 1) s = (a, b)" by fastforce
  have "length a + length b = length s" using scan_append [OF sc] by auto
  moreover have "a = [] \<Longrightarrow> length a < n - 1 \<and> b \<noteq> []" using scan_append [OF sc] s n by auto
  ultimately show "length (snd (fgets n s)) < length s"
    using sc by (cases "length a < n - 1 \<and> b \<noteq> []"; cases a; cases b) (auto simp: fgets_def)
qed

text \<open>The loop \<open>while (fgets(line, sizeof(line), f) != NULL)\<close> as the strings it sees in \<open>line\<close>.\<close>

function file_lines :: "nat \<Rightarrow> string \<Rightarrow> string list" where
  "file_lines n s = (if s = [] \<or> n < 2 then [] else cstr (fst (fgets n s)) # file_lines n (snd (fgets n s)))"
  by pat_completeness auto
termination
  by (relation "measure (\<lambda>(n, s). length s)") (auto intro: fgets_progress)

declare file_lines.simps [simp del]

lemma fgets_line:
  assumes "CHR 0x0A \<notin> set a" "length a < n - 1"
  shows "fgets n (a @ CHR 0x0A # r) = (a @ [CHR 0x0A], r)"
proof -
  have "scan (\<lambda>c. c \<noteq> CHR 0x0A) (n - 1) (a @ CHR 0x0A # r) = (a, CHR 0x0A # r)"
    using assms by (intro scan_exact) auto
  then show ?thesis using assms(2) by (simp add: fgets_def)
qed

lemma fgets_full:
  assumes "CHR 0x0A \<notin> set a" "length a = n - 1"
  shows "fgets n (a @ r) = (a, r)"
proof -
  have whole: "takeWhile (\<lambda>c. c \<noteq> CHR 0x0A) a = a"
    using assms(1) by (auto simp: takeWhile_eq_all_conv)
  have "scan (\<lambda>c. c \<noteq> CHR 0x0A) (n - 1) (a @ r) = (a, r)"
    using assms(2) by (simp add: scan_def Let_def whole)
  then show ?thesis by (simp add: fgets_def assms(2))
qed

end
