(* ===== verification/Schema.thy ===== *)
theory Schema
  imports Prelude
begin

text \<open>
  The data model of \<open>include/model.h\<close>: columns, rows, tables, clients, jobs and the
  shared state, and the small routines of \<open>src/model.c\<close> that the loader, the parser
  and the validator share: \<open>trim_inplace\<close>, \<open>ci_starts\<close>, \<open>ci_find\<close>, \<open>skip_ws\<close>,
  \<open>parse_identifier\<close>, \<open>find_table\<close>, \<open>find_column\<close>, \<open>split_qualified\<close>, \<open>appendf\<close>.

  An array with a count of its live entries (\<open>columns\<close>/\<open>column_count\<close>,
  \<open>rows\<close>/\<open>row_count\<close>, \<open>tables\<close>/\<open>table_count\<close>) is the list of the live entries; no
  code reads an entry past its count.  Arrays whose slots are addressed directly
  (\<open>clients\<close>, \<open>jobs\<close>, \<open>history\<close>, \<open>last_job_by_client\<close>, the cells of a row) are lists
  of their full size.  Counters and times are unbounded integers.
\<close>

section \<open>Limits\<close>

definition MAX_TABLES :: nat where [simp]: "MAX_TABLES = 32"
definition MAX_COLUMNS :: nat where [simp]: "MAX_COLUMNS = 32"
definition MAX_ROWS :: nat where [simp]: "MAX_ROWS = 1024"
definition MAX_NAME :: nat where [simp]: "MAX_NAME = 64"
definition MAX_TYPE :: nat where [simp]: "MAX_TYPE = 64"
definition MAX_VALUE :: nat where [simp]: "MAX_VALUE = 128"
definition MAX_HISTORY :: nat where [simp]: "MAX_HISTORY = 128"
definition MAX_COMMAND :: nat where [simp]: "MAX_COMMAND = 128"
definition MAX_JOBS :: nat where [simp]: "MAX_JOBS = 128"
definition MAX_JOB_RESULT :: nat where [simp]: "MAX_JOB_RESULT = 2048"
definition MAX_CLIENTS :: nat where [simp]: "MAX_CLIENTS = 128"

section \<open>Columns, rows, tables\<close>

record Column =
  col_name :: string
  col_type :: string
  primary_key :: bool
  unique :: bool
  not_null :: bool
  ref_table :: string
  ref_column :: string

record Row =
  vals :: "string list"
  is_null :: "bool list"

record Table =
  tab_name :: string
  columns :: "Column list"
  rows :: "Row list"

text \<open>A row after \<open>memset(ir, 0, sizeof(*ir))\<close>: every value empty, no cell NULL.\<close>

definition zero_row :: Row where
  "zero_row = \<lparr>vals = replicate MAX_COLUMNS [], is_null = replicate MAX_COLUMNS False\<rparr>"

section \<open>Clients, jobs, the shared state\<close>

record ClientInfo =
  ci_client_id :: int
  ci_fd :: int
  ci_addr :: string
  ci_connected_at :: int
  ci_last_seen :: int

text \<open>The texts that \<open>JobInfo.status\<close> takes, in the order a job goes through them.\<close>

datatype job_status = NoStatus | QUEUED | RUNNING | DONE | ERROR

fun status_text :: "job_status \<Rightarrow> string" where
  "status_text NoStatus = ''''"
| "status_text QUEUED = ''QUEUED''"
| "status_text RUNNING = ''RUNNING''"
| "status_text DONE = ''DONE''"
| "status_text ERROR = ''ERROR''"

record JobInfo =
  ji_job_id :: int
  ji_client_id :: int
  ji_op_id :: int
  ji_status :: job_status
  ji_result :: string
  ji_queued_at :: int
  ji_started_at :: int
  ji_finished_at :: int

record SharedState =
  started_at :: int
  total_commands :: int
  insert_commands :: int
  failed_commands :: int
  cancelled_commands :: int
  total_exec_ms :: int
  queue_depth :: int
  client_count :: int
  next_client_id :: int
  next_job_id :: int
  admin_connected :: bool
  active_client_id :: int
  active_op_id :: int
  active_started_at :: int
  cancel_client_id :: int
  clients :: "ClientInfo list"
  last_job_by_client :: "int list"
  jobs :: "JobInfo list"
  history :: "string list"
  history_count :: int
  tables :: "Table list"

definition zero_client :: ClientInfo where
  "zero_client = \<lparr>ci_client_id = 0, ci_fd = 0, ci_addr = [], ci_connected_at = 0, ci_last_seen = 0\<rparr>"

definition zero_job :: JobInfo where
  "zero_job = \<lparr>ji_job_id = 0, ji_client_id = 0, ji_op_id = 0, ji_status = NoStatus, ji_result = [],
     ji_queued_at = 0, ji_started_at = 0, ji_finished_at = 0\<rparr>"

text \<open>\<open>state_init\<close>; the argument is what \<open>time(NULL)\<close> returns.\<close>

definition state_init :: "int \<Rightarrow> SharedState" where
  "state_init now =
     \<lparr>started_at = now, total_commands = 0, insert_commands = 0, failed_commands = 0,
      cancelled_commands = 0, total_exec_ms = 0, queue_depth = 0, client_count = 0,
      next_client_id = 1, next_job_id = 1, admin_connected = False, active_client_id = 0,
      active_op_id = 0, active_started_at = 0, cancel_client_id = 0,
      clients = replicate MAX_CLIENTS zero_client,
      last_job_by_client = replicate MAX_CLIENTS 0,
      jobs = replicate MAX_JOBS zero_job,
      history = replicate MAX_HISTORY [],
      history_count = 0, tables = []\<rparr>"

section \<open>Text routines\<close>

text \<open>
  \<open>appendf(out, out_len, ...)\<close> with the formatted text s: nothing once the buffer is
  full, otherwise what fits into the \<open>out_len - used\<close> bytes left, one of them for the NUL.
\<close>

definition appendf :: "nat \<Rightarrow> string \<Rightarrow> string \<Rightarrow> string" where
  "appendf out_len s out =
     (let used = length out in
      if out_len \<le> used then out else out @ snprintf (out_len - used) s)"

definition skip_ws :: "string \<Rightarrow> string" where
  "skip_ws p = dropWhile isspace p"

definition trim_inplace :: "string \<Rightarrow> string" where
  "trim_inplace s = dropWhile isspace (rev (dropWhile isspace (rev s)))"

fun ci_starts :: "string \<Rightarrow> string \<Rightarrow> bool" where
  "ci_starts s [] = True"
| "ci_starts [] (c # prefix) = (tolower NUL = tolower c)"
| "ci_starts (x # s) (c # prefix) = (tolower x = tolower c \<and> ci_starts s prefix)"

text \<open>The inner loop of \<open>ci_find\<close>: how many characters of the needle match at p.\<close>

fun ci_match_len :: "string \<Rightarrow> string \<Rightarrow> nat" where
  "ci_match_len (x # p) (c # needle) = (if tolower x = tolower c then Suc (ci_match_len p needle) else 0)"
| "ci_match_len _ _ = 0"

fun ci_find_loop :: "string \<Rightarrow> string \<Rightarrow> string option" where
  "ci_find_loop [] needle = None"
| "ci_find_loop (x # p) needle =
     (if ci_match_len (x # p) needle = length needle then Some (x # p) else ci_find_loop p needle)"

definition ci_find :: "string \<Rightarrow> string \<Rightarrow> string option" where
  "ci_find haystack needle = (if needle = [] then Some haystack else ci_find_loop haystack needle)"

text \<open>
  \<open>parse_identifier\<close>: the name read and the position behind it; \<open>None\<close> is the return
  value 0.  At most \<open>out_len - 1\<close> characters are read, in both forms.
\<close>

definition parse_identifier :: "nat \<Rightarrow> string \<Rightarrow> (string \<times> string) option" where
  "parse_identifier out_len pp =
     (let p = skip_ws pp in
      if peek p = CHR 0x22 \<or> peek p = CHR 0x60 then
        (let quote = peek p;
             (out, r) = scan (\<lambda>c. c \<noteq> quote) (out_len - 1) (tl p)
         in if peek r \<noteq> quote then None
            else if out = [] then None else Some (out, tl r))
      else
        (let (out, r) = scan (\<lambda>c. isalnum c \<or> c = CHR ''_'') (out_len - 1) p
         in if out = [] then None else Some (out, r)))"

section \<open>Lookups\<close>

definition find_table :: "Table list \<Rightarrow> string \<Rightarrow> nat option" where
  "find_table ts name = first_index (\<lambda>t. tab_name t = name) ts"

definition find_column :: "Table \<Rightarrow> string \<Rightarrow> nat option" where
  "find_column t name = first_index (\<lambda>c. col_name c = name) (columns t)"

text \<open>\<open>split_qualified\<close>: the parts before and after the first dot.\<close>

definition split_qualified :: "string \<Rightarrow> nat \<Rightarrow> nat \<Rightarrow> string \<times> string" where
  "split_qualified s left_len right_len =
     (if CHR ''.'' \<notin> set s then (snprintf left_len s, [])
      else (snprintf left_len (takeWhile (\<lambda>c. c \<noteq> CHR ''.'') s),
            snprintf right_len (tl (dropWhile (\<lambda>c. c \<noteq> CHR ''.'') s))))"

section \<open>Well-formed tables\<close>

text \<open>
  What the fixed sizes of \<open>model.h\<close> promise: every name, type and value fits its
  character array with its NUL, the counts are within the arrays, a table has a column,
  and a primary key is not nullable.
\<close>

definition wf_column :: "Column \<Rightarrow> bool" where
  "wf_column c \<longleftrightarrow> length (col_name c) < MAX_NAME \<and> length (col_type c) < MAX_TYPE \<and>
     length (ref_table c) < MAX_NAME \<and> length (ref_column c) < MAX_NAME \<and>
     (primary_key c \<longrightarrow> not_null c)"

definition wf_row :: "Row \<Rightarrow> bool" where
  "wf_row r \<longleftrightarrow> length (vals r) = MAX_COLUMNS \<and> length (is_null r) = MAX_COLUMNS \<and>
     (\<forall>v \<in> set (vals r). length v < MAX_VALUE)"

definition wf_table :: "Table \<Rightarrow> bool" where
  "wf_table t \<longleftrightarrow> length (tab_name t) < MAX_NAME \<and> columns t \<noteq> [] \<and>
     length (columns t) \<le> MAX_COLUMNS \<and> (\<forall>c \<in> set (columns t). wf_column c) \<and>
     length (rows t) \<le> MAX_ROWS \<and> (\<forall>r \<in> set (rows t). wf_row r)"

definition wf_tables :: "Table list \<Rightarrow> bool" where
  "wf_tables ts \<longleftrightarrow> length ts \<le> MAX_TABLES \<and> (\<forall>t \<in> set ts. wf_table t)"

section \<open>Laws of the text routines\<close>

lemma appendf_fits: "length out < n \<Longrightarrow> appendf n s out = take (n - 1) (out @ s)"
  by (simp add: appendf_def snprintf_def)

lemma appendf_length: "length out < n \<Longrightarrow> length (appendf n s out) < n"
  by (auto simp: appendf_fits)

lemma appendf_append: "length out < n \<Longrightarrow> appendf n t (appendf n s out) = appendf n (s @ t) out"
  by (subst appendf_fits [OF appendf_length]) (auto simp: appendf_fits min_def)

lemma skip_ws_idem [simp]: "skip_ws (skip_ws p) = skip_ws p"
  by (simp add: skip_ws_def dropWhile_idem)

lemma length_skip_ws [shrinking]: "length (skip_ws p) \<le> length p"
  unfolding skip_ws_def by (rule length_dropWhile_le)

lemma skip_ws_not_space: "p \<noteq> [] \<Longrightarrow> \<not> isspace (hd p) \<Longrightarrow> skip_ws p = p"
  by (simp add: skip_ws_def dropWhile_all_not)

lemma skip_ws_Nil [simp]: "skip_ws [] = []"
  by (simp add: skip_ws_def)

lemma skip_ws_Cons [simp]: "skip_ws (c # p) = (if isspace c then skip_ws p else c # p)"
  by (simp add: skip_ws_def)

lemma trim_inplace_eq: "trim_inplace s = skip_ws (rev (skip_ws (rev s)))"
  by (simp add: trim_inplace_def skip_ws_def)

lemma trim_length: "length (trim_inplace s) \<le> length s"
  unfolding trim_inplace_eq
  by (metis length_rev length_skip_ws order_trans)

lemma set_trim: "set (trim_inplace s) \<subseteq> set s"
  by (auto simp: trim_inplace_def dest!: set_dropWhileD)

text \<open>Trimming leaves a string alone exactly when neither end is white space.\<close>

lemma trim_id: "s = [] \<or> (\<not> isspace (hd s) \<and> \<not> isspace (last s)) \<Longrightarrow> trim_inplace s = s"
  by (cases "s = []") (auto simp: trim_inplace_def dropWhile_all_not hd_rev)

lemma ci_match_len_le: "ci_match_len p needle \<le> length needle"
  by (induction p needle rule: ci_match_len.induct) auto

lemma ci_match_starts:
  "NUL \<notin> set needle \<Longrightarrow> \<forall>c \<in> set needle. tolower c \<noteq> NUL \<Longrightarrow>
   ci_match_len p needle = length needle \<longleftrightarrow> ci_starts p needle"
proof (induction needle arbitrary: p)
  case Nil
  then show ?case by (cases p) simp_all
next
  case (Cons c needle)
  then show ?case by (cases p) (auto simp: tolower_def isupper_def)
qed

lemma ci_find_loop_suffix: "ci_find_loop p needle = Some q \<Longrightarrow> \<exists>r. p = r @ q"
  by (induction p needle rule: ci_find_loop.induct) (fastforce split: if_splits)+

lemma ci_find_loop_length: "ci_find_loop p needle = Some q \<Longrightarrow> length needle \<le> length q \<and> length q \<le> length p"
proof (induction p needle rule: ci_find_loop.induct)
  case (2 x p needle)
  have "ci_match_len q n \<le> length q" for q n
    by (induction q n rule: ci_match_len.induct) auto
  from this [of "x # p" needle] show ?case
    using 2 by (auto split: if_splits)
qed simp

text \<open>A parsed identifier is not empty, fits its buffer, and reading it makes progress.\<close>

lemma parse_identifier_SomeD:
  assumes "parse_identifier n p = Some (out, r)"
  shows "out \<noteq> []" "length out < n" "length r < length p" "set out \<subseteq> set p"
proof -
  let ?p = "skip_ws p"
  have le: "length ?p \<le> length p" "set ?p \<subseteq> set p"
    by (auto simp: skip_ws_def length_dropWhile_le dest: set_dropWhileD)
  have "out \<noteq> [] \<and> length out < n \<and> length r < length p \<and> set out \<subseteq> set p"
  proof (cases "peek ?p = CHR 0x22 \<or> peek ?p = CHR 0x60")
    case True
    then obtain q ps where p: "?p = q # ps" by (cases ?p) auto
    obtain a b where sc: "scan (\<lambda>c. c \<noteq> q) (n - 1) ps = (a, b)" by fastforce
    have out: "out = a" "a \<noteq> []" "r = tl b" "peek b = q"
    proof -
      have "(if peek b \<noteq> q then None else if a = [] then None else Some (a, tl b)) = Some (out, r)"
        using assms True by (simp add: parse_identifier_def Let_def p sc del: One_nat_def)
      then show "out = a" "a \<noteq> []" "r = tl b" "peek b = q"
        by (auto split: if_splits)
    qed
    have "b \<noteq> []" using out(4) True by (auto simp: p)
    with le p out scan_append [OF sc] scan_bounds [OF sc] show ?thesis
      by (cases b; cases a) auto
  next
    case False
    obtain a b where sc: "scan (\<lambda>c. isalnum c \<or> c = CHR ''_'') (n - 1) ?p = (a, b)" by fastforce
    have "out = a" "a \<noteq> []" "r = b"
      using assms False by (auto simp: parse_identifier_def Let_def sc simp del: One_nat_def split: if_splits)
    moreover have "length a + length b = length ?p" "set a \<subseteq> set ?p"
      unfolding scan_append [OF sc, symmetric] by simp_all
    ultimately show ?thesis
      using le scan_bounds [OF sc] assms by (cases a) (auto simp: parse_identifier_def)
  qed
  then show "out \<noteq> []" "length out < n" "length r < length p" "set out \<subseteq> set p"
    by simp_all
qed

lemma find_table_SomeD:
  "find_table ts n = Some i \<Longrightarrow> i < length ts" "find_table ts n = Some i \<Longrightarrow> tab_name (ts ! i) = n"
  by (simp_all add: find_table_def first_index_Some_iff)

lemma find_column_SomeD:
  "find_column t n = Some i \<Longrightarrow> i < length (columns t)"
  "find_column t n = Some i \<Longrightarrow> col_name (columns t ! i) = n"
  by (simp_all add: find_column_def first_index_Some_iff)

lemma split_qualified_bounds:
  "split_qualified s m n = (l, r) \<Longrightarrow> 0 < m \<Longrightarrow> 0 < n \<Longrightarrow> length l < m \<and> length r < n"
  by (auto simp: split_qualified_def min_def split: if_splits)

text \<open>A qualified name \<open>table.column\<close> that fits splits into its two parts.\<close>

lemma split_qualified_dot:
  assumes "CHR ''.'' \<notin> set l" "length l < m" "length r < n"
  shows "split_qualified (l @ CHR ''.'' # r) m n = (l, r)"
proof -
  have "takeWhile (\<lambda>c. c \<noteq> CHR ''.'') (l @ CHR ''.'' # r) = l"
    "dropWhile (\<lambda>c. c \<noteq> CHR ''.'') (l @ CHR ''.'' # r) = CHR ''.'' # r"
    using assms(1) by (induction l) auto
  with assms show ?thesis by (simp add: split_qualified_def snprintf_fits)
qed

lemma wf_tables_nth: "wf_tables ts \<Longrightarrow> i < length ts \<Longrightarrow> wf_table (ts ! i)"
  by (simp add: wf_tables_def)

lemma wf_zero_row [simp]: "wf_row zero_row"
  by (simp add: wf_row_def zero_row_def)

end
