(* ===== verification/ErLoader.thy ===== *)
theory ErLoader
  imports Schema
begin

text \<open>
  Loading the ER diagram: \<open>read_json_file\<close>, \<open>cjson_copy_string\<close>, \<open>cjson_get_bool\<close>,
  \<open>load_column_json\<close> and \<open>load_er_json\<close> of \<open>src/model.c\<close>.  The cJSON library is a
  parameter: a record of the functions of \<open>cJSON.h\<close> the code calls, over an arbitrary
  type of nodes.  The outcome of each \<open>stdio\<close> call on the file is a parameter as well.
\<close>

section \<open>What the loader calls\<close>

text \<open>
  \<open>cj_parse\<close> is \<open>cJSON_ParseWithLength\<close> (\<open>None\<close> for NULL), \<open>cj_get\<close> is
  \<open>cJSON_GetObjectItemCaseSensitive\<close>, \<open>cj_elements\<close> the nodes \<open>cJSON_ArrayForEach\<close> visits.
\<close>

record 'j cjson =
  cj_parse :: "string \<Rightarrow> 'j option"
  cj_get :: "'j \<Rightarrow> string \<Rightarrow> 'j option"
  cj_is_array :: "'j \<Rightarrow> bool"
  cj_is_object :: "'j \<Rightarrow> bool"
  cj_is_string :: "'j \<Rightarrow> bool"
  cj_is_bool :: "'j \<Rightarrow> bool"
  cj_is_true :: "'j \<Rightarrow> bool"
  cj_is_number :: "'j \<Rightarrow> bool"
  cj_valuestring :: "'j \<Rightarrow> string option"
  cj_valueint :: "'j \<Rightarrow> int"
  cj_elements :: "'j \<Rightarrow> 'j list"

text \<open>What each call on the file does; \<open>fs_tell\<close> is the size, or the text of the error.\<close>

record file_calls =
  fs_open :: bool
  fs_seek_end :: bool
  fs_tell :: "string + nat"
  fs_rewind :: bool
  fs_malloc :: bool
  fs_read :: string

datatype er_error =
    CannotOpen | CannotSeek | CannotTell string | EmptyOrTooLarge | CannotRewind | OutOfMemory
  | CannotRead | InvalidJson | MissingTables | TableNotObject | TableWithoutName
  | TableWithoutColumns | ColumnNotObject | ColumnWithoutName | TableHasNoColumns

fun er_error_text :: "er_error \<Rightarrow> string" where
  "er_error_text CannotOpen = ''cannot open ER file''"
| "er_error_text CannotSeek = ''cannot seek ER file''"
| "er_error_text (CannotTell e) = ''cannot tell ER file size: '' @ e"
| "er_error_text EmptyOrTooLarge = ''ER file is empty or too large''"
| "er_error_text CannotRewind = ''cannot rewind ER file''"
| "er_error_text OutOfMemory = ''out of memory''"
| "er_error_text CannotRead = ''cannot read ER file''"
| "er_error_text InvalidJson = ''invalid ER JSON''"
| "er_error_text MissingTables = ''missing tables array''"
| "er_error_text TableNotObject = ''table entry must be object''"
| "er_error_text TableWithoutName = ''table without name''"
| "er_error_text TableWithoutColumns = ''table without columns''"
| "er_error_text ColumnNotObject = ''column entry must be object''"
| "er_error_text ColumnWithoutName = ''column without name''"
| "er_error_text TableHasNoColumns = ''table has no columns''"

section \<open>Operations\<close>

definition MAX_ER_FILE_SIZE :: nat where [simp]: "MAX_ER_FILE_SIZE = 1024 * 1024"

definition read_json_file :: "file_calls \<Rightarrow> er_error + string" where
  "read_json_file f =
     (if \<not> fs_open f then Inl CannotOpen
      else if \<not> fs_seek_end f then Inl CannotSeek
      else (case fs_tell f of
          Inl e \<Rightarrow> Inl (CannotTell e)
        | Inr len \<Rightarrow>
            if len = 0 \<or> len > MAX_ER_FILE_SIZE then Inl EmptyOrTooLarge
            else if \<not> fs_rewind f then Inl CannotRewind
            else if \<not> fs_malloc f then Inl OutOfMemory
            else if length (fs_read f) \<noteq> len then Inl CannotRead
            else Inr (fs_read f)))"

definition cjson_copy_string :: "'j cjson \<Rightarrow> 'j \<Rightarrow> string \<Rightarrow> nat \<Rightarrow> string option" where
  "cjson_copy_string L object key out_len =
     (case cj_get L object key of
        None \<Rightarrow> None
      | Some item \<Rightarrow>
          if \<not> cj_is_string L item then None
          else map_option (snprintf out_len) (cj_valuestring L item))"

definition cjson_get_bool :: "'j cjson \<Rightarrow> 'j \<Rightarrow> string \<Rightarrow> bool" where
  "cjson_get_bool L object key =
     (case cj_get L object key of
        None \<Rightarrow> False
      | Some item \<Rightarrow>
          if cj_is_bool L item then cj_is_true L item
          else if cj_is_number L item then cj_valueint L item \<noteq> 0
          else False)"

definition load_column_json :: "'j cjson \<Rightarrow> 'j \<Rightarrow> er_error + Column" where
  "load_column_json L cj =
     (case cjson_copy_string L cj ''name'' MAX_NAME of
        None \<Rightarrow> Inl ColumnWithoutName
      | Some name \<Rightarrow>
          let ty = (case cjson_copy_string L cj ''type'' MAX_TYPE of
                      None \<Rightarrow> snprintf MAX_TYPE ''TEXT'' | Some t \<Rightarrow> t);
              pk = cjson_get_bool L cj ''primary_key'';
              uq = cjson_get_bool L cj ''unique'';
              nn = (cjson_get_bool L cj ''not_null'' \<or> pk);
              (rt, rc) = (case cjson_copy_string L cj ''references'' (MAX_NAME * 2) of
                            None \<Rightarrow> ([], [])
                          | Some ref \<Rightarrow> split_qualified ref MAX_NAME MAX_NAME)
          in Inr \<lparr>col_name = name, col_type = ty, primary_key = pk, unique = uq, not_null = nn,
                 ref_table = rt, ref_column = rc\<rparr>)"

text \<open>The loop over the columns of a table; the list built so far is \<open>t->columns\<close>.\<close>

fun load_columns :: "'j cjson \<Rightarrow> Column list \<Rightarrow> 'j list \<Rightarrow> er_error + Column list" where
  "load_columns L cs [] = Inr cs"
| "load_columns L cs (cj # cjs) =
     (if length cs \<ge> MAX_COLUMNS then Inr cs
      else if \<not> cj_is_object L cj then Inl ColumnNotObject
      else (case load_column_json L cj of
          Inl e \<Rightarrow> Inl e
        | Inr c \<Rightarrow> load_columns L (cs @ [c]) cjs))"

definition load_table_json :: "'j cjson \<Rightarrow> 'j \<Rightarrow> er_error + Table" where
  "load_table_json L tj =
     (if \<not> cj_is_object L tj then Inl TableNotObject
      else (case cjson_copy_string L tj ''name'' MAX_NAME of
          None \<Rightarrow> Inl TableWithoutName
        | Some name \<Rightarrow>
            (case cj_get L tj ''columns'' of
               None \<Rightarrow> Inl TableWithoutColumns
             | Some columns_json \<Rightarrow>
                 if \<not> cj_is_array L columns_json then Inl TableWithoutColumns
                 else (case load_columns L [] (cj_elements L columns_json) of
                     Inl e \<Rightarrow> Inl e
                   | Inr cs \<Rightarrow>
                       if cs = [] then Inl TableHasNoColumns
                       else Inr \<lparr>tab_name = name, columns = cs, rows = []\<rparr>))))"

text \<open>
  The loop over the tables.  It writes into the state as it goes: the tables counted so
  far are there also when an entry is refused.
\<close>

fun load_tables :: "'j cjson \<Rightarrow> Table list \<Rightarrow> 'j list \<Rightarrow> Table list \<times> er_error option" where
  "load_tables L ts [] = (ts, None)"
| "load_tables L ts (tj # tjs) =
     (if length ts \<ge> MAX_TABLES then (ts, None)
      else (case load_table_json L tj of
          Inl e \<Rightarrow> (ts, Some e)
        | Inr t \<Rightarrow> load_tables L (ts @ [t]) tjs))"

text \<open>One entry of the optional \<open>relations\<close> array; malformed or unknown ones are skipped.\<close>

definition set_reference :: "string \<Rightarrow> string \<Rightarrow> Column \<Rightarrow> Column" where
  "set_reference rt rc c = c\<lparr>ref_table := snprintf MAX_NAME rt, ref_column := snprintf MAX_NAME rc\<rparr>"

definition apply_relation :: "'j cjson \<Rightarrow> Table list \<Rightarrow> 'j \<Rightarrow> Table list" where
  "apply_relation L ts rj =
     (if \<not> cj_is_object L rj then ts
      else (case (cjson_copy_string L rj ''from'' (MAX_NAME * 2),
                  cjson_copy_string L rj ''to'' (MAX_NAME * 2)) of
          (Some from, Some to) \<Rightarrow>
            let (from_table, from_col) = split_qualified from MAX_NAME MAX_NAME;
                (to_table, to_col) = split_qualified to MAX_NAME MAX_NAME
            in (case find_table ts from_table of
                  None \<Rightarrow> ts
                | Some ti \<Rightarrow>
                    (case find_column (ts ! ti) from_col of
                       None \<Rightarrow> ts
                     | Some ci \<Rightarrow>
                         ts[ti := (ts ! ti)\<lparr>columns := (columns (ts ! ti))
                              [ci := set_reference to_table to_col (columns (ts ! ti) ! ci)]\<rparr>]))
        | _ \<Rightarrow> ts))"

definition apply_relations :: "'j cjson \<Rightarrow> 'j \<Rightarrow> Table list \<Rightarrow> Table list" where
  "apply_relations L root ts =
     (case cj_get L root ''relations'' of
        None \<Rightarrow> ts
      | Some rels \<Rightarrow>
          if cj_is_array L rels then foldl (apply_relation L) ts (cj_elements L rels) else ts)"

text \<open>
  \<open>load_er_json\<close>: the new state, and the number of tables for the message
  \<open>loaded %d tables\<close> or the error.
\<close>

definition load_er_json ::
  "'j cjson \<Rightarrow> file_calls \<Rightarrow> SharedState \<Rightarrow> SharedState \<times> (er_error + nat)" where
  "load_er_json L f st =
     (case read_json_file f of
        Inl e \<Rightarrow> (st, Inl e)
      | Inr json \<Rightarrow>
          (case cj_parse L json of
             None \<Rightarrow> (st, Inl InvalidJson)
           | Some root \<Rightarrow>
               (case cj_get L root ''tables'' of
                  None \<Rightarrow> (st, Inl MissingTables)
                | Some tables_json \<Rightarrow>
                    if \<not> cj_is_array L tables_json then (st, Inl MissingTables)
                    else (case load_tables L [] (cj_elements L tables_json) of
                        (ts, Some e) \<Rightarrow> (st\<lparr>tables := ts\<rparr>, Inl e)
                      | (ts, None) \<Rightarrow>
                          let ts' = apply_relations L root ts
                          in (st\<lparr>tables := ts'\<rparr>, Inr (length ts'))))))"

definition load_message :: "er_error + nat \<Rightarrow> string" where
  "load_message r =
     (case r of Inr n \<Rightarrow> ''loaded '' @ dec n @ '' tables'' | Inl e \<Rightarrow> er_error_text e)"

section \<open>Every load leaves a well-formed schema\<close>

lemma cjson_copy_string_length:
  "cjson_copy_string L j k n = Some s \<Longrightarrow> 0 < n \<Longrightarrow> length s < n"
  by (auto simp: cjson_copy_string_def min_def split: option.splits if_splits)

lemma load_column_wf: "load_column_json L cj = Inr c \<Longrightarrow> wf_column c"
  by (auto simp: load_column_json_def wf_column_def Let_def snprintf_def
      dest: cjson_copy_string_length split_qualified_bounds
      split: option.splits prod.splits)

lemma load_columns_wf:
  "load_columns L cs cjs = Inr cs' \<Longrightarrow> length cs \<le> MAX_COLUMNS \<Longrightarrow> \<forall>c \<in> set cs. wf_column c \<Longrightarrow>
   length cs' \<le> MAX_COLUMNS \<and> (\<forall>c \<in> set cs'. wf_column c)"
  by (induction L cs cjs rule: load_columns.induct)
     (auto split: if_splits sum.splits dest: load_column_wf)

lemma load_table_wf: "load_table_json L tj = Inr t \<Longrightarrow> wf_table t \<and> rows t = []"
  by (auto simp: load_table_json_def wf_table_def
      dest: cjson_copy_string_length load_columns_wf split: if_splits option.splits sum.splits)

text \<open>A schema that has just been loaded: well formed and without rows.\<close>

definition fresh_tables :: "Table list \<Rightarrow> bool" where
  "fresh_tables ts \<longleftrightarrow> wf_tables ts \<and> (\<forall>t \<in> set ts. rows t = [])"

lemma fresh_snoc:
  "fresh_tables ts \<Longrightarrow> length ts < MAX_TABLES \<Longrightarrow> wf_table t \<Longrightarrow> rows t = [] \<Longrightarrow> fresh_tables (ts @ [t])"
  by (auto simp: fresh_tables_def wf_tables_def)

lemma fresh_update:
  "fresh_tables ts \<Longrightarrow> wf_table t \<Longrightarrow> rows t = [] \<Longrightarrow> fresh_tables (ts[i := t])"
  by (auto simp: fresh_tables_def wf_tables_def dest!: set_update_subset_insert [THEN subsetD])

lemma load_tables_fresh: "load_tables L ts tjs = (ts', e) \<Longrightarrow> fresh_tables ts \<Longrightarrow> fresh_tables ts'"
proof (induction L ts tjs rule: load_tables.induct)
  case (2 L ts tj tjs)
  show ?case
  proof (cases "length ts \<ge> MAX_TABLES")
    case True
    with "2.prems" show ?thesis by simp
  next
    case False
    show ?thesis
    proof (cases "load_table_json L tj")
      case (Inl e)
      with False "2.prems" show ?thesis by simp
    next
      case (Inr t)
      with False "2.prems" have "fresh_tables (ts @ [t])"
        using load_table_wf [OF Inr] by (intro fresh_snoc) simp_all
      with Inr False "2.prems"(1) show ?thesis by (intro "2.IH") simp_all
    qed
  qed
qed simp

lemma set_reference_wf: "wf_column c \<Longrightarrow> wf_column (set_reference rt rc c)"
  by (simp add: wf_column_def set_reference_def min_less_iff_disj)

lemma set_reference_table_wf:
  assumes "wf_table t"
  shows "wf_table (t\<lparr>columns := (columns t)[ci := set_reference rt rc (columns t ! ci)]\<rparr>)"
proof (cases "ci < length (columns t)")
  case True
  then have "wf_column (set_reference rt rc (columns t ! ci))"
    using assms by (simp add: wf_table_def set_reference_wf)
  with assms show ?thesis
    by (auto simp: wf_table_def dest!: set_update_subset_insert [THEN subsetD])
next
  case False
  with assms show ?thesis by (simp add: wf_table_def list_update_beyond)
qed

lemma apply_relation_fresh: "fresh_tables ts \<Longrightarrow> fresh_tables (apply_relation L ts rj)"
  by (auto simp: apply_relation_def Let_def split: option.splits prod.splits
      intro!: fresh_update set_reference_table_wf dest!: find_table_SomeD(1))
     (auto simp: fresh_tables_def wf_tables_def)

lemma apply_relation_length [simp]: "length (apply_relation L ts rj) = length ts"
  by (simp add: apply_relation_def Let_def split: option.splits prod.splits)

lemma foldl_apply_relation:
  "length (foldl (apply_relation L) ts rjs) = length ts"
  "fresh_tables ts \<Longrightarrow> fresh_tables (foldl (apply_relation L) ts rjs)"
  by (induction rjs arbitrary: ts) (simp_all add: apply_relation_fresh)

lemma apply_relations_props:
  "length (apply_relations L root ts) = length ts"
  "fresh_tables ts \<Longrightarrow> fresh_tables (apply_relations L root ts)"
  by (auto simp: apply_relations_def foldl_apply_relation split: option.splits)

lemma load_er_json_cases:
  assumes "load_er_json L f st = (st', r)"
  obtains (unchanged) e where "st' = st" "r = Inl e"
    | (partial) root arr ts e where "read_json_file f = Inr (fs_read f)"
        "cj_parse L (fs_read f) = Some root" "cj_get L root ''tables'' = Some arr"
        "load_tables L [] (cj_elements L arr) = (ts, Some e)" "st' = st\<lparr>tables := ts\<rparr>" "r = Inl e"
    | (loaded) root arr ts where "read_json_file f = Inr (fs_read f)"
        "cj_parse L (fs_read f) = Some root" "cj_get L root ''tables'' = Some arr"
        "load_tables L [] (cj_elements L arr) = (ts, None)"
        "st' = st\<lparr>tables := apply_relations L root ts\<rparr>" "r = Inr (length ts)"
proof (cases "read_json_file f")
  case (Inl e)
  with assms show thesis by (intro unchanged [of e]) (simp_all add: load_er_json_def)
next
  case read: (Inr json)
  then have json: "json = fs_read f"
    by (auto simp: read_json_file_def split: if_splits sum.splits)
  show thesis
  proof (cases "cj_parse L json")
    case None
    with assms read show thesis by (intro unchanged [of InvalidJson]) (simp_all add: load_er_json_def)
  next
    case root: (Some root)
    show thesis
    proof (cases "\<exists>arr. cj_get L root ''tables'' = Some arr \<and> cj_is_array L arr")
      case False
      with assms read root show thesis
        by (intro unchanged [of MissingTables]) (auto simp: load_er_json_def split: option.splits if_splits)
    next
      case True
      then obtain arr where arr: "cj_get L root ''tables'' = Some arr" "cj_is_array L arr" by blast
      obtain ts eo where lt: "load_tables L [] (cj_elements L arr) = (ts, eo)" by fastforce
      show thesis
      proof (cases eo)
        case None
        with assms read root arr lt json show thesis
          by (intro loaded [of root arr ts])
             (simp_all add: load_er_json_def Let_def apply_relations_props)
      next
        case (Some e)
        with assms read root arr lt json show thesis
          by (intro partial [of root arr ts e]) (simp_all add: load_er_json_def)
      qed
    qed
  qed
qed

text \<open>A load leaves a well-formed schema.\<close>

lemma load_er_json_keeps_wf:
  assumes "load_er_json L f st = (st', r)" and "wf_tables (tables st)"
  shows "wf_tables (tables st') \<and> st' = st\<lparr>tables := tables st'\<rparr> \<and>
    (tables st' = tables st \<or> (\<forall>t \<in> set (tables st'). rows t = [])) \<and>
    (\<forall>n. r = Inr n \<longrightarrow> n = length (tables st'))"
proof -
  have empty: "fresh_tables []" by (simp add: fresh_tables_def wf_tables_def)
  show ?thesis
    using assms(1)
  proof (cases rule: load_er_json_cases)
    case unchanged
    with assms(2) show ?thesis by simp
  next
    case (partial root arr ts e)
    then show ?thesis
      using load_tables_fresh [OF partial(4) empty] by (simp add: fresh_tables_def)
  next
    case (loaded root arr ts)
    then show ?thesis
      using apply_relations_props(2) [OF load_tables_fresh [OF loaded(4) empty], of L root]
      by (simp add: fresh_tables_def apply_relations_props(1))
  qed
qed

text \<open>
  Whatever the file and the JSON library answer, \<open>load_er_json\<close> leaves the shared
  state with tables that respect every limit of \<open>model.h\<close>; the tables of a schema it
  has started to load hold no rows, and it changes nothing but the tables.
\<close>

theorem load_er_json_wf:
  assumes "load_er_json L f st = (st', r)" and "wf_tables (tables st)"
  shows "wf_tables (tables st') \<and> st' = st\<lparr>tables := tables st'\<rparr> \<and>
    (tables st' = tables st \<or> (\<forall>t \<in> set (tables st'). rows t = [])) \<and>
    (\<forall>n. r = Inr n \<longrightarrow> n = length (tables st'))"
  using assms by (rule load_er_json_keeps_wf)

section \<open>What a load keeps of the file\<close>

lemma load_tables_error:
  "load_tables L ts tjs = (ts', Some e) \<Longrightarrow>
   \<exists>k < length tjs. \<exists>us. ts' = ts @ us \<and> list_all2 (\<lambda>tj t. load_table_json L tj = Inr t) (take k tjs) us \<and>
     load_table_json L (tjs ! k) = Inl e"
proof (induction L ts tjs rule: load_tables.induct)
  case (2 L ts tj tjs)
  from "2.prems" have len: "\<not> MAX_TABLES \<le> length ts"
    by (auto split: if_splits)
  show ?case
  proof (cases "load_table_json L tj")
    case (Inl e')
    with "2.prems" len show ?thesis by (intro exI [of _ 0]) simp
  next
    case (Inr t)
    with "2.prems" len have "load_tables L (ts @ [t]) tjs = (ts', Some e)" by simp
    from "2.IH" [OF len Inr this] obtain k us where
      "k < length tjs" "ts' = (ts @ [t]) @ us"
      "list_all2 (\<lambda>tj t. load_table_json L tj = Inr t) (take k tjs) us"
      "load_table_json L (tjs ! k) = Inl e" by blast
    with Inr show ?thesis
      by (intro exI [of _ "Suc k"]) (auto intro!: exI [of _ "t # us"])
  qed
qed simp

text \<open>
  C31: a load that fails on a table entry does not leave the schema as it was.  The tables
  it leaves are those of the entries before the bad one, without rows: the schema and all
  rows the server had accepted before are gone, and the fragment is served as the schema.
\<close>

theorem load_er_json_failure:
  assumes "load_er_json L f st = (st', Inl e)" and "read_json_file f = Inr json"
    and "cj_parse L json = Some root" and "cj_get L root ''tables'' = Some arr" and "cj_is_array L arr"
  shows "\<exists>k < length (cj_elements L arr).
    list_all2 (\<lambda>tj t. load_table_json L tj = Inr t) (take k (cj_elements L arr)) (tables st') \<and>
    load_table_json L (cj_elements L arr ! k) = Inl e \<and> (\<forall>t \<in> set (tables st'). rows t = [])"
proof -
  obtain ts eo where lt: "load_tables L [] (cj_elements L arr) = (ts, eo)" by fastforce
  with assms have "eo = Some e" "tables st' = ts"
    by (auto simp: load_er_json_def Let_def split: option.splits)
  moreover have "fresh_tables ts"
    by (rule load_tables_fresh [OF lt]) (simp add: fresh_tables_def wf_tables_def)
  ultimately show ?thesis
    using load_tables_error lt by (fastforce simp: fresh_tables_def)
qed

text \<open>
  A node that describes a column, a table, a schema: what the library answers on it are
  the fields of the column, table or schema, with all keys of a column written out.
\<close>

definition string_member :: "'j cjson \<Rightarrow> 'j \<Rightarrow> string \<Rightarrow> string \<Rightarrow> bool" where
  "string_member L j key s =
     (case cj_get L j key of None \<Rightarrow> False
      | Some i \<Rightarrow> cj_is_string L i \<and> cj_valuestring L i = Some s)"

definition bool_member :: "'j cjson \<Rightarrow> 'j \<Rightarrow> string \<Rightarrow> bool \<Rightarrow> bool" where
  "bool_member L j key b =
     (case cj_get L j key of None \<Rightarrow> \<not> b
      | Some i \<Rightarrow> cj_is_bool L i \<and> cj_is_true L i = b)"

definition column_node :: "'j cjson \<Rightarrow> 'j \<Rightarrow> Column \<Rightarrow> bool" where
  "column_node L j c \<longleftrightarrow> cj_is_object L j \<and>
     string_member L j ''name'' (col_name c) \<and> string_member L j ''type'' (col_type c) \<and>
     bool_member L j ''primary_key'' (primary_key c) \<and> bool_member L j ''unique'' (unique c) \<and>
     bool_member L j ''not_null'' (not_null c) \<and>
     (if ref_table c = [] then cj_get L j ''references'' = None \<and> ref_column c = []
      else string_member L j ''references'' (ref_table c @ CHR ''.'' # ref_column c) \<and>
        CHR ''.'' \<notin> set (ref_table c))"

definition array_member :: "'j cjson \<Rightarrow> 'j \<Rightarrow> string \<Rightarrow> ('j \<Rightarrow> 'a \<Rightarrow> bool) \<Rightarrow> 'a list \<Rightarrow> bool" where
  "array_member L j key P xs =
     (case cj_get L j key of None \<Rightarrow> False
      | Some a \<Rightarrow> cj_is_array L a \<and> list_all2 P (cj_elements L a) xs)"

definition table_node :: "'j cjson \<Rightarrow> 'j \<Rightarrow> Table \<Rightarrow> bool" where
  "table_node L j t \<longleftrightarrow> cj_is_object L j \<and> string_member L j ''name'' (tab_name t) \<and>
     array_member L j ''columns'' (column_node L) (columns t)"

definition schema_node :: "'j cjson \<Rightarrow> 'j \<Rightarrow> Table list \<Rightarrow> bool" where
  "schema_node L root ts \<longleftrightarrow> array_member L root ''tables'' (table_node L) ts \<and>
     cj_get L root ''relations'' = None"

lemma copy_string_member:
  "string_member L j k s \<Longrightarrow> length s < n \<Longrightarrow> cjson_copy_string L j k n = Some s"
  by (auto simp: string_member_def cjson_copy_string_def snprintf_fits split: option.splits)

lemma get_bool_member: "bool_member L j k b \<Longrightarrow> cjson_get_bool L j k = b"
  by (auto simp: bool_member_def cjson_get_bool_def split: option.splits)

lemma load_column_node:
  assumes node: "column_node L j c" and wf: "wf_column c"
  shows "load_column_json L j = Inr c"
proof -
  have copied: "cjson_copy_string L j ''name'' MAX_NAME = Some (col_name c)"
    "cjson_copy_string L j ''type'' MAX_TYPE = Some (col_type c)"
    using node wf by (auto simp: column_node_def wf_column_def intro: copy_string_member)
  have flags: "cjson_get_bool L j ''primary_key'' = primary_key c"
    "cjson_get_bool L j ''unique'' = unique c" "cjson_get_bool L j ''not_null'' = not_null c"
    using node by (auto simp: column_node_def get_bool_member)
  show ?thesis
  proof (cases "ref_table c = []")
    case True
    with node wf copied flags show ?thesis
      by (auto simp: load_column_json_def column_node_def wf_column_def cjson_copy_string_def)
  next
    case False
    then have "cjson_copy_string L j ''references'' (MAX_NAME * 2) =
        Some (ref_table c @ CHR ''.'' # ref_column c)"
      using node wf by (intro copy_string_member) (auto simp: column_node_def wf_column_def)
    moreover have "split_qualified (ref_table c @ CHR ''.'' # ref_column c) MAX_NAME MAX_NAME =
        (ref_table c, ref_column c)"
      using False node wf by (intro split_qualified_dot) (auto simp: column_node_def wf_column_def)
    ultimately show ?thesis
      using wf copied flags by (auto simp: load_column_json_def wf_column_def)
  qed
qed

lemma load_columns_nodes:
  "list_all2 (column_node L) cjs us \<Longrightarrow> \<forall>c \<in> set us. wf_column c \<Longrightarrow>
   length cs + length us \<le> MAX_COLUMNS \<Longrightarrow> load_columns L cs cjs = Inr (cs @ us)"
proof (induction cjs us arbitrary: cs rule: list_all2_induct)
  case (Cons j cjs c us)
  from Cons.hyps(1) have "cj_is_object L j" by (simp add: column_node_def)
  moreover have "load_columns L (cs @ [c]) cjs = Inr ((cs @ [c]) @ us)"
    using Cons.prems by (intro Cons.IH) simp_all
  ultimately show ?case
    using Cons.hyps(1) Cons.prems by (simp add: load_column_node)
qed simp

lemma load_table_node:
  assumes "table_node L j t" "wf_table t" "rows t = []"
  shows "load_table_json L j = Inr t"
proof -
  have "cjson_copy_string L j ''name'' MAX_NAME = Some (tab_name t)"
    using assms by (intro copy_string_member) (auto simp: table_node_def wf_table_def)
  moreover from assms obtain a where a: "cj_get L j ''columns'' = Some a" "cj_is_array L a"
      "list_all2 (column_node L) (cj_elements L a) (columns t)"
    by (auto simp: table_node_def array_member_def split: option.splits)
  moreover from a(3) assms(2) have "load_columns L [] (cj_elements L a) = Inr ([] @ columns t)"
    by (intro load_columns_nodes) (auto simp: wf_table_def)
  ultimately show ?thesis
    using assms by (simp add: load_table_json_def table_node_def wf_table_def)
qed

lemma load_tables_nodes:
  "list_all2 (table_node L) tjs us \<Longrightarrow> \<forall>t \<in> set us. wf_table t \<and> rows t = [] \<Longrightarrow>
   length ts + length us \<le> MAX_TABLES \<Longrightarrow> load_tables L ts tjs = (ts @ us, None)"
proof (induction tjs us arbitrary: ts rule: list_all2_induct)
  case (Cons j tjs t us)
  have "load_tables L (ts @ [t]) tjs = ((ts @ [t]) @ us, None)"
    using Cons.prems by (intro Cons.IH) simp_all
  with Cons.hyps(1) Cons.prems show ?case by (simp add: load_table_node)
qed simp

text \<open>A document that describes a schema loads as this schema.\<close>

lemma load_schema_node:
  assumes "read_json_file f = Inr json" and "cj_parse L json = Some root"
    and "schema_node L root ts" and "fresh_tables ts"
  shows "load_er_json L f st = (st\<lparr>tables := ts\<rparr>, Inr (length ts))"
proof -
  from assms(3) obtain arr where arr: "cj_get L root ''tables'' = Some arr" "cj_is_array L arr"
      "list_all2 (table_node L) (cj_elements L arr) ts"
    by (auto simp: schema_node_def array_member_def split: option.splits)
  moreover have "load_tables L [] (cj_elements L arr) = ([] @ ts, None)"
    using arr(3) assms(4) by (intro load_tables_nodes) (auto simp: fresh_tables_def wf_tables_def)
  ultimately show ?thesis
    using assms by (simp add: load_er_json_def schema_node_def apply_relations_def)
qed


section \<open>A concrete library\<close>

text \<open>
  To evaluate the loader, JSON values as a datatype and the library's functions on them;
  the parser stays a parameter.
\<close>

datatype json = JBool bool | JNum int | JStr string | JArr "json list" | JObj "(string \<times> json) list"

definition json_lib :: "(string \<Rightarrow> json option) \<Rightarrow> json cjson" where
  "json_lib parse =
     \<lparr>cj_parse = parse,
      cj_get = (\<lambda>j k. case j of JObj kvs \<Rightarrow> map_of kvs k | _ \<Rightarrow> None),
      cj_is_array = (\<lambda>j. case j of JArr _ \<Rightarrow> True | _ \<Rightarrow> False),
      cj_is_object = (\<lambda>j. case j of JObj _ \<Rightarrow> True | _ \<Rightarrow> False),
      cj_is_string = (\<lambda>j. case j of JStr _ \<Rightarrow> True | _ \<Rightarrow> False),
      cj_is_bool = (\<lambda>j. case j of JBool _ \<Rightarrow> True | _ \<Rightarrow> False),
      cj_is_true = (\<lambda>j. j = JBool True),
      cj_is_number = (\<lambda>j. case j of JNum _ \<Rightarrow> True | _ \<Rightarrow> False),
      cj_valuestring = (\<lambda>j. case j of JStr s \<Rightarrow> Some s | _ \<Rightarrow> None),
      cj_valueint = (\<lambda>j. case j of JNum i \<Rightarrow> i | _ \<Rightarrow> 0),
      cj_elements = (\<lambda>j. case j of JArr js \<Rightarrow> js | _ \<Rightarrow> [])\<rparr>"

definition plain_file :: "string \<Rightarrow> file_calls" where
  "plain_file s = \<lparr>fs_open = True, fs_seek_end = True, fs_tell = Inr (length s), fs_rewind = True,
     fs_malloc = True, fs_read = s\<rparr>"

text \<open>Two tables of \<open>examples/er_schema.json\<close>, as JSON and as a schema.\<close>

definition example_json :: json where
  "example_json = JObj [(''tables'', JArr [
     JObj [(''name'', JStr ''departments''), (''columns'', JArr [
       JObj [(''name'', JStr ''id''), (''type'', JStr ''INT''), (''primary_key'', JBool True),
             (''not_null'', JBool True)],
       JObj [(''name'', JStr ''name''), (''type'', JStr ''VARCHAR(80)''), (''unique'', JBool True),
             (''not_null'', JBool True)]])],
     JObj [(''name'', JStr ''employees''), (''columns'', JArr [
       JObj [(''name'', JStr ''id''), (''type'', JStr ''INT''), (''primary_key'', JBool True),
             (''not_null'', JBool True)],
       JObj [(''name'', JStr ''department_id''), (''type'', JStr ''INT''), (''not_null'', JBool True),
             (''references'', JStr ''departments.id'')]])]])]"

definition plain_column :: "string \<Rightarrow> string \<Rightarrow> Column" where
  "plain_column n ty = \<lparr>col_name = n, col_type = ty, primary_key = False, unique = False,
     not_null = False, ref_table = [], ref_column = []\<rparr>"

definition example_tables :: "Table list" where
  "example_tables =
     [\<lparr>tab_name = ''departments'', columns =
        [(plain_column ''id'' ''INT'')\<lparr>primary_key := True, not_null := True\<rparr>,
         (plain_column ''name'' ''VARCHAR(80)'')\<lparr>unique := True, not_null := True\<rparr>], rows = []\<rparr>,
      \<lparr>tab_name = ''employees'', columns =
        [(plain_column ''id'' ''INT'')\<lparr>primary_key := True, not_null := True\<rparr>,
         (plain_column ''department_id'' ''INT'')\<lparr>not_null := True,
            ref_table := ''departments'', ref_column := ''id''\<rparr>], rows = []\<rparr>]"


theorem load_er_json_wf_witness:
  "wf_tables (tables (fst (load_er_json (json_lib (\<lambda>_. Some example_json)) (plain_file ''{}'') (state_init 0))))"
  using load_er_json_wf [OF surjective_pairing, where L = "json_lib (\<lambda>_. Some example_json)"
      and f = "plain_file ''{}''" and st = "state_init 0"]
  by (simp add: state_init_def wf_tables_def)

text \<open>A loaded schema with a row, then the upload of an array whose first entry is no object.\<close>

definition one_row_state :: SharedState where
  "one_row_state = state_init 0\<lparr>tables :=
     [\<lparr>tab_name = ''t'', columns = [plain_column ''a'' ''INT''], rows = [zero_row]\<rparr>]\<rparr>"

theorem load_er_json_failure_witness:
  "tables one_row_state \<noteq> [] \<and>
   tables (fst (load_er_json (json_lib (\<lambda>_. Some (JObj [(''tables'', JArr [JNum 1])])))
     (plain_file ''{}'') one_row_state)) = []"
proof -
  let ?L = "json_lib (\<lambda>_. Some (JObj [(''tables'', JArr [JNum 1])]))"
  obtain st' where ld: "load_er_json ?L (plain_file ''{}'') one_row_state = (st', Inl TableNotObject)"
    by (simp add: load_er_json_def read_json_file_def plain_file_def json_lib_def load_table_json_def)
  have "\<exists>k < length (cj_elements ?L (JArr [JNum 1])).
      list_all2 (\<lambda>tj t. load_table_json ?L tj = Inr t) (take k (cj_elements ?L (JArr [JNum 1]))) (tables st') \<and>
      load_table_json ?L (cj_elements ?L (JArr [JNum 1]) ! k) = Inl TableNotObject \<and>
      (\<forall>t \<in> set (tables st'). rows t = [])"
    by (rule load_er_json_failure [OF ld, of "''{}''" "JObj [(''tables'', JArr [JNum 1])]"])
       (simp_all add: read_json_file_def plain_file_def json_lib_def)
  then have "tables st' = []" by (simp add: json_lib_def)
  with ld show ?thesis by (simp add: one_row_state_def)
qed

end
