(* ===== verification/InsertParser.thy ===== *)
theory InsertParser
  imports Schema
begin

text \<open>
  The parser of INSERT batches: \<open>parse_value\<close>, \<open>parse_insert_statement\<close> and
  \<open>parse_batch\<close> of \<open>src/model.c\<close>, as functions on the text that is left to read.  The
  array \<open>column_map[MAX_COLUMNS]\<close> is the list of the entries written; a write past its
  end is the outcome \<open>Fault ColumnMapOverflow\<close>.
\<close>

section \<open>Errors and rows\<close>

datatype insert_error =
    NoDiagram | SqlSyntax string
  | NotInsert | ExpectedInto | ExpectedTable | UnknownTable string
  | ExpectedColumn | UnknownColumn string string | ColumnListSyntax | ColumnListUnterminated
  | ExpectedValues | ExpectedTuple | TooManyRows | TooManyValues | TupleSyntax
  | TupleUnterminated | CountsDiffer | StatementTooLarge | EmptyBatch
  | TableFull string | NullValue string string | DuplicateValue string string
  | RefTableMissing string | RefColumnMissing string string
  | ForeignKeyMissing string string string string string

fun insert_error_text :: "insert_error \<Rightarrow> string" where
  "insert_error_text NoDiagram = ''no ER diagram loaded''"
| "insert_error_text (SqlSyntax m) = ''SQL syntax error: '' @ m"
| "insert_error_text NotInsert = ''only INSERT statements are accepted''"
| "insert_error_text ExpectedInto = ''expected INTO''"
| "insert_error_text ExpectedTable = ''expected table name''"
| "insert_error_text (UnknownTable t) =
     ''constraint failed: table '' @ CHR 0x27 # t @ CHR 0x27 # '' does not exist''"
| "insert_error_text ExpectedColumn = ''expected column name''"
| "insert_error_text (UnknownColumn t c) =
     ''constraint failed: unknown column '' @ CHR 0x27 # t @ CHR ''.'' # c @ [CHR 0x27]"
| "insert_error_text ColumnListSyntax =
     ''expected comma or '' @ CHR 0x27 # CHR '')'' # CHR 0x27 # '' in column list''"
| "insert_error_text ColumnListUnterminated = ''unterminated column list''"
| "insert_error_text ExpectedValues = ''expected VALUES''"
| "insert_error_text ExpectedTuple =
     ''expected '' @ CHR 0x27 # CHR ''('' # CHR 0x27 # '' before values tuple''"
| "insert_error_text TooManyRows = ''too many rows in insert batch''"
| "insert_error_text TooManyValues = ''too many values''"
| "insert_error_text TupleSyntax =
     ''expected comma or '' @ CHR 0x27 # CHR '')'' # CHR 0x27 # '' in values tuple''"
| "insert_error_text TupleUnterminated = ''unterminated values tuple''"
| "insert_error_text CountsDiffer = ''column count and value count differ''"
| "insert_error_text StatementTooLarge = ''statement too large''"
| "insert_error_text EmptyBatch = ''empty insert batch''"
| "insert_error_text (TableFull t) =
     ''constraint failed: table '' @ CHR 0x27 # t @ CHR 0x27 # '' is full in demo storage''"
| "insert_error_text (NullValue t c) = ''constraint failed: '' @ t @ CHR ''.'' # c @ '' cannot be NULL''"
| "insert_error_text (DuplicateValue t c) =
     ''constraint failed: duplicate value for '' @ t @ CHR ''.'' # c"
| "insert_error_text (RefTableMissing t) =
     ''constraint failed: referenced table '' @ CHR 0x27 # t @ CHR 0x27 # '' missing''"
| "insert_error_text (RefColumnMissing t c) =
     ''constraint failed: referenced column '' @ CHR 0x27 # t @ CHR ''.'' # c @ CHR 0x27 # '' missing''"
| "insert_error_text (ForeignKeyMissing t c rt rc v) =
     ''constraint failed: foreign key '' @ t @ CHR ''.'' # c @ '' references missing '' @
     rt @ CHR ''.'' # rc @ CHR ''='' # v"

definition MAX_BATCH_ROWS :: nat where [simp]: "MAX_BATCH_ROWS = 256"
definition STMT_SIZE :: nat where [simp]: "STMT_SIZE = 16384"

text \<open>\<open>InsertRow\<close>; an \<open>InsertBatch\<close> is the list of its rows.\<close>

record InsertRow =
  ir_table :: nat
  ir_row :: Row

section \<open>Values\<close>

text \<open>The text of a quoted value up to the closing quote (a doubled quote is one), and the rest.\<close>

fun quoted_value :: "string \<Rightarrow> string \<times> string" where
  "quoted_value [] = ([], [])"
| "quoted_value (c # p) =
     (if c = CHR 0x27 \<and> peek p = CHR 0x27 then
        (let (v, r) = quoted_value (tl p) in (CHR 0x27 # v, r))
      else if c = CHR 0x27 then ([], p)
      else (let (v, r) = quoted_value p in (c # v, r)))"

definition plain_value :: "string \<Rightarrow> string \<times> string" where
  "plain_value p = (takeWhile (\<lambda>c. c \<noteq> CHR '','' \<and> c \<noteq> CHR '')'') p,
                    dropWhile (\<lambda>c. c \<noteq> CHR '','' \<and> c \<noteq> CHR '')'') p)"

text \<open>\<open>parse_value\<close>: the value, whether it is NULL, and the rest.\<close>

definition parse_value :: "nat \<Rightarrow> string \<Rightarrow> string \<times> bool \<times> string" where
  "parse_value value_len pp =
     (let p = skip_ws pp;
          (text, r) = (if peek p = CHR 0x27 then quoted_value (tl p) else plain_value p);
          value = trim_inplace (take (value_len - 1) text)
      in if value = ''NULL'' then ([], True, r) else (value, False, r))"

section \<open>One statement\<close>

lemma quoted_value_length: "quoted_value p = (v, r) \<Longrightarrow> length r \<le> length p"
proof (induction p arbitrary: v r rule: quoted_value.induct)
  case (2 c p)
  show ?case
  proof (cases "c = CHR 0x27 \<and> peek p = CHR 0x27")
    case True
    obtain v' r' where q: "quoted_value (tl p) = (v', r')" by fastforce
    with True "2.IH"(1) have "length r' \<le> length (tl p)" by blast
    with True q "2.prems" show ?thesis by simp
  next
    case False
    obtain v' r' where q: "quoted_value p = (v', r')" by fastforce
    with False "2.IH"(2) "2.prems" show ?thesis by (fastforce split: if_splits)
  qed
qed simp

lemma parse_value_length [shrinking]: "parse_value n p = (v, b, r) \<Longrightarrow> length r \<le> length p"
proof -
  assume pv: "parse_value n p = (v, b, r)"
  define q where "q = skip_ws p"
  obtain t r' where tr: "(if peek q = CHR 0x27 then quoted_value (tl q) else plain_value q) = (t, r')"
    by fastforce
  have "length r' \<le> length q"
    using tr length_dropWhile_le [of "\<lambda>c. c \<noteq> CHR '','' \<and> c \<noteq> CHR '')''" q]
    by (auto simp: plain_value_def dest: quoted_value_length split: if_splits)
  moreover have "length q \<le> length p"
    by (simp add: q_def length_skip_ws)
  moreover have "r = r'"
    using pv tr by (auto simp: parse_value_def q_def [symmetric] Let_def split: if_splits)
  ultimately show ?thesis by simp
qed

lemma skip_ws_after_identifier [shrinking]:
  "parse_identifier n p = Some (c, q) \<Longrightarrow> length (skip_ws q) < length p"
  using length_skip_ws [of q] by (auto dest: parse_identifier_SomeD)

lemma peek_skip_ws_length:
  "peek (skip_ws p) = c \<Longrightarrow> c \<noteq> NUL \<Longrightarrow> length (tl (skip_ws p)) < length p"
  using length_skip_ws [of p] by (cases "skip_ws p") auto

text \<open>
  The loop over an explicit column list, entered behind the opening parenthesis: the
  column numbers, and the rest behind the closing parenthesis.
\<close>

function parse_column_list ::
  "Table \<Rightarrow> string \<Rightarrow> nat list \<Rightarrow> string \<Rightarrow> (insert_error, nat list \<times> string) outcome" where
  "parse_column_list table table_name column_map p =
     (if peek p = NUL then Err ColumnListUnterminated
      else if peek p = CHR '')'' then Ok (column_map, tl p)
      else (case parse_identifier MAX_NAME p of
          None \<Rightarrow> Err ExpectedColumn
        | Some (cname, p1) \<Rightarrow>
            (case find_column table cname of
               None \<Rightarrow> Err (UnknownColumn table_name cname)
             | Some ci \<Rightarrow>
                 if length column_map \<ge> MAX_COLUMNS then Fault ColumnMapOverflow
                 else
                   (let p2 = skip_ws p1; column_map' = column_map @ [ci] in
                    if peek p2 = CHR '','' then parse_column_list table table_name column_map' (tl p2)
                    else if peek p2 \<noteq> CHR '')'' then Err ColumnListSyntax
                    else parse_column_list table table_name column_map' p2))))"
  by pat_completeness auto
termination
  by (relation "measure (\<lambda>(t, n, m, p). length p)")
     (auto dest: skip_ws_after_identifier simp: less_imp_diff_less)

declare parse_column_list.simps [simp del]

definition set_cell :: "nat \<Rightarrow> string \<Rightarrow> bool \<Rightarrow> Row \<Rightarrow> Row" where
  "set_cell ci v null r =
     r\<lparr>vals := (vals r)[ci := snprintf MAX_VALUE v], is_null := (is_null r)[ci := null]\<rparr>"

text \<open>
  The loop over the values of one tuple, entered behind the opening parenthesis.  The
  list argument is the part of \<open>column_map\<close> from \<open>value_index\<close> on.
\<close>

fun parse_tuple :: "nat list \<Rightarrow> Row \<Rightarrow> string \<Rightarrow> (insert_error, Row \<times> string) outcome" where
  "parse_tuple [] row p =
     (if peek p = NUL then Err TupleUnterminated
      else if peek p = CHR '')'' then Ok (row, tl p)
      else Err TooManyValues)"
| "parse_tuple (ci # cis) row p =
     (if peek p = NUL then Err TupleUnterminated
      else if peek p = CHR '')'' then Err CountsDiffer
      else
        (let (v, null, p1) = parse_value MAX_VALUE p;
             row' = set_cell ci v null row;
             p2 = skip_ws p1
         in if peek p2 = CHR '','' then parse_tuple cis row' (tl p2)
            else if peek p2 \<noteq> CHR '')'' then Err TupleSyntax
            else parse_tuple cis row' p2))"

lemma parse_tuple_length:
  "parse_tuple cis row p = Ok (row', r) \<Longrightarrow> length r \<le> length p"
proof (induction cis arbitrary: row p)
  case Nil
  then show ?case by (auto split: if_splits)
next
  case (Cons ci cis)
  obtain v b p1 where pv: "parse_value 128 p = (v, b, p1)" by (cases "parse_value 128 p")
  have le: "length (skip_ws p1) \<le> length p"
    using parse_value_length [OF pv] length_skip_ws [of p1] by simp
  have "parse_tuple cis (set_cell ci v b row)
      (if peek (skip_ws p1) = CHR '','' then tl (skip_ws p1) else skip_ws p1) = Ok (row', r)"
    using Cons.prems by (simp add: pv Let_def split: if_splits)
  from Cons.IH [OF this] le show ?case by (simp split: if_splits)
qed

text \<open>A row of the table before its values are set: every column NULL.\<close>

definition null_row :: "Table \<Rightarrow> Row" where
  "null_row table =
     zero_row\<lparr>is_null := replicate (length (columns table)) True @ drop (length (columns table)) (is_null zero_row)\<rparr>"

text \<open>The loop over the tuples behind VALUES.\<close>

function parse_tuples ::
  "nat \<Rightarrow> Table \<Rightarrow> nat list \<Rightarrow> InsertRow list \<Rightarrow> string \<Rightarrow> (insert_error, InsertRow list) outcome" where
  "parse_tuples table_index table column_map batch p =
     (let p = skip_ws p in
      if peek p = NUL then Ok batch
      else if peek p = CHR '','' then parse_tuples table_index table column_map batch (tl p)
      else if peek p \<noteq> CHR ''('' then Err ExpectedTuple
      else if length batch \<ge> MAX_BATCH_ROWS then Err TooManyRows
      else (case parse_tuple column_map (null_row table) (tl p) of
          Err e \<Rightarrow> Err e
        | Fault u \<Rightarrow> Fault u
        | Ok (row, r) \<Rightarrow>
            parse_tuples table_index table column_map
              (batch @ [\<lparr>ir_table = table_index, ir_row = row\<rparr>]) r))"
  by pat_completeness auto
termination
  by (relation "measure (\<lambda>(i, t, m, b, p). length p)")
     (auto dest: peek_skip_ws_length intro: le_less_trans [OF parse_tuple_length peek_skip_ws_length])

declare parse_tuples.simps [simp del]

text \<open>\<open>parse_insert_statement\<close>: the batch with the rows of one statement added.\<close>

definition parse_insert_statement ::
  "Table list \<Rightarrow> string \<Rightarrow> InsertRow list \<Rightarrow> (insert_error, InsertRow list) outcome" where
  "parse_insert_statement ts stmt batch =
     (let p = skip_ws stmt in
      if peek p = NUL then Ok batch
      else if \<not> ci_starts p ''insert'' then Err NotInsert
      else
        (let p = skip_ws (drop 6 p) in
         if \<not> ci_starts p ''into'' then Err ExpectedInto
         else (case parse_identifier MAX_NAME (drop 4 p) of
             None \<Rightarrow> Err ExpectedTable
           | Some (table_name, p) \<Rightarrow>
               (case find_table ts table_name of
                  None \<Rightarrow> Err (UnknownTable table_name)
                | Some table_index \<Rightarrow>
                    (let table = ts ! table_index; p = skip_ws p in
                     case (if peek p = CHR ''('' then parse_column_list table table_name [] (tl p)
                           else Ok ([0..<length (columns table)], p)) of
                       Err e \<Rightarrow> Err e
                     | Fault u \<Rightarrow> Fault u
                     | Ok (column_map, p) \<Rightarrow>
                         (case ci_find p ''values'' of
                            None \<Rightarrow> Err ExpectedValues
                          | Some p \<Rightarrow> parse_tuples table_index table column_map batch (drop 6 p)))))))"

section \<open>A batch of statements\<close>

text \<open>
  The loop of \<open>parse_batch\<close> over the characters of the text: \<open>prev\<close> is the character
  before p (none at the start), \<open>seg\<close> the text from \<open>start\<close> to p.
\<close>

definition close_statement ::
  "Table list \<Rightarrow> string \<Rightarrow> InsertRow list \<Rightarrow> (insert_error, InsertRow list) outcome" where
  "close_statement ts seg batch =
     (if length seg \<ge> STMT_SIZE then Err StatementTooLarge
      else
        (let stmt = trim_inplace seg in
         if stmt = [] then Ok batch else parse_insert_statement ts stmt batch))"

definition in_string_after :: "char option \<Rightarrow> bool \<Rightarrow> char \<Rightarrow> bool" where
  "in_string_after prev in_string c =
     (if c = CHR 0x27 \<and> (prev = None \<or> prev \<noteq> Some (CHR 0x5C)) then \<not> in_string else in_string)"

fun parse_batch_loop ::
  "Table list \<Rightarrow> char option \<Rightarrow> bool \<Rightarrow> string \<Rightarrow> InsertRow list \<Rightarrow> string \<Rightarrow> (insert_error, InsertRow list) outcome"
where
  "parse_batch_loop ts prev in_string seg batch [] = close_statement ts seg batch"
| "parse_batch_loop ts prev in_string seg batch (c # p) =
     (let in_string = in_string_after prev in_string c
      in if c = CHR '';'' \<and> \<not> in_string
         then (case close_statement ts seg batch of
                 Ok batch \<Rightarrow> parse_batch_loop ts (Some c) in_string [] batch p
               | Err e \<Rightarrow> Err e | Fault u \<Rightarrow> Fault u)
         else parse_batch_loop ts (Some c) in_string (seg @ [c]) batch p)"

definition parse_batch :: "Table list \<Rightarrow> string \<Rightarrow> (insert_error, InsertRow list) outcome" where
  "parse_batch ts sql =
     (case parse_batch_loop ts None False [] [] sql of
        Ok batch \<Rightarrow> if batch = [] then Err EmptyBatch else Ok batch
      | Err e \<Rightarrow> Err e | Fault u \<Rightarrow> Fault u)"

section \<open>Every parsed batch is well formed\<close>

text \<open>
  A row that the parser has built: it belongs to a loaded table, its arrays have their
  sizes and every value fits.
\<close>

definition wf_insert_row :: "Table list \<Rightarrow> InsertRow \<Rightarrow> bool" where
  "wf_insert_row ts ir \<longleftrightarrow> ir_table ir < length ts \<and> wf_row (ir_row ir)"

lemma parse_value_bound: "parse_value n p = (v, b, r) \<Longrightarrow> 0 < n \<Longrightarrow> length v < n"
proof -
  assume pv: "parse_value n p = (v, b, r)" and n: "0 < n"
  obtain t r' where tr: "(if peek (skip_ws p) = CHR 0x27 then quoted_value (tl (skip_ws p))
      else plain_value (skip_ws p)) = (t, r')" by fastforce
  have "v = [] \<or> v = trim_inplace (take (n - 1) t)"
    using pv tr by (auto simp: parse_value_def Let_def simp del: One_nat_def split: if_splits)
  with n trim_length [of "take (n - 1) t"] show "length v < n" by auto
qed

lemma set_cell_wf: "wf_row r \<Longrightarrow> wf_row (set_cell ci v b r)"
  by (auto simp: wf_row_def set_cell_def min_less_iff_disj
      dest!: set_update_subset_insert [THEN subsetD])

lemma null_row_wf: "length (columns t) \<le> MAX_COLUMNS \<Longrightarrow> wf_row (null_row t)"
  by (simp add: wf_row_def null_row_def zero_row_def)

lemma parse_tuple_wf: "parse_tuple cis row p = Ok (row', r) \<Longrightarrow> wf_row row \<Longrightarrow> wf_row row'"
proof (induction cis arbitrary: row p)
  case Nil
  then show ?case by (auto split: if_splits)
next
  case (Cons ci cis)
  obtain v b p1 where pv: "parse_value 128 p = (v, b, p1)" by (cases "parse_value 128 p")
  have "parse_tuple cis (set_cell ci v b row)
      (if peek (skip_ws p1) = CHR '','' then tl (skip_ws p1) else skip_ws p1) = Ok (row', r)"
    using Cons.prems by (simp add: pv Let_def split: if_splits)
  from Cons.IH [OF this set_cell_wf [OF Cons.prems(2)]] show ?case .
qed

lemma parse_tuples_wf:
  "parse_tuples ti t cm batch p = Ok batch' \<Longrightarrow> length (columns t) \<le> MAX_COLUMNS \<Longrightarrow> ti < length ts \<Longrightarrow>
   length batch \<le> MAX_BATCH_ROWS \<Longrightarrow> \<forall>ir \<in> set batch. wf_insert_row ts ir \<Longrightarrow>
   length batch' \<le> MAX_BATCH_ROWS \<and> (\<forall>ir \<in> set batch'. wf_insert_row ts ir)"
proof (induction ti t cm batch p rule: parse_tuples.induct)
  case (1 ti t cm batch p)
  let ?p = "skip_ws p"
  consider "peek ?p = NUL" | "peek ?p = CHR '',''" | "peek ?p = CHR ''(''"
    | "peek ?p \<noteq> NUL" "peek ?p \<noteq> CHR '',''" "peek ?p \<noteq> CHR ''(''" by blast
  then show ?case
  proof cases
    case 1
    with "1.prems" show ?thesis by (simp add: parse_tuples.simps [of ti t cm batch p])
  next
    case 2
    then have "parse_tuples ti t cm batch (tl ?p) = Ok batch'"
      using "1.prems"(1) by (simp add: parse_tuples.simps [of ti t cm batch p])
    with 2 "1.prems" show ?thesis by (intro "1.IH"(1)) simp_all
  next
    case 3
    then have len: "length batch < MAX_BATCH_ROWS"
      using "1.prems"(1) by (auto simp: parse_tuples.simps [of ti t cm batch p] split: if_splits)
    obtain row r where tup: "parse_tuple cm (null_row t) (tl ?p) = Ok (row, r)"
      using 3 len "1.prems"(1)
      by (auto simp: parse_tuples.simps [of ti t cm batch p] split: outcome.splits)
    have "wf_row row"
      by (rule parse_tuple_wf [OF tup null_row_wf [OF "1.prems"(2)]])
    moreover have "parse_tuples ti t cm (batch @ [\<lparr>ir_table = ti, ir_row = row\<rparr>]) r = Ok batch'"
      using 3 len tup "1.prems"(1) by (simp add: parse_tuples.simps [of ti t cm batch p])
    ultimately show ?thesis
      using 3 len tup "1.prems"
      by (intro "1.IH"(2) [OF refl _ _ _ _ tup refl]) (auto simp: wf_insert_row_def)
  next
    case 4
    with "1.prems"(1) show ?thesis by (simp add: parse_tuples.simps [of ti t cm batch p])
  qed
qed

text \<open>Where a statement is accepted, it names a loaded table and has a VALUES part.\<close>

lemma parse_insert_statement_Ok:
  assumes "parse_insert_statement ts stmt batch = Ok batch'"
  obtains (empty) "batch' = batch"
    | (rows) ti cm p where "ti < length ts" "parse_tuples ti (ts ! ti) cm batch p = Ok batch'"
proof (cases "peek (skip_ws stmt) = NUL")
  case True
  with assms show thesis by (intro empty) (simp add: parse_insert_statement_def)
next
  case False
  with assms obtain tn p ti where ti: "find_table ts tn = Some ti"
    and r: "(case (if peek p = CHR ''('' then parse_column_list (ts ! ti) tn [] (tl p)
        else Ok ([0..<length (columns (ts ! ti))], p)) of
          Err e \<Rightarrow> Err e | Fault u \<Rightarrow> Fault u
        | Ok (column_map, p) \<Rightarrow>
            (case ci_find p ''values'' of None \<Rightarrow> Err ExpectedValues
             | Some p \<Rightarrow> parse_tuples ti (ts ! ti) column_map batch (drop 6 p))) = Ok batch'"
    by (auto simp: parse_insert_statement_def Let_def split: if_splits option.splits prod.splits)
  then show thesis
    using find_table_SomeD(1) [OF ti]
    by (auto split: outcome.splits prod.splits option.splits intro: rows)
qed

lemma close_statement_wf:
  assumes "close_statement ts seg batch = Ok batch'" "wf_tables ts"
    "length batch \<le> MAX_BATCH_ROWS" "\<forall>ir \<in> set batch. wf_insert_row ts ir"
  shows "length batch' \<le> MAX_BATCH_ROWS \<and> (\<forall>ir \<in> set batch'. wf_insert_row ts ir)"
proof (cases "trim_inplace seg = []")
  case True
  with assms show ?thesis by (auto simp: close_statement_def split: if_splits)
next
  case False
  with assms(1) have "parse_insert_statement ts (trim_inplace seg) batch = Ok batch'"
    by (auto simp: close_statement_def Let_def split: if_splits)
  then show ?thesis
  proof (cases rule: parse_insert_statement_Ok)
    case empty
    with assms show ?thesis by simp
  next
    case (rows ti cm p)
    then have "length (columns (ts ! ti)) \<le> MAX_COLUMNS"
      using assms(2) wf_tables_nth by (auto simp: wf_table_def)
    with rows assms show ?thesis by (intro parse_tuples_wf) simp_all
  qed
qed

lemma parse_batch_loop_wf:
  "parse_batch_loop ts prev b seg batch p = Ok batch' \<Longrightarrow> wf_tables ts \<Longrightarrow>
   length batch \<le> MAX_BATCH_ROWS \<Longrightarrow> \<forall>ir \<in> set batch. wf_insert_row ts ir \<Longrightarrow>
   length batch' \<le> MAX_BATCH_ROWS \<and> (\<forall>ir \<in> set batch'. wf_insert_row ts ir)"
proof (induction p arbitrary: prev b seg batch)
  case Nil
  then show ?case using close_statement_wf by simp
next
  case (Cons c p)
  let ?b = "in_string_after prev b c"
  show ?case
  proof (cases "c = CHR '';'' \<and> \<not> ?b")
    case True
    then obtain batch1 where c1: "close_statement ts seg batch = Ok batch1"
      and l1: "parse_batch_loop ts (Some c) ?b [] batch1 p = Ok batch'"
      using Cons.prems(1) by (auto simp: Let_def split: outcome.splits)
    from close_statement_wf [OF c1] Cons.prems(2-4)
    have "length batch1 \<le> MAX_BATCH_ROWS \<and> (\<forall>ir \<in> set batch1. wf_insert_row ts ir)" by blast
    with Cons.IH [OF l1] Cons.prems(2) show ?thesis by blast
  next
    case False
    then have "parse_batch_loop ts (Some c) ?b (seg @ [c]) batch p = Ok batch'"
      using Cons.prems(1) by (simp add: Let_def split: if_splits)
    with Cons.IH [OF this] Cons.prems show ?thesis by blast
  qed
qed

lemma parse_batch_rows_wf:
  assumes "parse_batch ts sql = Ok batch" and "wf_tables ts"
  shows "0 < length batch \<and> length batch \<le> MAX_BATCH_ROWS \<and> (\<forall>ir \<in> set batch. wf_insert_row ts ir)"
proof -
  have "parse_batch_loop ts None False [] [] sql = Ok batch" and "batch \<noteq> []"
    using assms(1) by (auto simp: parse_batch_def split: outcome.splits if_splits)
  with parse_batch_loop_wf [OF this(1) assms(2)] show ?thesis by simp
qed

text \<open>
  A batch the parser accepts has at least one and at most \<open>MAX_BATCH_ROWS\<close> rows; every
  row belongs to a loaded table, has cells for all columns, and each of its values fits
  its \<open>MAX_VALUE\<close> bytes with the NUL.
\<close>

theorem parse_batch_wf:
  assumes "parse_batch ts sql = Ok batch" and "wf_tables ts"
  shows "0 < length batch \<and> length batch \<le> MAX_BATCH_ROWS \<and> (\<forall>ir \<in> set batch. wf_insert_row ts ir)"
  using assms by (rule parse_batch_rows_wf)

text \<open>A small table, and a statement for it with the values in the order of the columns.\<close>

definition pair_table :: Table where
  "pair_table = \<lparr>tab_name = ''t'', columns =
     [\<lparr>col_name = ''a'', col_type = ''INT'', primary_key = False, unique = False, not_null = False,
       ref_table = [], ref_column = []\<rparr>,
      \<lparr>col_name = ''b'', col_type = ''INT'', primary_key = False, unique = False, not_null = False,
       ref_table = [], ref_column = []\<rparr>], rows = []\<rparr>"

definition pair_row :: InsertRow where
  "pair_row = \<lparr>ir_table = 0, ir_row = set_cell 1 [] True (set_cell 0 ''7'' False (null_row pair_table))\<rparr>"

lemma parse_pair: "parse_batch [pair_table] ''insert into t values (7, NULL);'' = Ok [pair_row]"
  by code_simp

theorem parse_batch_wf_witness:
  "parse_batch [pair_table] ''insert into t values (7, NULL);'' = Ok [pair_row] \<and>
   0 < length [pair_row] \<and> wf_insert_row [pair_table] pair_row"
proof -
  have "wf_tables [pair_table]" by code_simp
  from parse_batch_wf [OF parse_pair this] show ?thesis using parse_pair by simp
qed

text \<open>
  The keyword NULL is recognised in upper case only: \<open>null\<close> is the four-letter text, and
  passes for a value of a column declared NOT NULL.
\<close>

lemma parse_null_lower:
  "parse_batch [pair_table] ''insert into t values (7, null);'' =
     Ok [\<lparr>ir_table = 0, ir_row = set_cell 1 ''null'' False (set_cell 0 ''7'' False (null_row pair_table))\<rparr>]"
  by code_simp

end
