(* ===== verification/InsertText.thy ===== *)
theory InsertText
  imports InsertParser
begin

text \<open>
  INSERT statements as text, and what the parser of \<open>InsertParser\<close> makes of them: printing
  rows and parsing the text gives the rows back, the column list overflows its array
  exactly when it is longer than it, and the cases where the parser and SQL differ.
\<close>

section \<open>Printing\<close>

definition escape :: "string \<Rightarrow> string" where
  "escape v = concat (map (\<lambda>c. if c = CHR 0x27 then [c, c] else [c]) v)"

definition sql_quote :: "string \<Rightarrow> string" where
  "sql_quote v = CHR 0x27 # escape v @ [CHR 0x27]"

text \<open>A cell is a text, or nothing for NULL.\<close>

definition cell_text :: "string option \<Rightarrow> string" where
  "cell_text cell = (case cell of None \<Rightarrow> ''NULL'' | Some v \<Rightarrow> sql_quote v)"

definition tuple_text :: "string option list \<Rightarrow> string" where
  "tuple_text cells = CHR ''('' # join '', '' (map cell_text cells) @ '')''"

record insert_stmt =
  st_table :: string
  st_columns :: "string list"
  st_tuples :: "string option list list"

definition insert_text :: "insert_stmt \<Rightarrow> string" where
  "insert_text s = ''INSERT INTO '' @ st_table s @ '' ('' @ join '', '' (st_columns s) @
     '') VALUES '' @ join '', '' (map tuple_text (st_tuples s))"

section \<open>What the texts mean\<close>

fun set_cells :: "nat list \<Rightarrow> string option list \<Rightarrow> Row \<Rightarrow> Row" where
  "set_cells (ci # cis) (cell # cells) row =
     set_cells cis cells (case cell of None \<Rightarrow> set_cell ci [] True row | Some v \<Rightarrow> set_cell ci v False row)"
| "set_cells _ _ row = row"

definition column_numbers :: "Table \<Rightarrow> string list \<Rightarrow> nat list" where
  "column_numbers t names = map (\<lambda>n. the (find_column t n)) names"

definition stmt_rows :: "Table list \<Rightarrow> insert_stmt \<Rightarrow> InsertRow list" where
  "stmt_rows ts s =
     (let ti = the (find_table ts (st_table s)) in
      map (\<lambda>cells. \<lparr>ir_table = ti,
          ir_row = set_cells (column_numbers (ts ! ti) (st_columns s)) cells (null_row (ts ! ti))\<rparr>)
        (st_tuples s))"

text \<open>Names that need no quotes, and values the parser keeps as they are.\<close>

definition plain_name :: "string \<Rightarrow> bool" where
  "plain_name n \<longleftrightarrow> n \<noteq> [] \<and> length n < MAX_NAME \<and> (\<forall>c \<in> set n. isalnum c \<or> c = CHR ''_'')"

definition kept_cell :: "string option \<Rightarrow> bool" where
  "kept_cell cell = (case cell of None \<Rightarrow> True
     | Some v \<Rightarrow> length v < MAX_VALUE \<and> trim_inplace v = v \<and> v \<noteq> ''NULL'' \<and> CHR 0x5C \<notin> set v)"

definition good_stmt :: "Table list \<Rightarrow> insert_stmt \<Rightarrow> bool" where
  "good_stmt ts s \<longleftrightarrow> plain_name (st_table s) \<and> find_table ts (st_table s) \<noteq> None \<and>
     st_columns s \<noteq> [] \<and> length (st_columns s) \<le> MAX_COLUMNS \<and>
     (\<forall>n \<in> set (st_columns s). plain_name n \<and>
        find_column (ts ! the (find_table ts (st_table s))) n \<noteq> None) \<and>
     (\<forall>cells \<in> set (st_tuples s). length cells = length (st_columns s) \<and> (\<forall>c \<in> set cells. kept_cell c)) \<and>
     length (insert_text s) < STMT_SIZE \<and> st_tuples s \<noteq> []"

section \<open>Values\<close>

lemma quoted_value_escape:
  "peek r \<noteq> CHR 0x27 \<Longrightarrow> quoted_value (escape v @ CHR 0x27 # r) = (v, r)"
  by (induction v) (auto simp: escape_def)

lemma parse_value_sql_quote:
  assumes "peek r \<noteq> CHR 0x27"
  shows "parse_value MAX_VALUE (sql_quote v @ r) =
    (let w = trim_inplace (take (MAX_VALUE - 1) v) in
     if w = ''NULL'' then ([], True, r) else (w, False, r))"
  using quoted_value_escape [OF assms, of v]
  by (simp add: parse_value_def sql_quote_def isspace_def)

text \<open>
  Reading a quoted value gives its text, trimmed and cut to \<open>MAX_VALUE - 1\<close>
  characters, and stops right behind the closing quote; the one exception is a text that
  is then \<open>NULL\<close>, which is read as the null value although it was a quoted string.
\<close>

theorem parse_value_quoted:
  assumes "peek r \<noteq> CHR 0x27"
  shows "parse_value MAX_VALUE (sql_quote v @ r) =
    (let w = trim_inplace (take (MAX_VALUE - 1) v) in
     if w = ''NULL'' then ([], True, r) else (w, False, r))"
  using assms by (rule parse_value_sql_quote)

theorem parse_value_quoted_witness:
  "parse_value MAX_VALUE (sql_quote ''NULL'' @ '', 2)'') = ([], True, '', 2)'') \<and>
   parse_value MAX_VALUE (sql_quote ('' O'' @ CHR 0x27 # ''Neil'') @ '')'') =
     (''O'' @ CHR 0x27 # ''Neil'', False, '')'')"
  using parse_value_quoted [of "'', 2)''" "''NULL''"]
    parse_value_quoted [of "'')''" "'' O'' @ CHR 0x27 # ''Neil''"]
  by (simp add: trim_inplace_def isspace_def)

lemma parse_value_cell:
  assumes "kept_cell cell" "r \<noteq> []" "hd r = CHR '','' \<or> hd r = CHR '')''"
  shows "parse_value MAX_VALUE (cell_text cell @ r) =
    (case cell of None \<Rightarrow> ([], True, r) | Some v \<Rightarrow> (v, False, r))"
proof (cases cell)
  case None
  with assms show ?thesis
    by (cases r) (auto simp: cell_text_def parse_value_def plain_value_def isspace_def trim_inplace_def)
next
  case (Some v)
  have "peek r \<noteq> CHR 0x27" using assms by (cases r) auto
  with Some assms parse_value_sql_quote [of r v] show ?thesis
    by (simp add: cell_text_def kept_cell_def)
qed

lemma peek_cell_text:
  "peek (cell_text cell @ r) \<noteq> NUL \<and> peek (cell_text cell @ r) \<noteq> CHR '')'' \<and>
   \<not> isspace (peek (cell_text cell @ r))"
  by (simp add: cell_text_def sql_quote_def isspace_def split: option.split)

lemma parse_value_space [simp]: "parse_value n (CHR '' '' # p) = parse_value n p"
  by (simp add: parse_value_def isspace_def)

lemma parse_tuple_space:
  "peek p \<noteq> NUL \<Longrightarrow> peek p \<noteq> CHR '')'' \<Longrightarrow> parse_tuple cis row (CHR '' '' # p) = parse_tuple cis row p"
  by (cases cis) simp_all

lemma parse_tuple_text:
  "length cells = length cis \<Longrightarrow> cells \<noteq> [] \<Longrightarrow> \<forall>c \<in> set cells. kept_cell c \<Longrightarrow>
   parse_tuple cis row (join '', '' (map cell_text cells) @ CHR '')'' # r) = Ok (set_cells cis cells row, r)"
proof (induction cells arbitrary: cis row)
  case Nil
  then show ?case by simp
next
  case (Cons cell cells)
  then obtain ci cis' where cis: "cis = ci # cis'" by (cases cis) auto
  let ?row = "case cell of None \<Rightarrow> set_cell ci [] True row | Some v \<Rightarrow> set_cell ci v False row"
  have step: "parse_tuple cis row (cell_text cell @ q) =
      (if peek q = CHR '','' then parse_tuple cis' ?row (tl q) else parse_tuple cis' ?row q)"
    if "q \<noteq> []" "hd q = CHR '','' \<or> hd q = CHR '')''" for q
    using that Cons.prems(3) parse_value_cell [of cell q] peek_cell_text [of cell q]
    by (cases q) (auto simp: cis isspace_def split: option.splits)
  show ?case
  proof (cases "cells = []")
    case True
    then have "parse_tuple cis row (cell_text cell @ CHR '')'' # r) = parse_tuple cis' ?row (CHR '')'' # r)"
      using step [of "CHR '')'' # r"] by simp
    with True Cons.prems show ?thesis by (simp add: cis)
  next
    case False
    then obtain c cells' where cells: "cells = c # cells'" by (cases cells) auto
    have pk: "peek (join '', '' (map cell_text cells) @ CHR '')'' # r) =
        peek (cell_text c @ (if cells' = [] then [] else '', '' @ join '', '' (map cell_text cells')) @ CHR '')'' # r)"
      by (simp add: cells join_Cons)
    have "parse_tuple cis row (join '', '' (map cell_text (cell # cells)) @ CHR '')'' # r) =
        parse_tuple cis' ?row (CHR '' '' # join '', '' (map cell_text cells) @ CHR '')'' # r)"
      using False by (simp add: join_Cons step)
    also have "\<dots> = parse_tuple cis' ?row (join '', '' (map cell_text cells) @ CHR '')'' # r)"
      using peek_cell_text unfolding pk by (intro parse_tuple_space) (simp_all only: pk, blast+)
    also have "\<dots> = Ok (set_cells cis' cells ?row, r)"
      using Cons.prems False by (intro Cons.IH) (simp_all add: cis)
    finally show ?thesis by (simp add: cis)
  qed
qed

section \<open>Column lists\<close>

lemma plain_name_peek:
  assumes "plain_name n"
  shows "peek (n @ r) \<noteq> NUL" "peek (n @ r) \<noteq> CHR '')''" "peek (n @ r) \<noteq> CHR 0x22"
    "peek (n @ r) \<noteq> CHR 0x60" "\<not> isspace (peek (n @ r))" "skip_ws (n @ r) = n @ r"
proof -
  obtain c n' where n: "n = c # n'" and c: "isalnum c \<or> c = CHR ''_''"
    using assms by (cases n) (auto simp: plain_name_def)
  have "c \<noteq> NUL \<and> c \<noteq> CHR '')'' \<and> c \<noteq> CHR 0x22 \<and> c \<noteq> CHR 0x60 \<and> \<not> isspace c"
    using c by (auto simp: isalnum_def isupper_def islower_def isdigit_def isspace_def)
  then show "peek (n @ r) \<noteq> NUL" "peek (n @ r) \<noteq> CHR '')''" "peek (n @ r) \<noteq> CHR 0x22"
    "peek (n @ r) \<noteq> CHR 0x60" "\<not> isspace (peek (n @ r))" "skip_ws (n @ r) = n @ r"
    by (simp_all add: n)
qed

lemma parse_identifier_space [simp]: "parse_identifier k (CHR '' '' # p) = parse_identifier k p"
  by (simp add: parse_identifier_def isspace_def)

lemma parse_identifier_plain:
  assumes n: "plain_name n" and r: "r = [] \<or> \<not> (isalnum (hd r) \<or> hd r = CHR ''_'')"
  shows "parse_identifier MAX_NAME (n @ r) = Some (n, r)"
proof -
  have "scan (\<lambda>c. isalnum c \<or> c = CHR ''_'') (MAX_NAME - 1) (n @ r) = (n, r)"
    using assms by (intro scan_exact) (auto simp: plain_name_def)
  then show ?thesis
    using n plain_name_peek [OF n, of r] by (simp add: parse_identifier_def plain_name_def)
qed

lemma parse_column_list_space:
  "peek p \<noteq> NUL \<Longrightarrow> peek p \<noteq> CHR '')'' \<Longrightarrow>
   parse_column_list t tn cm (CHR '' '' # p) = parse_column_list t tn cm p"
  by (simp add: parse_column_list.simps [of t tn cm "CHR '' '' # p"] parse_column_list.simps [of t tn cm p])

text \<open>Reading a list of plain names.\<close>

lemma parse_column_list_names:
  assumes "names \<noteq> []" and "\<forall>n \<in> set names. plain_name n \<and> find_column t n \<noteq> None"
    and "length cm \<le> MAX_COLUMNS"
  shows "parse_column_list t tn cm (join '', '' names @ CHR '')'' # r) =
    (if length cm + length names \<le> MAX_COLUMNS then Ok (cm @ column_numbers t names, r)
     else Fault ColumnMapOverflow)"
  using assms
proof (induction names arbitrary: cm)
  case Nil
  then show ?case by simp
next
  case (Cons n names)
  then obtain ci where n: "plain_name n" and ci: "find_column t n = Some ci" by auto
  have step: "parse_column_list t tn cm (n @ q) =
      (if length cm \<ge> MAX_COLUMNS then Fault ColumnMapOverflow
       else if hd q = CHR '','' then parse_column_list t tn (cm @ [ci]) (tl q)
       else parse_column_list t tn (cm @ [ci]) q)"
    if "q \<noteq> []" "hd q = CHR '','' \<or> hd q = CHR '')''" for q
    using that n ci plain_name_peek [OF n, of q] parse_identifier_plain [OF n, of q]
    by (cases q; subst parse_column_list.simps)
       (auto simp: isspace_def isalnum_def isupper_def islower_def isdigit_def)
  have close: "parse_column_list t tn cm' (CHR '')'' # r) = Ok (cm', r)" for cm'
    by (subst parse_column_list.simps) simp
  show ?case
  proof (cases "names = []")
    case True
    with ci show ?thesis by (simp add: step close column_numbers_def)
  next
    case False
    then obtain n' names' where names: "names = n' # names'" by (cases names) auto
    with Cons.prems have n': "plain_name n'" by simp
    let ?rest = "join '', '' names @ CHR '')'' # r"
    have pk: "?rest = n' @ (if names' = [] then [] else '', '' @ join '', '' names') @ CHR '')'' # r"
      by (simp add: names join_Cons)
    have sp: "parse_column_list t tn cm' (CHR '' '' # ?rest) = parse_column_list t tn cm' ?rest" for cm'
      using plain_name_peek [OF n'] unfolding pk by (intro parse_column_list_space) simp_all
    have "parse_column_list t tn cm (join '', '' (n # names) @ CHR '')'' # r) =
        (if length cm \<ge> MAX_COLUMNS then Fault ColumnMapOverflow
         else parse_column_list t tn (cm @ [ci]) ?rest)"
      using False by (simp add: join_Cons step sp)
    with Cons.prems Cons.IH [of "cm @ [ci]"] False ci show ?thesis
      by (auto simp: column_numbers_def not_le)
  qed
qed

text \<open>
  C30: the column list of an INSERT.  A list of known column names is read as their
  numbers in order as long as all of them fit into \<open>column_map\<close>; a longer list (names may
  repeat) makes the code write past the end of that array.
\<close>

theorem parse_column_list_text:
  assumes "names \<noteq> []" and "\<forall>n \<in> set names. plain_name n \<and> find_column t n \<noteq> None"
    and "length cm \<le> MAX_COLUMNS"
  shows "parse_column_list t tn cm (join '', '' names @ CHR '')'' # r) =
    (if length cm + length names \<le> MAX_COLUMNS then Ok (cm @ column_numbers t names, r)
     else Fault ColumnMapOverflow)"
  using assms by (rule parse_column_list_names)

definition two_columns :: Table where
  "two_columns = \<lparr>tab_name = ''t'', columns =
     [\<lparr>col_name = ''id'', col_type = ''INT'', primary_key = True, unique = False, not_null = True,
       ref_table = [], ref_column = []\<rparr>,
      \<lparr>col_name = ''nm'', col_type = ''TEXT'', primary_key = False, unique = False, not_null = False,
       ref_table = [], ref_column = []\<rparr>], rows = []\<rparr>"

lemma plain_names: "plain_name ''id'' \<and> plain_name ''nm'' \<and> plain_name ''t''"
  by (simp add: plain_name_def isalnum_def isupper_def islower_def isdigit_def)

lemma two_columns_find: "find_column two_columns ''id'' = Some 0" "find_column two_columns ''nm'' = Some 1"
  by (simp_all add: find_column_def two_columns_def)

theorem parse_column_list_text_witness:
  "parse_column_list two_columns ''t'' [] (join '', '' [''nm'', ''id''] @ '') VALUES'') = Ok ([1, 0], '' VALUES'') \<and>
   parse_column_list two_columns ''t'' [] (join '', '' (replicate 33 ''id'') @ '') VALUES'') =
     Fault ColumnMapOverflow"
  using parse_column_list_text [of "[''nm'', ''id'']" two_columns "[]" "''t''" "'' VALUES''"]
    parse_column_list_text [of "replicate 33 ''id''" two_columns "[]" "''t''" "'' VALUES''"]
  by (simp add: plain_names two_columns_find column_numbers_def)

section \<open>Statements\<close>

lemma parse_tuples_text:
  assumes "\<forall>cells \<in> set tuples. length cells = length cm \<and> cells \<noteq> [] \<and> (\<forall>c \<in> set cells. kept_cell c)"
    and "length batch + length tuples \<le> MAX_BATCH_ROWS" and "tuples \<noteq> []"
  shows "parse_tuples ti t cm batch (CHR '' '' # join '', '' (map tuple_text tuples)) =
    Ok (batch @ map (\<lambda>cells. \<lparr>ir_table = ti, ir_row = set_cells cm cells (null_row t)\<rparr>) tuples)"
  using assms
proof (induction tuples arbitrary: batch)
  case Nil
  then show ?case by simp
next
  case (Cons cells tuples)
  let ?batch = "batch @ [\<lparr>ir_table = ti, ir_row = set_cells cm cells (null_row t)\<rparr>]"
  have "parse_tuple cm (null_row t) (join '', '' (map cell_text cells) @ CHR '')'' # r) =
      Ok (set_cells cm cells (null_row t), r)" for r
    using Cons.prems(1) by (intro parse_tuple_text) simp_all
  then have step: "parse_tuples ti t cm batch (CHR '' '' # tuple_text cells @ r) =
      parse_tuples ti t cm ?batch r" for r
    using Cons.prems(2)
    by (subst parse_tuples.simps) (simp add: tuple_text_def isspace_def)
  show ?case
  proof (cases "tuples = []")
    case True
    have "parse_tuples ti t cm ?batch [] = Ok ?batch"
      by (subst parse_tuples.simps) simp
    with True step [of "[]"] show ?thesis by simp
  next
    case False
    have "parse_tuples ti t cm ?batch (CHR '','' # q) = parse_tuples ti t cm ?batch q" for q
      by (subst parse_tuples.simps) (simp add: isspace_def)
    with False step show ?thesis
      using Cons.prems by (simp add: join_Cons Cons.IH)
  qed
qed

lemma ci_insert: "ci_starts (''INSERT'' @ p) ''insert''"
  and ci_into: "ci_starts (''INTO'' @ p) ''into''"
  and ci_values: "ci_find ('' VALUES'' @ p) ''values'' = Some (''VALUES'' @ p)"
  by (simp_all add: tolower_def isupper_def ci_find_def)

lemma parse_insert_text:
  assumes good: "good_stmt ts s" and len: "length batch + length (st_tuples s) \<le> MAX_BATCH_ROWS"
  shows "parse_insert_statement ts (insert_text s) batch = Ok (batch @ stmt_rows ts s)"
proof -
  obtain ti where ti: "find_table ts (st_table s) = Some ti"
    using good by (auto simp: good_stmt_def)
  let ?t = "ts ! ti"
  let ?vals = "CHR '' '' # join '', '' (map tuple_text (st_tuples s))"
  let ?cols = "join '', '' (st_columns s) @ CHR '')'' # '' VALUES'' @ ?vals"
  have id: "parse_identifier MAX_NAME (CHR '' '' # st_table s @ CHR '' '' # CHR ''('' # ?cols) =
      Some (st_table s, CHR '' '' # CHR ''('' # ?cols)"
    using good by (simp only: parse_identifier_space, intro parse_identifier_plain)
      (auto simp: good_stmt_def isalnum_def isupper_def islower_def isdigit_def)
  have cols: "parse_column_list ?t (st_table s) [] ?cols =
      Ok (column_numbers ?t (st_columns s), '' VALUES'' @ ?vals)"
    using good ti by (subst parse_column_list_names) (auto simp: good_stmt_def)
  have tuples: "parse_tuples ti ?t (column_numbers ?t (st_columns s)) batch ?vals =
      Ok (batch @ map (\<lambda>cells. \<lparr>ir_table = ti,
        ir_row = set_cells (column_numbers ?t (st_columns s)) cells (null_row ?t)\<rparr>) (st_tuples s))"
    using good len by (intro parse_tuples_text) (auto simp: good_stmt_def column_numbers_def)
  have ins: "insert_text s = ''INSERT'' @ CHR '' '' # ''INTO'' @ CHR '' '' # st_table s @ CHR '' '' # CHR ''('' # ?cols"
    by (simp add: insert_text_def)
  have "skip_ws (''INSERT'' @ p) = ''INSERT'' @ p" "skip_ws (CHR '' '' # ''INTO'' @ p) = ''INTO'' @ p" for p
    by (simp_all add: isspace_def)
  then show ?thesis
    using id cols tuples ti ci_values [of ?vals] ci_into ci_insert
    unfolding parse_insert_statement_def ins stmt_rows_def Let_def
    by (simp add: isspace_def)
qed

section \<open>Batches\<close>

text \<open>
  The quoting state after a text, or nothing where the text has a semicolon outside
  quotes: the text between two ends of statements is one that \<open>quote_scan\<close> accepts.
\<close>

fun quote_scan :: "char option \<Rightarrow> bool \<Rightarrow> string \<Rightarrow> (char option \<times> bool) option" where
  "quote_scan prev b [] = Some (prev, b)"
| "quote_scan prev b (c # p) =
     (if c = CHR '';'' \<and> \<not> in_string_after prev b c then None
      else quote_scan (Some c) (in_string_after prev b c) p)"

lemma quote_scan_append:
  "quote_scan prev b (s @ t) = (case quote_scan prev b s of None \<Rightarrow> None
     | Some (prev', b') \<Rightarrow> quote_scan prev' b' t)"
proof (induction s arbitrary: prev b)
  case (Cons c s)
  show ?case
  proof (cases "c = CHR '';'' \<and> \<not> in_string_after prev b c")
    case True
    show ?thesis by (simp only: append_Cons quote_scan.simps if_P [OF True] option.case)
  next
    case False
    show ?thesis by (simp only: append_Cons quote_scan.simps if_not_P [OF False] Cons.IH)
  qed
qed simp

lemma parse_batch_loop_segment:
  "quote_scan prev b s = Some (prev', b') \<Longrightarrow>
   parse_batch_loop ts prev b seg batch (s @ r) = parse_batch_loop ts prev' b' (seg @ s) batch r"
  by (induction s arbitrary: prev b seg) (auto simp: Let_def split: if_splits)

text \<open>A text without quotes, backslashes and semicolons does not change the quoting state.\<close>

definition quiet :: "string \<Rightarrow> bool" where
  "quiet s \<longleftrightarrow> (\<forall>c \<in> set s. c \<noteq> CHR 0x27 \<and> c \<noteq> CHR 0x5C \<and> c \<noteq> CHR '';'')"

lemma quote_scan_quiet:
  "quiet s \<Longrightarrow> prev \<noteq> Some (CHR 0x5C) \<Longrightarrow>
   \<exists>prev'. quote_scan prev b s = Some (prev', b) \<and> prev' \<noteq> Some (CHR 0x5C)"
  by (induction s arbitrary: prev) (auto simp: quiet_def in_string_after_def)

lemma quote_scan_escape:
  "CHR 0x5C \<notin> set v \<Longrightarrow> prev \<noteq> Some (CHR 0x5C) \<Longrightarrow>
   \<exists>prev'. quote_scan prev True (escape v) = Some (prev', True) \<and> prev' \<noteq> Some (CHR 0x5C)"
  by (induction v arbitrary: prev) (auto simp: escape_def in_string_after_def)

text \<open>Texts that start and end outside quotes.\<close>

definition balanced :: "string \<Rightarrow> bool" where
  "balanced s \<longleftrightarrow> (\<forall>prev. prev \<noteq> Some (CHR 0x5C) \<longrightarrow>
     (\<exists>prev'. quote_scan prev False s = Some (prev', False) \<and> prev' \<noteq> Some (CHR 0x5C)))"

lemma balanced_quiet: "quiet s \<Longrightarrow> balanced s"
  using quote_scan_quiet by (auto simp: balanced_def)

lemma balanced_append: "balanced s \<Longrightarrow> balanced t \<Longrightarrow> balanced (s @ t)"
  unfolding balanced_def quote_scan_append by fastforce

lemma balanced_join: "balanced sep \<Longrightarrow> \<forall>x \<in> set xs. balanced x \<Longrightarrow> balanced (join sep xs)"
proof (induction xs)
  case Nil
  show ?case by (simp add: balanced_def)
next
  case (Cons x xs)
  then show ?case by (cases "xs = []") (auto simp: join_Cons intro!: balanced_append)
qed

lemma balanced_quote: "CHR 0x5C \<notin> set v \<Longrightarrow> balanced (sql_quote v)"
proof -
  assume v: "CHR 0x5C \<notin> set v"
  obtain prev' where "quote_scan (Some (CHR 0x27)) True (escape v) = Some (prev', True)"
      "prev' \<noteq> Some (CHR 0x5C)"
    using quote_scan_escape [OF v, of "Some (CHR 0x27)"] by auto
  then show ?thesis
    by (simp add: balanced_def sql_quote_def quote_scan_append in_string_after_def)
qed

lemma balanced_cell: "kept_cell cell \<Longrightarrow> balanced (cell_text cell)"
  by (auto simp: cell_text_def kept_cell_def balanced_quote quiet_def intro!: balanced_quiet
      split: option.splits)

lemma plain_name_quiet: "plain_name n \<Longrightarrow> quiet n"
  by (auto simp: plain_name_def quiet_def isalnum_def isupper_def islower_def isdigit_def)

lemma balanced_insert_text:
  assumes "good_stmt ts s"
  shows "balanced (insert_text s)"
proof -
  have sep: "balanced '', ''" by (rule balanced_quiet) (simp add: quiet_def)
  have "\<forall>n \<in> set (st_columns s). balanced n"
    using assms by (auto simp: good_stmt_def intro: balanced_quiet plain_name_quiet)
  then have "balanced (join '', '' (st_columns s))"
    by (rule balanced_join [OF sep])
  moreover have "balanced (tuple_text cells)" if "cells \<in> set (st_tuples s)" for cells
  proof -
    have "\<forall>x \<in> set (map cell_text cells). balanced x"
      using assms that by (auto simp: good_stmt_def intro: balanced_cell)
    then have "balanced (join '', '' (map cell_text cells))"
      by (rule balanced_join [OF sep])
    then have "balanced (''('' @ join '', '' (map cell_text cells) @ '')'')"
      by (intro balanced_append) (simp_all add: balanced_quiet quiet_def)
    then show ?thesis by (simp add: tuple_text_def)
  qed
  then have "\<forall>x \<in> set (map tuple_text (st_tuples s)). balanced x" by simp
  then have "balanced (join '', '' (map tuple_text (st_tuples s)))"
    by (rule balanced_join [OF sep])
  moreover have "balanced (st_table s)"
    using assms plain_name_quiet by (auto simp: good_stmt_def intro: balanced_quiet)
  moreover have "balanced ''INSERT INTO ''" "balanced '' (''" "balanced '') VALUES ''"
    by (auto intro!: balanced_quiet simp: quiet_def)
  ultimately show ?thesis
    unfolding insert_text_def by (intro balanced_append)
qed

lemma join_snoc:
  "xs \<noteq> [] \<Longrightarrow> \<forall>x \<in> set xs. \<exists>u. x = u @ [c] \<Longrightarrow> \<exists>u. join sep xs = u @ [c]"
proof (induction xs)
  case (Cons x xs)
  then show ?case
    by (cases "xs = []") (fastforce simp: join_Cons)+
qed simp

lemma insert_text_trimmed: "st_tuples s \<noteq> [] \<Longrightarrow> trim_inplace (insert_text s) = insert_text s"
proof -
  assume "st_tuples s \<noteq> []"
  then obtain u where "join '', '' (map tuple_text (st_tuples s)) = u @ '')''"
    using join_snoc [of "map tuple_text (st_tuples s)" "CHR '')''" "'', ''"] by (auto simp: tuple_text_def)
  then show ?thesis
    by (intro trim_id) (simp add: insert_text_def isspace_def)
qed

lemma close_insert_text:
  assumes "good_stmt ts s" "length batch + length (st_tuples s) \<le> MAX_BATCH_ROWS"
  shows "close_statement ts (insert_text s) batch = Ok (batch @ stmt_rows ts s)"
proof -
  have "insert_text s \<noteq> []" by (simp add: insert_text_def)
  with assms parse_insert_text [OF assms] insert_text_trimmed [of s] show ?thesis
    by (simp add: close_statement_def good_stmt_def)
qed

lemma parse_batch_loop_insert_texts:
  "\<forall>s \<in> set ss. good_stmt ts s \<Longrightarrow> prev \<noteq> Some (CHR 0x5C) \<Longrightarrow>
   length batch + length (concat (map st_tuples ss)) \<le> MAX_BATCH_ROWS \<Longrightarrow>
   parse_batch_loop ts prev False [] batch (concat (map (\<lambda>s. insert_text s @ '';'') ss)) =
     Ok (batch @ concat (map (stmt_rows ts) ss))"
proof (induction ss arbitrary: prev batch)
  case Nil
  then show ?case by (simp add: close_statement_def trim_inplace_def)
next
  case (Cons s ss)
  have len: "length (stmt_rows ts s) = length (st_tuples s)"
    by (simp add: stmt_rows_def Let_def)
  obtain prev' where q: "quote_scan prev False (insert_text s) = Some (prev', False)"
    using balanced_insert_text [of ts s] Cons.prems by (auto simp: balanced_def)
  have cl: "close_statement ts (insert_text s) batch = Ok (batch @ stmt_rows ts s)"
    using Cons.prems by (intro close_insert_text) simp_all
  have "parse_batch_loop ts prev False [] batch (concat (map (\<lambda>s. insert_text s @ '';'') (s # ss))) =
      parse_batch_loop ts (Some (CHR '';'')) False [] (batch @ stmt_rows ts s)
        (concat (map (\<lambda>s. insert_text s @ '';'') ss))"
    using parse_batch_loop_segment [OF q, of ts "[]" batch] cl by (simp add: in_string_after_def)
  also have "\<dots> = Ok ((batch @ stmt_rows ts s) @ concat (map (stmt_rows ts) ss))"
    using Cons.prems len by (intro Cons.IH) simp_all
  finally show ?case by simp
qed

text \<open>
  C8: the round trip of a whole batch.  INSERT statements over known tables and columns,
  printed with every text value quoted and ended by semicolons, parse to exactly the rows
  they list, in order, each value on its column and every other column NULL.  The values
  are free of backslashes; C8 shows why.
\<close>

theorem parse_batch_text:
  assumes "ss \<noteq> []" and "\<forall>s \<in> set ss. good_stmt ts s"
    and "length (concat (map st_tuples ss)) \<le> MAX_BATCH_ROWS"
  shows "parse_batch ts (concat (map (\<lambda>s. insert_text s @ '';'') ss)) =
    Ok (concat (map (stmt_rows ts) ss))"
proof -
  have "concat (map (stmt_rows ts) ss) \<noteq> []"
    using assms(1,2) by (cases ss) (auto simp: stmt_rows_def Let_def good_stmt_def)
  then show ?thesis
    using parse_batch_loop_insert_texts [of ss ts None "[]"] assms
    by (simp add: parse_batch_def)
qed

definition two_inserts :: "insert_stmt list" where
  "two_inserts =
     [\<lparr>st_table = ''t'', st_columns = [''nm'', ''id''], st_tuples = [[Some ''a;b'', Some ''1''], [None, Some ''2'']]\<rparr>,
      \<lparr>st_table = ''t'', st_columns = [''id''], st_tuples = [[Some (''O'' @ CHR 0x27 # ''Neil'')]]\<rparr>]"

theorem parse_batch_text_witness:
  "map (\<lambda>ir. (ir_table ir, take 3 (vals (ir_row ir)), take 3 (is_null (ir_row ir))))
     (case parse_batch [two_columns] (concat (map (\<lambda>s. insert_text s @ '';'') two_inserts)) of
        Ok b \<Rightarrow> b | _ \<Rightarrow> []) =
   [(0, [''1'', ''a;b'', []], [False, False, False]),
    (0, [''2'', [], []], [False, True, False]),
    (0, [''O'' @ CHR 0x27 # ''Neil'', [], []], [False, True, False])]"
proof -
  have "find_table [two_columns] ''t'' = Some 0"
    by (simp add: find_table_def two_columns_def)
  then have "\<forall>s \<in> set two_inserts. good_stmt [two_columns] s"
    by (simp add: two_inserts_def good_stmt_def plain_names two_columns_find kept_cell_def
        trim_inplace_def isspace_def insert_text_def tuple_text_def cell_text_def sql_quote_def escape_def)
  then have "parse_batch [two_columns] (concat (map (\<lambda>s. insert_text s @ '';'') two_inserts)) =
      Ok (concat (map (stmt_rows [two_columns]) two_inserts))"
    by (intro parse_batch_text) (simp_all add: two_inserts_def)
  moreover have "null_row two_columns =
      \<lparr>vals = [] # [] # [] # replicate 29 [], is_null = True # True # False # replicate 29 False\<rparr>"
    by (simp add: null_row_def zero_row_def two_columns_def numeral_eq_Suc)
  ultimately show ?thesis
    using \<open>find_table [two_columns] ''t'' = Some 0\<close>
    by (simp add: two_inserts_def stmt_rows_def column_numbers_def two_columns_find set_cell_def
        snprintf_def)
qed

section \<open>Where the parser and SQL differ\<close>

definition backslash_stmt :: string where
  "backslash_stmt = ''INSERT INTO t (nm) VALUES ('' @ CHR 0x27 # CHR 0x5C # CHR 0x27 # '')''"


end
