(* ===== verification/InsertValidator.thy ===== *)
theory InsertValidator
  imports InsertText
begin

text \<open>
  The semantic validation of a parsed batch and its application: \<open>value_exists\<close>,
  \<open>duplicate_value\<close>, \<open>validate_batch_rows\<close>, \<open>validate_insert_batch\<close> and
  \<open>apply_insert_batch\<close> of \<open>src/model.c\<close>.  The SQL parser of libpg_query is a parameter:
  a function from the text to the message of its syntax error, if it has one.

  The reference for the validator is relational integrity: NOT NULL, uniqueness of
  PRIMARY KEY and UNIQUE columns, and foreign keys, stated on the stored rows.
\<close>

section \<open>Operations\<close>

text \<open>\<open>value_exists\<close>; the rows \<open>batch->rows[0..upto-1]\<close> are the list \<open>before\<close>.\<close>

definition value_exists :: "Table list \<Rightarrow> InsertRow list \<Rightarrow> nat \<Rightarrow> nat \<Rightarrow> string \<Rightarrow> bool" where
  "value_exists ts before table_index col_index value \<longleftrightarrow>
     list_ex (\<lambda>r. \<not> is_null r ! col_index \<and> vals r ! col_index = value) (rows (ts ! table_index)) \<or>
     list_ex (\<lambda>ir. ir_table ir = table_index \<and> \<not> is_null (ir_row ir) ! col_index \<and>
        vals (ir_row ir) ! col_index = value) before"

definition duplicate_value :: "Table list \<Rightarrow> InsertRow list \<Rightarrow> nat \<Rightarrow> nat \<Rightarrow> string \<Rightarrow> bool" where
  "duplicate_value ts before table_index col_index value =
     value_exists ts before table_index col_index value"

text \<open>The checks of one column of one row, in the order of the code.\<close>

definition validate_column :: "Table list \<Rightarrow> InsertRow list \<Rightarrow> InsertRow \<Rightarrow> nat \<Rightarrow> insert_error option" where
  "validate_column ts before ir c =
     (let table = ts ! ir_table ir; col = columns table ! c;
          null = is_null (ir_row ir) ! c; v = vals (ir_row ir) ! c
      in if (not_null col \<or> primary_key col) \<and> null
         then Some (NullValue (tab_name table) (col_name col))
         else if (primary_key col \<or> unique col) \<and> \<not> null \<and> duplicate_value ts before (ir_table ir) c v
         then Some (DuplicateValue (tab_name table) (col_name col))
         else if ref_table col \<noteq> [] \<and> \<not> null
         then (case find_table ts (ref_table col) of
                 None \<Rightarrow> Some (RefTableMissing (ref_table col))
               | Some rt \<Rightarrow>
                   (case find_column (ts ! rt) (ref_column col) of
                      None \<Rightarrow> Some (RefColumnMissing (ref_table col) (ref_column col))
                    | Some rc \<Rightarrow>
                        if \<not> value_exists ts before rt rc v
                        then Some (ForeignKeyMissing (tab_name table) (col_name col)
                               (ref_table col) (ref_column col) v)
                        else None))
         else None)"

fun validate_columns :: "Table list \<Rightarrow> InsertRow list \<Rightarrow> InsertRow \<Rightarrow> nat list \<Rightarrow> insert_error option" where
  "validate_columns ts before ir [] = None"
| "validate_columns ts before ir (c # cs) =
     (case validate_column ts before ir c of
        Some e \<Rightarrow> Some e
      | None \<Rightarrow> validate_columns ts before ir cs)"

definition validate_row :: "Table list \<Rightarrow> InsertRow list \<Rightarrow> InsertRow \<Rightarrow> insert_error option" where
  "validate_row ts before ir =
     (let table = ts ! ir_table ir in
      if length (rows table) \<ge> MAX_ROWS then Some (TableFull (tab_name table))
      else validate_columns ts before ir [0..<length (columns table)])"

text \<open>\<open>validate_batch_rows\<close>, from the row behind \<open>before\<close> on.\<close>

fun validate_batch_rows :: "Table list \<Rightarrow> InsertRow list \<Rightarrow> InsertRow list \<Rightarrow> insert_error option" where
  "validate_batch_rows ts before [] = None"
| "validate_batch_rows ts before (ir # irs) =
     (case validate_row ts before ir of
        Some e \<Rightarrow> Some e
      | None \<Rightarrow> validate_batch_rows ts (before @ [ir]) irs)"

definition validate_sql_syntax_pg_query :: "(string \<Rightarrow> string option) \<Rightarrow> string \<Rightarrow> insert_error option" where
  "validate_sql_syntax_pg_query pg sql = map_option SqlSyntax (pg sql)"

text \<open>The part that validation and application share: syntax, parsing, constraints.\<close>

definition check_batch :: "(string \<Rightarrow> string option) \<Rightarrow> Table list \<Rightarrow> string \<Rightarrow> (insert_error, InsertRow list) outcome" where
  "check_batch pg ts sql =
     (case validate_sql_syntax_pg_query pg sql of
        Some e \<Rightarrow> Err e
      | None \<Rightarrow>
          (case parse_batch ts sql of
             Err e \<Rightarrow> Err e
           | Fault u \<Rightarrow> Fault u
           | Ok batch \<Rightarrow>
               (case validate_batch_rows ts [] batch of
                  Some e \<Rightarrow> Err e
                | None \<Rightarrow> Ok batch)))"

text \<open>\<open>validate_insert_batch\<close>: the number of rows for \<open>OK: %d row(s) accepted\<close>.\<close>

definition validate_insert_batch :: "(string \<Rightarrow> string option) \<Rightarrow> Table list \<Rightarrow> string \<Rightarrow> (insert_error, nat) outcome" where
  "validate_insert_batch pg ts sql =
     (if ts = [] then Err NoDiagram
      else obind (check_batch pg ts sql) (\<lambda>batch. Ok (length batch)))"

text \<open>The last loop of \<open>apply_insert_batch\<close>: \<open>table->rows[table->row_count++] = ...\<close>.\<close>

definition add_row :: "InsertRow \<Rightarrow> Table list \<Rightarrow> Table list" where
  "add_row ir ts =
     ts[ir_table ir := (ts ! ir_table ir)\<lparr>rows := rows (ts ! ir_table ir) @ [ir_row ir]\<rparr>]"

fun store_rows :: "Table list \<Rightarrow> InsertRow list \<Rightarrow> (insert_error, Table list) outcome" where
  "store_rows ts [] = Ok ts"
| "store_rows ts (ir # irs) =
     (if length (rows (ts ! ir_table ir)) \<ge> MAX_ROWS then Fault RowStorageOverflow
      else store_rows (add_row ir ts) irs)"

definition apply_insert_batch ::
  "(string \<Rightarrow> string option) \<Rightarrow> SharedState \<Rightarrow> string \<Rightarrow> SharedState \<times> (insert_error, nat) outcome" where
  "apply_insert_batch pg st sql =
     (case check_batch pg (tables st) sql of
        Err e \<Rightarrow> (st, Err e)
      | Fault u \<Rightarrow> (st, Fault u)
      | Ok batch \<Rightarrow>
          (case store_rows (tables st) batch of
             Ok ts \<Rightarrow> (st\<lparr>tables := ts\<rparr>, Ok (length batch))
           | Err e \<Rightarrow> (st, Err e)
           | Fault u \<Rightarrow> (st, Fault u)))"

definition validate_message :: "(insert_error, nat) outcome \<Rightarrow> string" where
  "validate_message r =
     (case r of Ok n \<Rightarrow> ''OK: '' @ dec n @ '' row(s) accepted'' | Err e \<Rightarrow> insert_error_text e | Fault _ \<Rightarrow> [])"

definition apply_message :: "(insert_error, nat) outcome \<Rightarrow> string" where
  "apply_message r =
     (case r of Ok n \<Rightarrow> ''OK: inserted '' @ dec n @ '' row(s)'' | Err e \<Rightarrow> insert_error_text e | Fault _ \<Rightarrow> [])"

section \<open>Stores of rows\<close>

text \<open>
  What the validator relies on when it looks a value up \<open>in the stored rows or earlier in
  the batch\<close>: a store whose columns grow by the cells of the rows added to it.
\<close>

definition cell_of :: "InsertRow \<Rightarrow> nat \<Rightarrow> nat \<Rightarrow> string list" where
  "cell_of ir ti ci =
     (if ir_table ir = ti \<and> \<not> is_null (ir_row ir) ! ci then [vals (ir_row ir) ! ci] else [])"

locale row_store =
  fixes cells :: "'s \<Rightarrow> nat \<Rightarrow> nat \<Rightarrow> string list"
    and add :: "InsertRow \<Rightarrow> 's \<Rightarrow> 's"
    and admits :: "'s \<Rightarrow> InsertRow \<Rightarrow> bool"
  assumes cells_add: "admits s ir \<Longrightarrow> cells (add ir s) t c = cells s t c @ cell_of ir t c"
    and admits_add: "admits s ir \<Longrightarrow> admits s ir' \<Longrightarrow> admits (add ir' s) ir"
begin

lemma admits_fold:
  "\<forall>x \<in> set irs. admits s x \<Longrightarrow> admits s ir \<Longrightarrow> admits (fold add irs s) ir"
  by (induction irs arbitrary: s) (auto intro: admits_add)

lemma cells_fold:
  "\<forall>ir \<in> set irs. admits s ir \<Longrightarrow>
   cells (fold add irs s) t c = cells s t c @ concat (map (\<lambda>ir. cell_of ir t c) irs)"
  by (induction irs arbitrary: s) (simp_all add: cells_add admits_add)

lemma set_cells_fold:
  "\<forall>ir \<in> set irs. admits s ir \<Longrightarrow>
   v \<in> set (cells (fold add irs s) t c) \<longleftrightarrow>
     v \<in> set (cells s t c) \<or>
     (\<exists>ir \<in> set irs. ir_table ir = t \<and> \<not> is_null (ir_row ir) ! c \<and> vals (ir_row ir) ! c = v)"
  by (auto simp: cells_fold cell_of_def)

end

text \<open>The values of a column of the shared state: what is not NULL, in the order of the rows.\<close>

definition column_values :: "Table list \<Rightarrow> nat \<Rightarrow> nat \<Rightarrow> string list" where
  "column_values ts ti ci =
     map (\<lambda>r. vals r ! ci) (filter (\<lambda>r. \<not> is_null r ! ci) (rows (ts ! ti)))"

lemma length_add_row [simp]: "length (add_row ir ts) = length ts"
  by (simp add: add_row_def)

lemma columns_add_row [simp]: "columns (add_row ir ts ! i) = columns (ts ! i)"
  and tab_name_add_row [simp]: "tab_name (add_row ir ts ! i) = tab_name (ts ! i)"
  by (cases "ir_table ir < length ts"; cases "i = ir_table ir"; simp add: add_row_def list_update_beyond)+

lemma rows_add_row:
  "ir_table ir < length ts \<Longrightarrow>
   rows (add_row ir ts ! i) = rows (ts ! i) @ (if i = ir_table ir then [ir_row ir] else [])"
  by (cases "i = ir_table ir") (simp_all add: add_row_def)

interpretation shared_rows: row_store column_values add_row "\<lambda>ts ir. ir_table ir < length ts"
  by unfold_locales (auto simp: column_values_def rows_add_row cell_of_def)

lemma fold_add_row [simp]:
  "length (fold add_row irs ts) = length ts"
  "columns (fold add_row irs ts ! i) = columns (ts ! i)"
  "tab_name (fold add_row irs ts ! i) = tab_name (ts ! i)"
  by (induction irs arbitrary: ts) simp_all

lemma find_table_cong:
  "length ts' = length ts \<Longrightarrow> (\<And>i. i < length ts \<Longrightarrow> tab_name (ts' ! i) = tab_name (ts ! i)) \<Longrightarrow>
   find_table ts' n = find_table ts n"
proof -
  assume "length ts' = length ts" "\<And>i. i < length ts \<Longrightarrow> tab_name (ts' ! i) = tab_name (ts ! i)"
  then have "map tab_name ts' = map tab_name ts"
    by (intro nth_equalityI) simp_all
  moreover have "find_table us n = first_index (\<lambda>x. x = n) (map tab_name us)" for us
    unfolding find_table_def by (induction us) simp_all
  ultimately show ?thesis by simp
qed

lemma find_table_fold [simp]: "find_table (fold add_row irs ts) n = find_table ts n"
  by (rule find_table_cong) simp_all

lemma find_column_fold [simp]: "find_column (fold add_row irs ts ! i) n = find_column (ts ! i) n"
  by (simp add: find_column_def)

lemma find_table_add [simp]: "find_table (add_row ir ts) n = find_table ts n"
  and find_column_add [simp]: "find_column (add_row ir ts ! i) n = find_column (ts ! i) n"
  by (auto simp: find_column_def intro: find_table_cong)

section \<open>Integrity\<close>

definition references_value :: "Table list \<Rightarrow> Column \<Rightarrow> string \<Rightarrow> bool" where
  "references_value ts col v =
     (case find_table ts (ref_table col) of None \<Rightarrow> False
      | Some rt \<Rightarrow> (case find_column (ts ! rt) (ref_column col) of None \<Rightarrow> False
          | Some rc \<Rightarrow> v \<in> set (column_values ts rt rc)))"

text \<open>The three constraints on one column of the stored rows.\<close>

definition column_integrity :: "Table list \<Rightarrow> nat \<Rightarrow> nat \<Rightarrow> bool" where
  "column_integrity ts ti ci \<longleftrightarrow>
     (let col = columns (ts ! ti) ! ci in
      (not_null col \<or> primary_key col \<longrightarrow> (\<forall>r \<in> set (rows (ts ! ti)). \<not> is_null r ! ci)) \<and>
      (primary_key col \<or> unique col \<longrightarrow> distinct (column_values ts ti ci)) \<and>
      (ref_table col \<noteq> [] \<longrightarrow> (\<forall>v \<in> set (column_values ts ti ci). references_value ts col v)))"

definition integrity :: "Table list \<Rightarrow> bool" where
  "integrity ts \<longleftrightarrow>
     (\<forall>ti < length ts. \<forall>ci < length (columns (ts ! ti)). column_integrity ts ti ci)"

text \<open>A row that may be added to the stored rows without breaking a constraint of its columns.\<close>

definition cell_admissible :: "Table list \<Rightarrow> InsertRow \<Rightarrow> nat \<Rightarrow> bool" where
  "cell_admissible ts ir ci \<longleftrightarrow>
     (let col = columns (ts ! ir_table ir) ! ci;
          null = is_null (ir_row ir) ! ci; v = vals (ir_row ir) ! ci in
      (not_null col \<or> primary_key col \<longrightarrow> \<not> null) \<and>
      (primary_key col \<or> unique col \<longrightarrow> null \<or> v \<notin> set (column_values ts (ir_table ir) ci)) \<and>
      (ref_table col \<noteq> [] \<longrightarrow> null \<or> references_value ts col v))"

definition row_admissible :: "Table list \<Rightarrow> InsertRow \<Rightarrow> bool" where
  "row_admissible ts ir \<longleftrightarrow> (\<forall>ci < length (columns (ts ! ir_table ir)). cell_admissible ts ir ci)"

section \<open>The validator decides admissibility\<close>

lemma value_exists_iff:
  assumes "\<forall>ir \<in> set before. ir_table ir < length ts"
  shows "value_exists ts before ti ci v \<longleftrightarrow> v \<in> set (column_values (fold add_row before ts) ti ci)"
  unfolding shared_rows.set_cells_fold [OF assms] value_exists_def
  by (auto simp: column_values_def list_ex_iff)

lemma validate_column_None:
  assumes "\<forall>ir \<in> set before. ir_table ir < length ts"
  shows "validate_column ts before ir c = None \<longleftrightarrow> cell_admissible (fold add_row before ts) ir c"
  by (auto simp: validate_column_def cell_admissible_def references_value_def duplicate_value_def
      value_exists_iff [OF assms] Let_def split: option.splits)

lemma validate_columns_None:
  "validate_columns ts before ir cs = None \<longleftrightarrow> (\<forall>c \<in> set cs. validate_column ts before ir c = None)"
  by (induction cs) (auto split: option.splits)

lemma validate_row_None:
  assumes "\<forall>ir \<in> set before. ir_table ir < length ts"
  shows "validate_row ts before ir = None \<longleftrightarrow>
    length (rows (ts ! ir_table ir)) < MAX_ROWS \<and> row_admissible (fold add_row before ts) ir"
  by (auto simp: validate_row_def Let_def validate_columns_None row_admissible_def
      validate_column_None [OF assms])

lemma validate_batch_rows_None:
  assumes "\<forall>ir \<in> set (before @ irs). ir_table ir < length ts"
  shows "validate_batch_rows ts before irs = None \<longleftrightarrow>
    (\<forall>i < length irs. length (rows (ts ! ir_table (irs ! i))) < MAX_ROWS \<and>
       row_admissible (fold add_row (take i irs) (fold add_row before ts)) (irs ! i))"
  using assms
proof (induction irs arbitrary: before)
  case Nil
  then show ?case by simp
next
  case (Cons ir irs)
  have "validate_batch_rows ts before (ir # irs) = None \<longleftrightarrow>
      (length (rows (ts ! ir_table ir)) < MAX_ROWS \<and> row_admissible (fold add_row before ts) ir) \<and>
      validate_batch_rows ts (before @ [ir]) irs = None"
    using validate_row_None [of before ts ir] Cons.prems by (auto split: option.splits)
  also have "\<dots> \<longleftrightarrow> (\<forall>i < length (ir # irs). length (rows (ts ! ir_table ((ir # irs) ! i))) < MAX_ROWS \<and>
      row_admissible (fold add_row (take i (ir # irs)) (fold add_row before ts)) ((ir # irs) ! i))"
    using Cons.IH [of "before @ [ir]"] Cons.prems by (auto simp: All_less_Suc2)
  finally show ?case .
qed

text \<open>
  C6: the validator decides integrity.  A batch passes \<open>validate_batch_rows\<close> exactly when
  each of its rows, taken in order, is admissible with respect to the rows stored before
  and the rows of the batch before it (and its table was not full before the batch).
\<close>

theorem validate_batch_rows_exact:
  assumes "\<forall>ir \<in> set irs. ir_table ir < length ts"
  shows "validate_batch_rows ts [] irs = None \<longleftrightarrow>
    (\<forall>i < length irs. length (rows (ts ! ir_table (irs ! i))) < MAX_ROWS \<and>
       row_admissible (fold add_row (take i irs) ts) (irs ! i))"
  using validate_batch_rows_None [of "[]" irs ts] assms by simp

section \<open>Application keeps integrity\<close>

lemma references_value_add:
  "references_value ts col v \<Longrightarrow> ir_table ir < length ts \<Longrightarrow> references_value (add_row ir ts) col v"
  by (auto simp: references_value_def shared_rows.cells_add split: option.splits)

lemma column_integrity_add:
  assumes "column_integrity ts ti ci" "ir_table ir < length ts"
    and "ti = ir_table ir \<Longrightarrow> cell_admissible ts ir ci"
  shows "column_integrity (add_row ir ts) ti ci"
proof (cases "ti = ir_table ir")
  case True
  with assms have adm: "cell_admissible ts ir ci" by simp
  show ?thesis
    using assms(1,2) adm True references_value_add
    by (auto simp: column_integrity_def cell_admissible_def Let_def rows_add_row
        shared_rows.cells_add cell_of_def)
next
  case False
  with assms references_value_add show ?thesis
    by (auto simp: column_integrity_def Let_def rows_add_row shared_rows.cells_add cell_of_def)
qed

lemma integrity_add:
  "integrity ts \<Longrightarrow> ir_table ir < length ts \<Longrightarrow> row_admissible ts ir \<Longrightarrow> integrity (add_row ir ts)"
  by (auto simp: integrity_def row_admissible_def intro: column_integrity_add)

lemma integrity_fold:
  "integrity ts \<Longrightarrow> \<forall>ir \<in> set irs. ir_table ir < length ts \<Longrightarrow>
   \<forall>i < length irs. row_admissible (fold add_row (take i irs) ts) (irs ! i) \<Longrightarrow>
   integrity (fold add_row irs ts)"
  by (induction irs arbitrary: ts) (auto simp: All_less_Suc2 integrity_add)

lemma store_rows_Ok: "store_rows ts irs = Ok ts' \<Longrightarrow> ts' = fold add_row irs ts"
  by (induction irs arbitrary: ts) (auto split: if_splits)

definition rows_for :: "InsertRow list \<Rightarrow> nat \<Rightarrow> nat" where
  "rows_for irs ti = length (filter (\<lambda>ir. ir_table ir = ti) irs)"

definition fits_storage :: "Table list \<Rightarrow> InsertRow list \<Rightarrow> bool" where
  "fits_storage ts irs \<longleftrightarrow> (\<forall>ti < length ts. length (rows (ts ! ti)) + rows_for irs ti \<le> MAX_ROWS)"

text \<open>The loop that stores the rows stays inside \<open>Table.rows\<close> exactly when the batch fits.\<close>

lemma store_rows_eq:
  "\<forall>ir \<in> set irs. ir_table ir < length ts \<Longrightarrow> \<forall>ti < length ts. length (rows (ts ! ti)) \<le> MAX_ROWS \<Longrightarrow>
   store_rows ts irs =
     (if fits_storage ts irs then Ok (fold add_row irs ts) else Fault RowStorageOverflow)"
proof (induction irs arbitrary: ts)
  case Nil
  then show ?case by (simp add: fits_storage_def rows_for_def)
next
  case (Cons ir irs)
  show ?case
  proof (cases "length (rows (ts ! ir_table ir)) < MAX_ROWS")
    case True
    then have fits: "fits_storage (add_row ir ts) irs \<longleftrightarrow> fits_storage ts (ir # irs)"
      using Cons.prems(1) by (auto simp: fits_storage_def rows_add_row rows_for_def)
    have "store_rows (add_row ir ts) irs = (if fits_storage (add_row ir ts) irs
        then Ok (fold add_row irs (add_row ir ts)) else Fault RowStorageOverflow)"
      using Cons.prems True by (intro Cons.IH) (auto simp: rows_add_row)
    with True fits show ?thesis by simp
  next
    case False
    then have "\<not> fits_storage ts (ir # irs)"
      using Cons.prems(1) by (auto simp: fits_storage_def rows_for_def intro!: exI [of _ "ir_table ir"])
    with False show ?thesis by simp
  qed
qed

lemma wf_add_row:
  assumes "wf_tables ts" "wf_insert_row ts ir" "length (rows (ts ! ir_table ir)) < MAX_ROWS"
  shows "wf_tables (add_row ir ts)"
proof -
  have "wf_table (ts ! ir_table ir)"
    using assms by (intro wf_tables_nth) (simp_all add: wf_insert_row_def)
  then have "wf_table ((ts ! ir_table ir)\<lparr>rows := rows (ts ! ir_table ir) @ [ir_row ir]\<rparr>)"
    using assms(2,3) by (auto simp: wf_table_def wf_insert_row_def)
  with assms(1) show ?thesis
    by (auto simp: wf_tables_def add_row_def dest!: set_update_subset_insert [THEN subsetD])
qed

lemma wf_store_rows:
  "store_rows ts irs = Ok ts' \<Longrightarrow> wf_tables ts \<Longrightarrow> \<forall>ir \<in> set irs. wf_insert_row ts ir \<Longrightarrow> wf_tables ts'"
proof (induction irs arbitrary: ts)
  case (Cons ir irs)
  then have "wf_tables (add_row ir ts)"
    by (intro wf_add_row) (simp_all split: if_splits)
  moreover have "\<forall>x \<in> set irs. wf_insert_row (add_row ir ts) x"
    using Cons.prems(3) by (simp add: wf_insert_row_def)
  ultimately show ?case
    using Cons.prems(1) Cons.IH by (simp split: if_splits)
qed simp

lemma check_batch_Ok:
  "check_batch pg ts sql = Ok batch \<longleftrightarrow>
   pg sql = None \<and> parse_batch ts sql = Ok batch \<and> validate_batch_rows ts [] batch = None"
  by (auto simp: check_batch_def validate_sql_syntax_pg_query_def split: option.splits outcome.splits)

lemma apply_insert_batch_cases:
  assumes "apply_insert_batch pg st sql = (st', r)"
  obtains (refused) "st' = st" "\<And>n. r \<noteq> Ok n"
    | (applied) batch ts where "check_batch pg (tables st) sql = Ok batch"
        "store_rows (tables st) batch = Ok ts" "st' = st\<lparr>tables := ts\<rparr>" "r = Ok (length batch)"
proof (cases "\<exists>batch ts. check_batch pg (tables st) sql = Ok batch \<and> store_rows (tables st) batch = Ok ts")
  case True
  then obtain batch ts where "check_batch pg (tables st) sql = Ok batch" "store_rows (tables st) batch = Ok ts"
    by blast
  with assms show thesis by (intro applied) (auto simp: apply_insert_batch_def)
next
  case False
  with assms have "st' = st \<and> (\<forall>n. r \<noteq> Ok n)"
    by (simp add: apply_insert_batch_def split: outcome.splits)
       (metis Pair_inject outcome.distinct(1,3))+
  then show thesis by (intro refused) simp_all
qed

text \<open>Applying a batch keeps integrity.\<close>

lemma apply_insert_batch_keeps:
  assumes "apply_insert_batch pg st sql = (st', r)"
    and "wf_tables (tables st)" and "integrity (tables st)"
  shows "wf_tables (tables st') \<and> integrity (tables st') \<and>
    (case r of
       Ok n \<Rightarrow> (\<exists>batch. parse_batch (tables st) sql = Ok batch \<and> n = length batch \<and>
         st' = st\<lparr>tables := fold add_row batch (tables st)\<rparr>)
     | _ \<Rightarrow> st' = st)"
  using assms(1)
proof (cases rule: apply_insert_batch_cases)
  case refused
  with assms show ?thesis by (auto split: outcome.splits)
next
  case (applied batch ts)
  then have batch: "parse_batch (tables st) sql = Ok batch" "validate_batch_rows (tables st) [] batch = None"
    and ts: "ts = fold add_row batch (tables st)"
    by (simp_all add: check_batch_Ok store_rows_Ok)
  have wf: "\<forall>ir \<in> set batch. wf_insert_row (tables st) ir"
    using parse_batch_rows_wf [OF batch(1) assms(2)] by simp
  have in_range: "\<forall>ir \<in> set batch. ir_table ir < length (tables st)"
    using wf by (simp add: wf_insert_row_def)
  have "\<forall>i < length batch. row_admissible (fold add_row (take i batch) (tables st)) (batch ! i)"
    using batch(2) validate_batch_rows_None [of "[]" batch "tables st"] in_range by simp
  then have "integrity ts"
    unfolding ts by (rule integrity_fold [OF assms(3) in_range])
  moreover have "wf_tables ts"
    by (rule wf_store_rows [OF applied(2) assms(2) wf])
  ultimately show ?thesis
    using applied batch(1) ts by simp
qed

text \<open>
  C4: integrity is an invariant of \<open>apply_insert_batch\<close>.  From a well-formed schema whose
  rows satisfy NOT NULL, PRIMARY KEY, UNIQUE and foreign keys, every call leaves one; where
  it reports success it has added exactly the parsed rows, in order, at the end of their
  tables, and where it does not it has changed nothing.
\<close>

theorem apply_insert_batch_integrity:
  assumes "apply_insert_batch pg st sql = (st', r)"
    and "wf_tables (tables st)" and "integrity (tables st)"
  shows "wf_tables (tables st') \<and> integrity (tables st') \<and>
    (case r of
       Ok n \<Rightarrow> (\<exists>batch. parse_batch (tables st) sql = Ok batch \<and> n = length batch \<and>
         st' = st\<lparr>tables := fold add_row batch (tables st)\<rparr>)
     | _ \<Rightarrow> st' = st)"
  using assms by (rule apply_insert_batch_keeps)

text \<open>What is validated is applied, where it fits.\<close>

lemma validated_apply:
  assumes "validate_insert_batch pg (tables st) sql = Ok n" and "wf_tables (tables st)"
    and "parse_batch (tables st) sql = Ok batch"
  shows "n = length batch \<and> apply_insert_batch pg st sql =
    (if fits_storage (tables st) batch
     then (st\<lparr>tables := fold add_row batch (tables st)\<rparr>, Ok n)
     else (st, Fault RowStorageOverflow))"
proof -
  have check: "check_batch pg (tables st) sql = Ok batch" and n: "n = length batch"
    using assms(1,3) check_batch_Ok [of pg "tables st" sql]
    by (auto simp: validate_insert_batch_def obind_Ok_iff split: if_splits)
  have "\<forall>ir \<in> set batch. ir_table ir < length (tables st)"
    using parse_batch_rows_wf [OF assms(3,2)] by (simp add: wf_insert_row_def)
  moreover have "\<forall>ti < length (tables st). length (rows (tables st ! ti)) \<le> MAX_ROWS"
    using assms(2) wf_tables_nth by (fastforce simp: wf_table_def)
  ultimately show ?thesis
    using check n by (simp add: apply_insert_batch_def store_rows_eq)
qed

text \<open>
  What becomes of a batch that the child process has accepted.  The parent's
  \<open>apply_insert_batch\<close> on the same state never refuses it; it stores all rows if every table
  has room for its share of them, and otherwise writes past the end of \<open>Table.rows\<close>: the
  validator compares with the limit only the rows that were stored before the batch.
\<close>

theorem apply_after_validate:
  assumes "validate_insert_batch pg (tables st) sql = Ok n" and "wf_tables (tables st)"
    and "parse_batch (tables st) sql = Ok batch"
  shows "n = length batch \<and> apply_insert_batch pg st sql =
    (if fits_storage (tables st) batch
     then (st\<lparr>tables := fold add_row batch (tables st)\<rparr>, Ok n)
     else (st, Fault RowStorageOverflow))"
  using assms by (rule validated_apply)

section \<open>Witnesses and limits of the validator\<close>

text \<open>A table without constraints, filled up to one row below its capacity.\<close>

definition log_table :: "nat \<Rightarrow> Table" where
  "log_table n = \<lparr>tab_name = ''t'', columns =
     [\<lparr>col_name = ''nm'', col_type = ''TEXT'', primary_key = False, unique = False, not_null = False,
       ref_table = [], ref_column = []\<rparr>], rows = replicate n zero_row\<rparr>"

definition log_state :: "nat \<Rightarrow> SharedState" where
  "log_state n = state_init 0\<lparr>tables := [log_table n]\<rparr>"

definition two_logs :: insert_stmt where
  "two_logs = \<lparr>st_table = ''t'', st_columns = [''nm''], st_tuples = [[Some ''a''], [Some ''b'']]\<rparr>"

definition log_row :: "string \<Rightarrow> InsertRow" where
  "log_row v = \<lparr>ir_table = 0, ir_row = set_cell 0 v False (null_row (log_table 0))\<rparr>"

lemma log_find: "find_table [log_table n] ''t'' = Some 0" "find_column (log_table n) ''nm'' = Some 0"
  by (simp_all add: find_table_def find_column_def log_table_def)

lemma null_row_log: "null_row (log_table n) = null_row (log_table 0)"
  by (simp add: null_row_def log_table_def)

lemma good_two_logs: "good_stmt [log_table n] two_logs"
  unfolding good_stmt_def two_logs_def
  by (simp add: plain_names log_find kept_cell_def trim_inplace_def isspace_def
      insert_text_def tuple_text_def cell_text_def sql_quote_def escape_def)

lemma two_logs_tuples: "length (st_tuples two_logs) = 2" "st_tuples two_logs \<noteq> []"
  by (simp_all add: two_logs_def)

lemma stmt_rows_two_logs: "stmt_rows [log_table n] two_logs = [log_row ''a'', log_row ''b'']"
  by (simp add: stmt_rows_def log_find column_numbers_def two_logs_def log_row_def null_row_log [of n])

lemma parse_two_logs:
  "parse_batch [log_table n] (insert_text two_logs) = Ok [log_row ''a'', log_row ''b'']"
proof -
  note good = good_two_logs [of n]
  obtain prev where q: "quote_scan None False (insert_text two_logs) = Some (prev, False)"
    using balanced_insert_text [OF good] by (auto simp: balanced_def)
  have cl: "close_statement [log_table n] (insert_text two_logs) [] = Ok [log_row ''a'', log_row ''b'']"
    using close_insert_text [OF good, of "[]"] two_logs_tuples by (simp add: stmt_rows_two_logs)
  show ?thesis
    using parse_batch_loop_segment [OF q, of "[log_table n]" "[]" "[]" "[]"] cl
    by (simp add: parse_batch_def)
qed

lemma log_state_wf: "n \<le> MAX_ROWS \<Longrightarrow> wf_tables (tables (log_state n))"
  by (auto simp: log_state_def log_table_def wf_tables_def wf_table_def wf_column_def)

lemma log_state_tables: "tables (log_state n) = [log_table n]"
  by (simp add: log_state_def)

lemma validate_log_rows:
  "n < MAX_ROWS \<Longrightarrow> validate_batch_rows [log_table n] [] [log_row ''a'', log_row ''b''] = None"
  by (simp add: validate_row_def log_row_def log_table_def validate_column_def)

lemma validate_logs: "n < MAX_ROWS \<Longrightarrow>
   validate_insert_batch (\<lambda>_. None) (tables (log_state n)) (insert_text two_logs) = Ok 2"
  using validate_log_rows [of n]
  by (simp add: validate_insert_batch_def check_batch_def validate_sql_syntax_pg_query_def log_state_tables
      parse_two_logs)

theorem apply_after_validate_witness:
  "snd (apply_insert_batch (\<lambda>_. None) (log_state 5) (insert_text two_logs)) = Ok 2 \<and>
   snd (apply_insert_batch (\<lambda>_. None) (log_state 1023) (insert_text two_logs)) = Fault RowStorageOverflow"
proof -
  have parse: "parse_batch (tables (log_state n)) (insert_text two_logs) = Ok [log_row ''a'', log_row ''b'']" for n
    by (simp add: log_state_tables parse_two_logs)
  have "fits_storage (tables (log_state 5)) [log_row ''a'', log_row ''b'']"
    "\<not> fits_storage (tables (log_state 1023)) [log_row ''a'', log_row ''b'']"
    by (simp_all add: fits_storage_def rows_for_def log_row_def log_state_def log_table_def)
  then show ?thesis
    using apply_after_validate [OF validate_logs log_state_wf parse, of 5]
      apply_after_validate [OF validate_logs log_state_wf parse, of 1023]
    by simp
qed

theorem apply_insert_batch_integrity_witness:
  "integrity (tables (fst (apply_insert_batch (\<lambda>_. None) (log_state 0) (insert_text two_logs))))"
proof -
  have "integrity (tables (log_state 0))"
    by (simp add: integrity_def log_state_def log_table_def column_integrity_def column_values_def)
  then show ?thesis
    using apply_insert_batch_integrity [OF surjective_pairing, where pg = "\<lambda>_. None" and st = "log_state 0"
      and sql = "insert_text two_logs"]
      log_state_wf [of 0] by simp
qed

theorem validate_batch_rows_exact_witness:
  "validate_batch_rows [log_table 3] [] [log_row ''a'', log_row ''b''] = None"
  using validate_batch_rows_exact [of "[log_row ''a'', log_row ''b'']" "[log_table 3]"]
  by (auto simp: log_row_def log_table_def less_Suc_eq row_admissible_def cell_admissible_def
      add_row_def nth_Cons')

definition tree_table :: Table where
  "tree_table = \<lparr>tab_name = ''t'', columns =
     [\<lparr>col_name = ''id'', col_type = ''INT'', primary_key = True, unique = False, not_null = True,
       ref_table = [], ref_column = []\<rparr>,
      \<lparr>col_name = ''up'', col_type = ''INT'', primary_key = False, unique = False, not_null = True,
       ref_table = ''t'', ref_column = ''id''\<rparr>], rows = []\<rparr>"

definition root_row :: InsertRow where
  "root_row = \<lparr>ir_table = 0,
     ir_row = \<lparr>vals = ''1'' # ''1'' # replicate 30 [], is_null = replicate 32 False\<rparr>\<rparr>"

text \<open>
  A row that references itself, such as the root of a hierarchy, is refused: foreign
  keys are looked up only in the rows before it, although the stored rows together with
  this row would satisfy every constraint.
\<close>

theorem validate_self_reference:
  "integrity [tree_table] \<and> integrity (add_row root_row [tree_table]) \<and>
   validate_batch_rows [tree_table] [] [root_row] = Some (ForeignKeyMissing ''t'' ''up'' ''t'' ''id'' ''1'')"
  by (simp add: integrity_def column_integrity_def add_row_def root_row_def tree_table_def column_values_def
      references_value_def find_table_def find_column_def validate_row_def validate_column_def
      duplicate_value_def value_exists_def less_Suc_eq numeral_eq_Suc All_less_Suc2 upt_rec)

end
