(* ===== verification/Ddl.thy ===== *)
theory Ddl
  imports Schema
begin

text \<open>
  The generation of CREATE TABLE statements: \<open>generate_sql\<close> of \<open>src/model.c\<close>, as the
  sequence of \<open>appendf\<close> calls it makes on its buffer, against the text of the schema.
\<close>

section \<open>The generator\<close>

text \<open>The body of the loop over the columns; j is the index, \<open>column_count\<close> the bound.\<close>

definition append_column :: "nat \<Rightarrow> nat \<Rightarrow> string \<Rightarrow> nat \<times> Column \<Rightarrow> string" where
  "append_column out_len column_count out jc =
     (let (j, c) = jc;
          out = appendf out_len (''    '' @ col_name c @ '' '' @ col_type c) out;
          out = (if primary_key c then appendf out_len '' PRIMARY KEY'' out else out);
          out = (if not_null c \<and> \<not> primary_key c then appendf out_len '' NOT NULL'' out else out);
          out = (if unique c \<and> \<not> primary_key c then appendf out_len '' UNIQUE'' out else out);
          out = (if ref_table c \<noteq> []
                 then appendf out_len ('' REFERENCES '' @ ref_table c @ ''('' @ ref_column c @ '')'') out
                 else out)
      in appendf out_len ((if j + 1 = column_count then '''' else '','') @ [CHR 0x0A]) out)"

definition append_table :: "nat \<Rightarrow> string \<Rightarrow> Table \<Rightarrow> string" where
  "append_table out_len out t =
     (let out = appendf out_len (''CREATE TABLE '' @ tab_name t @ '' ('' @ [CHR 0x0A]) out;
          out = foldl (append_column out_len (length (columns t))) out
                  (zip [0..<length (columns t)] (columns t))
      in appendf out_len ('');'' @ [CHR 0x0A, CHR 0x0A]) out)"

definition generate_sql :: "SharedState \<Rightarrow> nat \<Rightarrow> string" where
  "generate_sql st out_len =
     (if tables st = [] then snprintf out_len (''-- No ER diagram loaded.'' @ [CHR 0x0A])
      else foldl (append_table out_len) [] (tables st))"

section \<open>The text of a schema\<close>

definition column_ddl :: "Column \<Rightarrow> string" where
  "column_ddl c = ''    '' @ col_name c @ '' '' @ col_type c @
     (if primary_key c then '' PRIMARY KEY''
      else (if not_null c then '' NOT NULL'' else []) @ (if unique c then '' UNIQUE'' else [])) @
     (if ref_table c = [] then []
      else '' REFERENCES '' @ ref_table c @ ''('' @ ref_column c @ '')'')"

definition table_ddl :: "Table \<Rightarrow> string" where
  "table_ddl t = ''CREATE TABLE '' @ tab_name t @ '' ('' @ [CHR 0x0A] @
     join ('','' @ [CHR 0x0A]) (map column_ddl (columns t)) @ [CHR 0x0A] @ '');'' @ [CHR 0x0A, CHR 0x0A]"

definition schema_ddl :: "Table list \<Rightarrow> string" where
  "schema_ddl ts =
     (if ts = [] then ''-- No ER diagram loaded.'' @ [CHR 0x0A] else concat (map table_ddl ts))"

section \<open>The generator writes that text\<close>

lemma append_column_eq:
  "length out < n \<Longrightarrow>
   append_column n k out (j, c) =
     appendf n (column_ddl c @ (if j + 1 = k then [] else '','') @ [CHR 0x0A]) out"
  by (simp add: append_column_def column_ddl_def Let_def appendf_append appendf_length)

text \<open>The columns from number j on: each with its comma, the last without one.\<close>

lemma append_columns_eq:
  "length out < n \<Longrightarrow> j + length cs = k \<Longrightarrow> cs \<noteq> [] \<Longrightarrow>
   foldl (append_column n k) out (zip [j..<k] cs) =
     appendf n (join ('','' @ [CHR 0x0A]) (map column_ddl cs) @ [CHR 0x0A]) out"
proof (induction cs arbitrary: j out)
  case (Cons c cs)
  then have j: "j < k" by simp
  show ?case
  proof (cases "cs = []")
    case True
    with Cons.prems j show ?thesis by (simp add: upt_conv_Cons append_column_eq)
  next
    case False
    with Cons.prems have "Suc j \<noteq> k" by (cases cs) auto
    with False Cons j show ?thesis
      by (simp add: upt_conv_Cons append_column_eq appendf_length appendf_append join_Cons)
  qed
qed simp

lemma append_table_eq:
  "length out < n \<Longrightarrow> columns t \<noteq> [] \<Longrightarrow> append_table n out t = appendf n (table_ddl t) out"
  by (simp add: append_table_def table_ddl_def Let_def appendf_length appendf_append append_columns_eq)

lemma append_tables_eq:
  "length out < n \<Longrightarrow> \<forall>t \<in> set ts. columns t \<noteq> [] \<Longrightarrow>
   foldl (append_table n) out ts = appendf n (concat (map table_ddl ts)) out"
proof (induction ts arbitrary: out)
  case Nil
  then show ?case by (simp add: appendf_fits)
next
  case (Cons t ts)
  then have "foldl (append_table n) out (t # ts) =
      appendf n (concat (map table_ddl ts)) (appendf n (table_ddl t) out)"
    by (simp add: append_table_eq appendf_length)
  with Cons.prems(1) show ?case by (simp add: appendf_append)
qed

lemma generate_sql_eq:
  assumes "wf_tables (tables st)" "0 < n"
  shows "generate_sql st n = take (n - 1) (schema_ddl (tables st))"
proof -
  have "\<forall>t \<in> set (tables st). columns t \<noteq> []"
    using assms(1) by (auto simp: wf_tables_def wf_table_def)
  with assms(2) show ?thesis
    by (auto simp: generate_sql_def schema_ddl_def snprintf_def append_tables_eq appendf_fits)
qed

text \<open>
  C23: for a well-formed schema the generator writes, into a buffer of any size, the
  CREATE TABLE text of the schema, cut to what fits: one statement per table in order, the
  columns separated by commas, PRIMARY KEY standing for NOT NULL and UNIQUE.
\<close>

theorem generate_sql_text:
  assumes "wf_tables (tables st)" and "0 < n"
  shows "generate_sql st n = take (n - 1) (schema_ddl (tables st))"
  using assms by (rule generate_sql_eq)

section \<open>How long the text can be\<close>

definition max_column_ddl :: nat where "max_column_ddl = 287"
definition max_table_ddl :: nat where "max_table_ddl = 9332"

lemma column_ddl_length: "wf_column c \<Longrightarrow> length (column_ddl c) \<le> max_column_ddl"
  by (auto simp: wf_column_def column_ddl_def max_column_ddl_def)

lemma length_join: "\<forall>x \<in> set xs. length x \<le> m \<Longrightarrow> length (join sep xs) \<le> length xs * (m + length sep)"
  by (induction sep xs rule: join.induct) fastforce+

lemma table_ddl_length:
  assumes "wf_table t"
  shows "length (table_ddl t) \<le> max_table_ddl"
proof -
  have "length (join ('','' @ [CHR 0x0A]) (map column_ddl (columns t))) \<le> length (columns t) * 289"
    using length_join [of "map column_ddl (columns t)" max_column_ddl "'','' @ [CHR 0x0A]"]
      assms column_ddl_length by (auto simp: wf_table_def max_column_ddl_def)
  with assms show ?thesis
    by (auto simp: table_ddl_def wf_table_def max_table_ddl_def)
qed

lemma tables_ddl_length:
  "\<forall>t \<in> set ts. wf_table t \<Longrightarrow> length (concat (map table_ddl ts)) \<le> length ts * max_table_ddl"
  by (induction ts) (auto dest: table_ddl_length)

definition SQL_BUFFER :: nat where [simp]: "SQL_BUFFER = 65536"

text \<open>What fits in the buffer is complete.\<close>

lemma generate_sql_fits:
  assumes "wf_tables (tables st)" and "length (tables st) \<le> 7"
  shows "generate_sql st SQL_BUFFER = schema_ddl (tables st)"
proof -
  have "length (schema_ddl (tables st)) < SQL_BUFFER"
    using assms tables_ddl_length [of "tables st"]
    by (auto simp: schema_ddl_def wf_tables_def max_table_ddl_def)
  then show ?thesis
    using generate_sql_eq [OF assms(1), of SQL_BUFFER] by simp
qed

text \<open>
  C24: the server's buffers hold 65536 bytes.  A well-formed schema of at most seven tables
  always fits: what the client receives is the complete text.
\<close>

theorem generate_sql_complete:
  assumes "wf_tables (tables st)" and "length (tables st) \<le> 7"
  shows "generate_sql st SQL_BUFFER = schema_ddl (tables st)"
  using assms by (rule generate_sql_fits)

section \<open>Witnesses, and a schema that is cut\<close>

text \<open>A table of 32 columns with the longest names and types, and n copies of it.\<close>

definition long_name :: string where "long_name = replicate 63 (CHR ''x'')"

definition wide_column :: Column where
  "wide_column = \<lparr>col_name = long_name, col_type = long_name, primary_key = False, unique = True,
     not_null = True, ref_table = long_name, ref_column = long_name\<rparr>"

definition wide_table :: Table where
  "wide_table = \<lparr>tab_name = long_name, columns = replicate 32 wide_column, rows = []\<rparr>"

definition wide_state :: "nat \<Rightarrow> SharedState" where
  "wide_state n = state_init 0\<lparr>tables := replicate n wide_table\<rparr>"

lemma wide_state_wf: "n \<le> MAX_TABLES \<Longrightarrow> wf_tables (tables (wide_state n))"
  by (auto simp: wide_state_def wide_table_def wide_column_def wf_tables_def wf_table_def wf_column_def long_name_def)

lemma length_join_replicate:
  "length (join sep (replicate (Suc k) x)) = Suc k * length x + k * length sep"
  by (induction k) (auto simp: join_Cons)

lemma wide_column_length: "length (column_ddl wide_column) = 287"
  by (simp add: wide_column_def column_ddl_def long_name_def)

lemma wide_table_length: "length (table_ddl wide_table) = 9330"
proof -
  have "length (join ('','' @ [CHR 0x0A]) (map column_ddl (columns wide_table))) = 32 * 287 + 31 * 2"
    using length_join_replicate [of "'','' @ [CHR 0x0A]" 31 "column_ddl wide_column"]
    by (simp add: wide_table_def wide_column_length del: replicate.simps)
  moreover have "length (tab_name wide_table) = 63"
    by (simp add: wide_table_def long_name_def)
  ultimately show ?thesis by (simp add: table_ddl_def)
qed

theorem generate_sql_text_witness: "length (generate_sql (wide_state 2) 500) = 499"
  using generate_sql_text [OF wide_state_wf, of 2 500]
  by (simp add: schema_ddl_def wide_state_def numeral_2_eq_2 wide_table_length)

theorem generate_sql_complete_witness:
  "length (generate_sql (wide_state 7) SQL_BUFFER) = 65310"
proof -
  have "length (concat (map table_ddl (replicate n wide_table))) = n * 9330" for n
    by (induction n) (simp_all add: wide_table_length)
  then show ?thesis
    using generate_sql_complete [OF wide_state_wf, of 7]
    by (simp add: schema_ddl_def wide_state_def)
qed

text \<open>
  Eight such tables do not fit, although every limit of \<open>model.h\<close> allows up to 32:
  the SQL the server sends ends in the middle of the schema, and nothing reports it.
\<close>

theorem generate_sql_truncated:
  "wf_tables (tables (wide_state 8)) \<and> length (generate_sql (wide_state 8) SQL_BUFFER) = 65535 \<and>
   length (schema_ddl (tables (wide_state 8))) = 74640"
proof -
  have "length (concat (map table_ddl (replicate n wide_table))) = n * 9330" for n
    by (induction n) (simp_all add: wide_table_length)
  then have len: "length (schema_ddl (tables (wide_state 8))) = 74640"
    by (simp add: schema_ddl_def wide_state_def)
  moreover have wf: "wf_tables (tables (wide_state 8))"
    by (rule wide_state_wf) simp
  ultimately show ?thesis
    using generate_sql_eq [OF wf, of SQL_BUFFER] by simp
qed

end
