(* ===== verification/Protocol.thy ===== *)
theory Protocol
  imports Prelude
begin

text \<open>
  The wire protocol of \<open>include/protocol.h\<close> and \<open>src/protocol.c\<close>: operation codes, the
  message header in network byte order, \<open>read_full\<close> and \<open>write_full\<close> over what the
  successive \<open>recv\<close> and \<open>write\<close> calls do, \<open>send_message\<close>, \<open>recv_message\<close>, and the
  handling of descriptors in \<open>connect_tcp\<close> and \<open>listen_tcp\<close>.

  A byte is a \<^typ>\<open>char\<close>; the 32-bit fields are words.
\<close>

section \<open>Constants\<close>

definition SQLCG_PORT :: "16 word" where "SQLCG_PORT = 18081"
definition SQLCG_ADMIN_PORT :: "16 word" where "SQLCG_ADMIN_PORT = 18082"
definition SQLCG_MAX_PAYLOAD :: nat where [simp]: "SQLCG_MAX_PAYLOAD = 1024 * 1024"
definition SQLCG_FILE_CHUNK :: nat where [simp]: "SQLCG_FILE_CHUNK = 64 * 1024"

definition OP_CONNECT :: "32 word" where [simp]: "OP_CONNECT = 0"
definition OP_BYE :: "32 word" where [simp]: "OP_BYE = 5"
definition OP_UPLOAD_BEGIN :: "32 word" where [simp]: "OP_UPLOAD_BEGIN = 10"
definition OP_UPLOAD_CHUNK :: "32 word" where [simp]: "OP_UPLOAD_CHUNK = 11"
definition OP_UPLOAD_END :: "32 word" where [simp]: "OP_UPLOAD_END = 12"
definition OP_DOWNLOAD_BEGIN :: "32 word" where [simp]: "OP_DOWNLOAD_BEGIN = 13"
definition OP_DOWNLOAD_CHUNK :: "32 word" where [simp]: "OP_DOWNLOAD_CHUNK = 14"
definition OP_DOWNLOAD_END :: "32 word" where [simp]: "OP_DOWNLOAD_END = 15"
definition OP_GENERATE_SQL :: "32 word" where [simp]: "OP_GENERATE_SQL = 20"
definition OP_DOWNLOAD_SQL :: "32 word" where [simp]: "OP_DOWNLOAD_SQL = 21"
definition OP_VALIDATE_INSERT :: "32 word" where [simp]: "OP_VALIDATE_INSERT = 30"
definition OP_JOB_STATUS :: "32 word" where [simp]: "OP_JOB_STATUS = 31"
definition OP_JOB_RESULT :: "32 word" where [simp]: "OP_JOB_RESULT = 32"
definition OP_OK :: "32 word" where [simp]: "OP_OK = 40"
definition OP_ERROR :: "32 word" where [simp]: "OP_ERROR = 41"
definition OP_ADMIN_LOGIN :: "32 word" where [simp]: "OP_ADMIN_LOGIN = 100"
definition OP_ADMIN_REPORT :: "32 word" where [simp]: "OP_ADMIN_REPORT = 101"
definition OP_ADMIN_DISCONNECT :: "32 word" where [simp]: "OP_ADMIN_DISCONNECT = 102"
definition OP_ADMIN_CANCEL :: "32 word" where [simp]: "OP_ADMIN_CANCEL = 103"
definition OP_ADMIN_BLOCK :: "32 word" where [simp]: "OP_ADMIN_BLOCK = 104"
definition OP_ADMIN_BYE :: "32 word" where [simp]: "OP_ADMIN_BYE = 105"

record MsgHeader =
  msg_size :: "32 word"
  mh_client_id :: "32 word"
  mh_op_id :: "32 word"
  flags :: "32 word"

section \<open>The header on the wire\<close>

text \<open>The bytes in memory of \<open>htonl(w)\<close>, and \<open>ntohl\<close> of four bytes in memory.\<close>

definition htonl :: "32 word \<Rightarrow> string" where
  "htonl w = map (\<lambda>k. char_of (unat w div 256 ^ k)) [3, 2, 1, 0]"

definition ntohl :: "string \<Rightarrow> 32 word" where
  "ntohl bs = word_of_nat (foldl (\<lambda>acc c. 256 * acc + of_char c) 0 bs)"

definition HEADER_SIZE :: nat where [simp]: "HEADER_SIZE = 16"

definition header_bytes :: "MsgHeader \<Rightarrow> string" where
  "header_bytes h = htonl (msg_size h) @ htonl (mh_client_id h) @ htonl (mh_op_id h) @ htonl (flags h)"

definition read_header :: "string \<Rightarrow> MsgHeader" where
  "read_header bs =
     \<lparr>msg_size = ntohl (take 4 bs), mh_client_id = ntohl (take 4 (drop 4 bs)),
      mh_op_id = ntohl (take 4 (drop 8 bs)), flags = ntohl (take 4 (drop 12 bs))\<rparr>"

lemma length_htonl [simp]: "length (htonl w) = 4"
  by (simp add: htonl_def)

text \<open>A number below 2 to the 32 from its four base-256 digits.\<close>

lemma four_digits:
  assumes "n < (2 :: nat) ^ 32"
  shows "256 * (256 * (256 * (n div 256 ^ 3 mod 256) + n div 256 ^ 2 mod 256) + n div 256 mod 256)
      + n mod 256 = n"
proof -
  have top: "n div 16777216 < 256" "n div 256 div 256 div 256 < 256" using assms by simp_all
  then have "256 * (256 * (256 * (n div 256 div 256 div 256 mod 256) + n div 256 div 256 mod 256)
      + n div 256 mod 256) + n mod 256 = n"
    by simp
  then show ?thesis
    using top(1) by (simp add: div_mult2_eq [symmetric])
qed

lemma ntohl_htonl [simp]: "ntohl (htonl w) = w"
proof -
  have "foldl (\<lambda>acc c. 256 * acc + of_char c) 0 (htonl w) = unat w"
    using four_digits [of "unat w"] unsigned_less [of w, where 'a = nat]
    by (simp add: htonl_def)
  then show ?thesis by (simp add: ntohl_def)
qed

lemma length_header_bytes [simp]: "length (header_bytes h) = HEADER_SIZE"
  by (simp add: header_bytes_def)

lemma read_header_bytes [simp]: "read_header (header_bytes h) = h"
  by (simp add: read_header_def header_bytes_def)

section \<open>Reading and writing in full\<close>

text \<open>
  What arrives at a socket, as the calls of \<open>recv\<close> see it: segments of bytes, calls
  interrupted by a signal, the orderly shutdown by the peer, an error.  A call that asks
  for k bytes gets at most the first k of the segment in front; the rest of the segment
  stays.  Where no event is left the call blocks.
\<close>

datatype recv_event = Segment string | Interrupted | Shutdown | Broken

datatype read_status = Complete string | PeerClosed | ReadError | Blocked

text \<open>\<open>read_full(fd, buf, len)\<close> with the bytes got so far: 1, 0 or -1, or it blocks.\<close>

fun read_full :: "nat \<Rightarrow> string \<Rightarrow> recv_event list \<Rightarrow> read_status \<times> recv_event list" where
  "read_full len got [] = (if len \<le> length got then (Complete got, []) else (Blocked, []))"
| "read_full len got (e # evs) =
     (if len \<le> length got then (Complete got, e # evs)
      else (case e of
          Segment bs \<Rightarrow>
            if length bs \<le> len - length got then read_full len (got @ bs) evs
            else (Complete (got @ take (len - length got) bs), Segment (drop (len - length got) bs) # evs)
        | Interrupted \<Rightarrow> read_full len got evs
        | Shutdown \<Rightarrow> (PeerClosed, e # evs)
        | Broken \<Rightarrow> (ReadError, evs)))"

text \<open>What the calls of \<open>write\<close> do: take at most k bytes, be interrupted, or fail.\<close>

datatype write_event = Accepts nat | WriteInterrupted | WriteFails

text \<open>
  \<open>write_full\<close>: whether it returns 0 (\<open>None\<close> where it blocks), the bytes that left, and
  the events left.
\<close>

fun write_full :: "string \<Rightarrow> write_event list \<Rightarrow> bool option \<times> string \<times> write_event list" where
  "write_full buf [] = (if buf = [] then (Some True, [], []) else (None, [], []))"
| "write_full buf (e # evs) =
     (if buf = [] then (Some True, [], e # evs)
      else (case e of
          Accepts k \<Rightarrow>
            if k = 0 then (Some False, [], evs)
            else (let (r, out, evs') = write_full (drop k buf) evs in (r, take k buf @ out, evs'))
        | WriteInterrupted \<Rightarrow> write_full buf evs
        | WriteFails \<Rightarrow> (Some False, [], evs)))"

text \<open>\<open>send_message\<close>; a NULL payload sends the header alone.\<close>

definition send_message ::
  "32 word \<Rightarrow> 32 word \<Rightarrow> string option \<Rightarrow> 32 word \<Rightarrow> write_event list \<Rightarrow>
   bool option \<times> string \<times> write_event list" where
  "send_message client_id op_id payload sz evs =
     (let h = \<lparr>msg_size = sz, mh_client_id = client_id, mh_op_id = op_id, flags = 0\<rparr> in
      case write_full (header_bytes h) evs of
        (Some True, out, evs') \<Rightarrow>
          (case payload of
             Some bs \<Rightarrow>
               if 0 < sz
               then (let (r, out', evs'') = write_full (take (unat sz) bs) evs' in (r, out @ out', evs''))
               else (Some True, out, evs')
           | None \<Rightarrow> (Some True, out, evs'))
      | (r, out, evs') \<Rightarrow> (r, out, evs'))"

datatype recv_result = Message MsgHeader "string option" | ConnectionClosed | RecvFailed | RecvBlocked

definition failed_read :: "read_status \<Rightarrow> recv_result" where
  "failed_read s =
     (case s of PeerClosed \<Rightarrow> ConnectionClosed | ReadError \<Rightarrow> RecvFailed | _ \<Rightarrow> RecvBlocked)"

text \<open>\<open>recv_message\<close>; \<open>malloc\<close> may refuse the memory of the payload, whose bytes stay unread then.\<close>

definition recv_message_alloc :: "bool \<Rightarrow> recv_event list \<Rightarrow> recv_result \<times> recv_event list" where
  "recv_message_alloc malloc evs =
     (case read_full HEADER_SIZE [] evs of
        (Complete bs, evs') \<Rightarrow>
          (let header = read_header bs in
           if unat (msg_size header) > SQLCG_MAX_PAYLOAD then (RecvFailed, evs')
           else if 0 < msg_size header then
             if \<not> malloc then (RecvFailed, evs')
             else (case read_full (unat (msg_size header)) [] evs' of
                (Complete payload, evs'') \<Rightarrow> (Message header (Some payload), evs'')
              | (s, evs'') \<Rightarrow> (failed_read s, evs''))
           else (Message header None, evs'))
      | (s, evs') \<Rightarrow> (failed_read s, evs'))"

definition recv_message :: "recv_event list \<Rightarrow> recv_result \<times> recv_event list" where
  "recv_message evs = recv_message_alloc True evs"

lemma recv_message_eq:
  "recv_message evs =
     (case read_full HEADER_SIZE [] evs of
        (Complete bs, evs') \<Rightarrow>
          (let header = read_header bs in
           if unat (msg_size header) > SQLCG_MAX_PAYLOAD then (RecvFailed, evs')
           else if 0 < msg_size header then
             (case read_full (unat (msg_size header)) [] evs' of
                (Complete payload, evs'') \<Rightarrow> (Message header (Some payload), evs'')
              | (s, evs'') \<Rightarrow> (failed_read s, evs''))
           else (Message header None, evs'))
      | (s, evs') \<Rightarrow> (failed_read s, evs'))"
  by (simp only: recv_message_def recv_message_alloc_def not_True_eq_False if_False)

text \<open>Without memory a message that has a payload is not delivered, whatever arrives.\<close>

lemma recv_message_no_memory:
  "recv_message_alloc False evs = (Message h p, evs') \<Longrightarrow> p = None \<and> recv_message evs = (Message h p, evs')"
  by (auto simp: recv_message_def recv_message_alloc_def failed_read_def Let_def
      split: prod.splits read_status.splits if_splits)

section \<open>Fragmentation does not matter\<close>

text \<open>The bytes that arrive before the stream ends, and a stream without failures.\<close>

fun stream_bytes :: "recv_event list \<Rightarrow> string" where
  "stream_bytes [] = []"
| "stream_bytes (Segment bs # evs) = bs @ stream_bytes evs"
| "stream_bytes (Interrupted # evs) = stream_bytes evs"
| "stream_bytes (Shutdown # evs) = []"
| "stream_bytes (Broken # evs) = []"

text \<open>
  Reading depends only on the bytes that arrive, not on how they are cut into segments or
  where signals fall: with enough bytes the read is complete, otherwise it is not.
\<close>

lemma read_full_enough:
  "length got \<le> len \<Longrightarrow> len - length got \<le> length (stream_bytes evs) \<Longrightarrow>
   \<exists>evs'. read_full len got evs = (Complete (got @ take (len - length got) (stream_bytes evs)), evs') \<and>
     stream_bytes evs' = drop (len - length got) (stream_bytes evs)"
proof (induction evs arbitrary: got)
  case Nil
  then show ?case by simp
next
  case (Cons e evs)
  show ?case
  proof (cases "len \<le> length got")
    case True
    then show ?thesis using Cons.prems by simp
  next
    case False
    show ?thesis
    proof (cases e)
      case (Segment bs)
      show ?thesis
      proof (cases "length bs \<le> len - length got")
        case True
        with Cons.IH [of "got @ bs"] Cons.prems Segment \<open>\<not> len \<le> length got\<close> show ?thesis by simp
      qed (use Segment \<open>\<not> len \<le> length got\<close> in simp)
    qed (use Cons \<open>\<not> len \<le> length got\<close> in auto)
  qed
qed

lemma read_full_short:
  "len - length got > length (stream_bytes evs) \<Longrightarrow>
   \<exists>s evs'. read_full len got evs = (s, evs') \<and> (\<forall>bs. s \<noteq> Complete bs)"
proof (induction evs arbitrary: got)
  case (Cons e evs)
  then show ?case by (cases e) auto
qed simp

lemma read_full_Complete_iff:
  "(\<exists>evs'. read_full len [] evs = (Complete bs, evs')) \<longleftrightarrow>
   len \<le> length (stream_bytes evs) \<and> bs = take len (stream_bytes evs)"
  using read_full_enough [of "[]" len evs] read_full_short [of evs len "[]"]
  by (cases "len \<le> length (stream_bytes evs)") fastforce+

section \<open>Writing delivers a prefix\<close>

lemma write_full_prefix:
  "write_full buf evs = (r, out, evs') \<Longrightarrow>
   \<exists>rest. buf = out @ rest \<and> (r = Some True \<longleftrightarrow> rest = [])"
proof (induction buf evs arbitrary: r out evs' rule: write_full.induct)
  case (1 buf)
  then show ?case by (auto split: if_splits)
next
  case (2 buf e evs)
  show ?case
  proof (cases "buf = []")
    case True
    with "2.prems" show ?thesis by simp
  next
    case nonempty: False
    show ?thesis
    proof (cases e)
      case (Accepts k)
      show ?thesis
      proof (cases "k = 0")
        case True
        with nonempty Accepts "2.prems" show ?thesis by auto
      next
        case False
        obtain r1 out1 evs1 where w: "write_full (drop k buf) evs = (r1, out1, evs1)"
          by (cases "write_full (drop k buf) evs")
        with nonempty Accepts False "2.prems" have "r = r1" "out = take k buf @ out1" by simp_all
        moreover obtain rest where "drop k buf = out1 @ rest" "r1 = Some True \<longleftrightarrow> rest = []"
          using "2.IH"(1) [OF nonempty Accepts False w] by blast
        ultimately show ?thesis by (metis append_assoc append_take_drop_id)
      qed
    next
      case WriteInterrupted
      with nonempty 2 show ?thesis by simp
    next
      case WriteFails
      with nonempty "2.prems" show ?thesis by auto
    qed
  qed
qed

text \<open>Short writes and signals are repaired: as many accepting calls as bytes are enough.\<close>

fun accepting :: "write_event list \<Rightarrow> nat" where
  "accepting [] = 0"
| "accepting (Accepts k # evs) = (if k = 0 then 0 else Suc (accepting evs))"
| "accepting (WriteInterrupted # evs) = accepting evs"
| "accepting (WriteFails # evs) = 0"

lemma write_full_succeeds:
  "length buf \<le> accepting evs \<Longrightarrow> \<exists>evs'. write_full buf evs = (Some True, buf, evs')"
proof (induction buf evs rule: write_full.induct)
  case (1 buf)
  then show ?case by simp
next
  case (2 buf e evs)
  show ?case
  proof (cases "buf = []")
    case nonempty: False
    show ?thesis
    proof (cases e)
      case (Accepts k)
      with 2(3) nonempty have "k \<noteq> 0" "length (drop k buf) \<le> accepting evs"
        by (auto split: if_splits)
      with "2.IH"(1) [OF nonempty Accepts] nonempty Accepts show ?thesis by auto
    next
      case WriteInterrupted
      with 2 nonempty show ?thesis by simp
    next
      case WriteFails
      with 2(3) nonempty show ?thesis by simp
    qed
  qed simp
qed

lemma write_full_accepting:
  "write_full buf evs = (Some True, out, evs') \<Longrightarrow> accepting evs \<le> accepting evs' + length buf"
proof (induction buf evs arbitrary: out rule: write_full.induct)
  case (1 buf)
  then show ?case by (simp split: if_splits)
next
  case (2 buf e evs)
  show ?case
  proof (cases "buf = []")
    case False
    show ?thesis
    proof (cases e)
      case (Accepts k)
      with False "2.prems" have k: "k \<noteq> 0" by (auto split: if_splits)
      then obtain out' where "write_full (drop k buf) evs = (Some True, out', evs')"
        using False Accepts "2.prems" by (auto split: prod.splits)
      with "2.IH"(1) [OF False Accepts k] have "accepting evs \<le> accepting evs' + length (drop k buf)" by blast
      with Accepts False k show ?thesis by (cases buf) auto
    qed (use False 2 in auto)
  qed (use "2.prems" in simp)
qed

section \<open>Messages\<close>

text \<open>A message with its bytes on the wire, and the messages the protocol allows.\<close>

type_synonym message = "MsgHeader \<times> string option"

definition payload_bytes :: "string option \<Rightarrow> string" where
  "payload_bytes p = (case p of None \<Rightarrow> [] | Some bs \<Rightarrow> bs)"

definition wire :: "message \<Rightarrow> string" where
  "wire m = header_bytes (fst m) @ payload_bytes (snd m)"

definition allowed :: "message \<Rightarrow> bool" where
  "allowed m \<longleftrightarrow> unat (msg_size (fst m)) = length (payload_bytes (snd m)) \<and>
     length (payload_bytes (snd m)) \<le> SQLCG_MAX_PAYLOAD \<and> snd m \<noteq> Some []"

lemma read_full_CompleteD:
  assumes "read_full len [] evs = (Complete bs, evs')"
  shows "stream_bytes evs = bs @ stream_bytes evs'" "length bs = len"
proof -
  have "len \<le> length (stream_bytes evs)"
    using assms read_full_Complete_iff [of len evs bs] by blast
  with read_full_enough [of "[]" len evs] assms
  show "stream_bytes evs = bs @ stream_bytes evs'" "length bs = len" by auto
qed

lemma read_full_prefix:
  assumes "stream_bytes evs = bs @ r" "length bs = len"
  obtains evs' where "read_full len [] evs = (Complete bs, evs')" "stream_bytes evs' = r"
  using read_full_enough [of "[]" len evs] assms by auto

lemma recv_message_wire:
  assumes "allowed m" "stream_bytes evs = wire m @ r"
  obtains evs' where "recv_message evs = (Message (fst m) (snd m), evs')" "stream_bytes evs' = r"
proof -
  obtain h p where m: "m = (h, p)" by fastforce
  obtain evs1 where r1: "read_full HEADER_SIZE [] evs = (Complete (header_bytes h), evs1)"
    and s1: "stream_bytes evs1 = payload_bytes p @ r"
    using read_full_prefix [of evs "header_bytes h" "payload_bytes p @ r" HEADER_SIZE] assms(2) m
    by (auto simp: wire_def)
  show thesis
  proof (cases p)
    case None
    with assms(1) m have "msg_size h = 0" by (simp add: allowed_def payload_bytes_def unat_eq_zero)
    with r1 s1 None m show thesis
      by (intro that [of evs1]) (simp_all add: recv_message_eq payload_bytes_def)
  next
    case (Some bs)
    with assms(1) m have sz: "unat (msg_size h) = length bs" "length bs \<le> SQLCG_MAX_PAYLOAD" "bs \<noteq> []"
      by (auto simp: allowed_def payload_bytes_def)
    then have "0 < msg_size h" by (auto simp: word_less_nat_alt)
    moreover obtain evs2 where "read_full (length bs) [] evs1 = (Complete bs, evs2)" "stream_bytes evs2 = r"
      using read_full_prefix [of evs1 bs r "length bs"] s1 Some by (auto simp: payload_bytes_def)
    ultimately show thesis
      using r1 sz Some m by (intro that [of evs2]) (simp_all add: recv_message_eq)
  qed
qed

lemma char_of_digit: "x mod 256 = of_char c \<Longrightarrow> char_of (x :: nat) = c"
  by (metis char_of_char char_of_mod_256)

lemma htonl_ntohl: "length bs = 4 \<Longrightarrow> htonl (ntohl bs) = bs"
proof -
  assume "length bs = 4"
  then obtain a b c d where bs: "bs = [a, b, c, d]"
    by (auto simp: numeral_eq_Suc length_Suc_conv)
  define A B C D where "A = (of_char a :: nat)" and "B = (of_char b :: nat)"
    and "C = (of_char c :: nat)" and "D = (of_char d :: nat)"
  have lt: "A < 256" "B < 256" "C < 256" "D < 256"
    by (simp_all add: A_def B_def C_def D_def)
  let ?n = "256 * (256 * (256 * A + B) + C) + D"
  have "unat (ntohl bs) = ?n"
  proof -
    have "foldl (\<lambda>acc c. 256 * acc + of_char c) 0 bs = ?n"
      by (simp add: bs A_def B_def C_def D_def)
    moreover have "?n < 2 ^ 32" using lt by simp
    ultimately show ?thesis
      by (simp only: ntohl_def unsigned_of_nat take_bit_nat_eq_self len_num1 len_bit0 mult_numeral_1_right)
         (simp add: take_bit_nat_eq_self)
  qed
  moreover have "?n div 256 ^ 3 mod 256 = A" "?n div 256 ^ 2 mod 256 = B" "?n div 256 ^ 1 mod 256 = C"
    "?n div 256 ^ 0 mod 256 = D"
  proof -
    have step: "(256 * m + d) div 256 = m" "(256 * m + d) mod 256 = d" if "d < 256" for m d :: nat
      using that by simp_all
    have pw: "n div 256 ^ 3 = n div 256 div 256 div 256" "n div 256 ^ 2 = n div 256 div 256" for n :: nat
      by (simp_all add: div_mult2_eq [symmetric])
    show "?n div 256 ^ 3 mod 256 = A" "?n div 256 ^ 2 mod 256 = B" "?n div 256 ^ 1 mod 256 = C"
      "?n div 256 ^ 0 mod 256 = D"
      using lt by (simp_all only: pw step power_one_right power_0 div_by_1 mod_less)
  qed
  ultimately show "htonl (ntohl bs) = bs"
    by (simp add: htonl_def bs char_of_digit A_def B_def C_def D_def)
qed

lemma header_bytes_read:
  assumes "length bs = HEADER_SIZE"
  shows "header_bytes (read_header bs) = bs"
proof -
  have "bs = take 4 bs @ take 4 (drop 4 bs) @ take 4 (drop 8 bs) @ take 4 (drop 12 bs)"
  proof -
    have split: "drop k bs = take 4 (drop k bs) @ drop (k + 4) bs" for k
      by (metis append_take_drop_id drop_drop add.commute)
    have "bs = take 4 bs @ drop 4 bs" by simp
    also have "drop 4 bs = take 4 (drop 4 bs) @ drop 8 bs" using split [of 4] by simp
    also have "drop 8 bs = take 4 (drop 8 bs) @ drop 12 bs" using split [of 8] by simp
    also have "drop 12 bs = take 4 (drop 12 bs)" using assms by simp
    finally show ?thesis .
  qed
  with assms show ?thesis
    by (simp add: header_bytes_def read_header_def htonl_ntohl)
qed

lemma recv_message_delivers:
  assumes "recv_message evs = (Message h p, evs')"
  shows "allowed (h, p)" "stream_bytes evs = wire (h, p) @ stream_bytes evs'"
proof -
  obtain bs evs1 where r1: "read_full HEADER_SIZE [] evs = (Complete bs, evs1)"
    and h: "h = read_header bs" "unat (msg_size h) \<le> SQLCG_MAX_PAYLOAD"
    and cont: "(if 0 < msg_size h then
        (case read_full (unat (msg_size h)) [] evs1 of
           (Complete payload, evs2) \<Rightarrow> (Message h (Some payload), evs2)
         | (s, evs2) \<Rightarrow> (failed_read s, evs2))
      else (Message h None, evs1)) = (Message h p, evs')"
    using assms
    by (auto simp: recv_message_eq failed_read_def Let_def split: prod.splits read_status.splits if_splits)
  note d1 = read_full_CompleteD [OF r1]
  have hb: "stream_bytes evs = header_bytes h @ stream_bytes evs1"
    using d1 h(1) header_bytes_read by simp
  show "allowed (h, p)" "stream_bytes evs = wire (h, p) @ stream_bytes evs'"
  proof -
    have "allowed (h, p) \<and> stream_bytes evs = wire (h, p) @ stream_bytes evs'"
    proof (cases "0 < msg_size h")
      case True
      with cont obtain pl where r2: "read_full (unat (msg_size h)) [] evs1 = (Complete pl, evs')"
        and p: "p = Some pl"
        by (auto simp: failed_read_def split: prod.splits read_status.splits)
      from True have "unat (msg_size h) \<noteq> 0" by (simp add: word_less_nat_alt)
      with read_full_CompleteD [OF r2] p h(2) hb show ?thesis
        by (auto simp: allowed_def wire_def payload_bytes_def)
    next
      case False
      then have "msg_size h = 0" by (simp add: word_less_nat_alt unat_eq_zero)
      with cont hb show ?thesis by (auto simp: allowed_def wire_def payload_bytes_def)
    qed
    then show "allowed (h, p)" "stream_bytes evs = wire (h, p) @ stream_bytes evs'" by simp_all
  qed
qed

text \<open>
  C17: \<open>recv_message\<close> delivers a message exactly when the bytes that arrive begin with its
  header and its whole payload, and the payload is within the limit: never a part of a
  message, and independently of segments and signals.
\<close>

theorem recv_message_exact:
  "(\<exists>evs'. recv_message evs = (Message h p, evs') \<and> stream_bytes evs' = rest) \<longleftrightarrow>
   allowed (h, p) \<and> stream_bytes evs = wire (h, p) @ rest"
proof
  assume "\<exists>evs'. recv_message evs = (Message h p, evs') \<and> stream_bytes evs' = rest"
  then show "allowed (h, p) \<and> stream_bytes evs = wire (h, p) @ rest"
    using recv_message_delivers by blast
next
  assume "allowed (h, p) \<and> stream_bytes evs = wire (h, p) @ rest"
  then obtain evs' where "recv_message evs = (Message h p, evs')" "stream_bytes evs' = rest"
    using recv_message_wire [of "(h, p)" evs rest] by auto
  then show "\<exists>evs'. recv_message evs = (Message h p, evs') \<and> stream_bytes evs' = rest" by blast
qed

section \<open>A connection as a channel of messages\<close>

text \<open>
  The interface that client and server rely on: receiving takes one message off the bytes
  that are pending.  A run of n receives is \<open>receive_n\<close>.
\<close>

fun receive_n :: "('s \<Rightarrow> ('m \<times> 's) option) \<Rightarrow> nat \<Rightarrow> 's \<Rightarrow> 'm list \<times> 's" where
  "receive_n recv 0 s = ([], s)"
| "receive_n recv (Suc n) s =
     (case recv s of
        None \<Rightarrow> ([], s)
      | Some (m, s') \<Rightarrow> (let (ms, s'') = receive_n recv n s' in (m # ms, s'')))"

locale message_channel =
  fixes recv :: "'s \<Rightarrow> ('m \<times> 's) option"
    and encode :: "'m \<Rightarrow> 'b list"
    and pending :: "'s \<Rightarrow> 'b list"
    and legal :: "'m \<Rightarrow> bool"
  assumes recv_legal: "legal m \<Longrightarrow> pending s = encode m @ r \<Longrightarrow> \<exists>s'. recv s = Some (m, s') \<and> pending s' = r"
    and recv_only: "recv s = Some (m, s') \<Longrightarrow> legal m \<and> pending s = encode m @ pending s'"
begin

lemma receive_all:
  "\<forall>m \<in> set ms. legal m \<Longrightarrow> pending s = concat (map encode ms) @ r \<Longrightarrow>
   \<exists>s'. receive_n recv (length ms) s = (ms, s') \<and> pending s' = r"
proof (induction ms arbitrary: s)
  case (Cons m ms)
  then obtain s1 where "recv s = Some (m, s1)" "pending s1 = concat (map encode ms) @ r"
    using recv_legal [of m s "concat (map encode ms) @ r"] by auto
  with Cons show ?case by fastforce
qed simp

lemma received_were_sent:
  "receive_n recv n s = (ms, s') \<Longrightarrow>
   length ms \<le> n \<and> (\<forall>m \<in> set ms. legal m) \<and> pending s = concat (map encode ms) @ pending s'"
proof (induction n arbitrary: s ms)
  case (Suc n)
  show ?case
  proof (cases "recv s")
    case None
    with Suc.prems show ?thesis by simp
  next
    case (Some a)
    obtain m s1 where r: "recv s = Some (m, s1)" using Some by (cases a) auto
    with Suc.prems obtain ms1 where n: "receive_n recv n s1 = (ms1, s')" and "ms = m # ms1"
      by (auto split: prod.splits)
    with Suc.IH [OF n] recv_only [OF r] show ?thesis by auto
  qed
qed simp

end

definition tcp_recv :: "recv_event list \<Rightarrow> (message \<times> recv_event list) option" where
  "tcp_recv evs =
     (case recv_message evs of (Message h p, evs') \<Rightarrow> Some ((h, p), evs') | _ \<Rightarrow> None)"

lemma tcp_recv_Some: "tcp_recv evs = Some (m, evs') \<longleftrightarrow> recv_message evs = (Message (fst m) (snd m), evs')"
  by (cases m) (auto simp: tcp_recv_def split: prod.splits recv_result.splits)

interpretation tcp: message_channel tcp_recv wire stream_bytes allowed
proof
  fix m s r
  assume "allowed m" "stream_bytes s = wire m @ r"
  then obtain s' where "recv_message s = (Message (fst m) (snd m), s')" "stream_bytes s' = r"
    by (rule recv_message_wire)
  then show "\<exists>s'. tcp_recv s = Some (m, s') \<and> stream_bytes s' = r" by (auto simp: tcp_recv_Some)
next
  fix s m s'
  assume "tcp_recv s = Some (m, s')"
  then show "allowed m \<and> stream_bytes s = wire m @ stream_bytes s'"
    using recv_message_delivers [of s "fst m" "snd m" s'] by (simp add: tcp_recv_Some)
qed

section \<open>What is sent is received\<close>

definition send_of :: "message \<Rightarrow> write_event list \<Rightarrow> bool option \<times> string \<times> write_event list" where
  "send_of m evs = send_message (mh_client_id (fst m)) (mh_op_id (fst m)) (snd m) (msg_size (fst m)) evs"

lemma write_full_True: "write_full buf evs = (Some True, out, evs') \<Longrightarrow> out = buf"
  by (drule write_full_prefix) auto

text \<open>A successful send has put exactly the message on the wire.\<close>

lemma send_of_True:
  assumes "send_of m evs = (Some True, out, evs')" "allowed m" "flags (fst m) = 0"
  shows "out = wire m"
proof -
  obtain h p where m: "m = (h, p)" by fastforce
  have h: "\<lparr>msg_size = msg_size h, mh_client_id = mh_client_id h, mh_op_id = mh_op_id h, flags = 0\<rparr> = h"
    using assms(3) m by (cases h) simp
  obtain r o1 evs1 where w: "write_full (header_bytes h) evs = (r, o1, evs1)"
    by (cases "write_full (header_bytes h) evs")
  have r: "r = Some True"
    using assms(1) m h w by (auto simp: send_of_def send_message_def split: option.splits bool.splits if_splits prod.splits)
  with w have o1: "o1 = header_bytes h" using write_full_True by blast
  show ?thesis
  proof (cases p)
    case None
    with assms(1) m h w r o1 show ?thesis
      by (simp add: send_of_def send_message_def wire_def payload_bytes_def)
  next
    case (Some bs)
    then have sz: "unat (msg_size h) = length bs" "0 < msg_size h"
      using assms(2) m by (auto simp: allowed_def payload_bytes_def word_less_nat_alt)
    obtain o2 where "write_full bs evs1 = (Some True, o2, evs')" "out = o1 @ o2"
      using assms(1) m h w r Some sz by (auto simp: send_of_def send_message_def split: prod.splits)
    with write_full_True o1 Some m show ?thesis
      by (auto simp: wire_def payload_bytes_def)
  qed
qed

text \<open>With enough accepting calls a send succeeds.\<close>

lemma send_completes:
  assumes "allowed m" and "flags (fst m) = 0" and "length (wire m) \<le> accepting evs"
  shows "\<exists>evs'. send_of m evs = (Some True, wire m, evs')"
proof -
  obtain h p where m: "m = (h, p)" by fastforce
  have "length (header_bytes h) \<le> accepting evs" using assms(3) m by (simp add: wire_def)
  then obtain evs1 where w: "write_full (header_bytes h) evs = (Some True, header_bytes h, evs1)"
    using write_full_succeeds by blast
  have used: "accepting evs \<le> accepting evs1 + length (header_bytes h)"
    using write_full_accepting [OF w] .
  have h: "\<lparr>msg_size = msg_size h, mh_client_id = mh_client_id h, mh_op_id = mh_op_id h, flags = 0\<rparr> = h"
    using assms(2) m by (cases h) simp
  show ?thesis
  proof (cases p)
    case None
    with m h w show ?thesis by (simp add: send_of_def send_message_def wire_def payload_bytes_def)
  next
    case (Some bs)
    then have sz: "unat (msg_size h) = length bs" "0 < msg_size h"
      using assms(1) m by (auto simp: allowed_def payload_bytes_def word_less_nat_alt)
    have "length bs \<le> accepting evs1"
      using used assms(3) m Some by (simp add: wire_def payload_bytes_def)
    then obtain evs2 where "write_full bs evs1 = (Some True, bs, evs2)"
      using write_full_succeeds by blast
    with m h w sz Some show ?thesis
      by (simp add: send_of_def send_message_def wire_def payload_bytes_def)
  qed
qed

text \<open>
  C11: messages that were sent successfully one after the other on a connection, through any
  short writes, arrive as the same messages in the same order, through any segmentation;
  what follows them is left for the next receive.
\<close>

theorem messages_round_trip:
  assumes "\<forall>m \<in> set ms. allowed m \<and> flags (fst m) = 0"
    and "list_all2 (\<lambda>m out. \<exists>evs evs'. send_of m evs = (Some True, out, evs')) ms outs"
    and "stream_bytes arriving = concat outs @ rest"
  shows "\<exists>arriving'. receive_n tcp_recv (length ms) arriving = (ms, arriving') \<and>
    stream_bytes arriving' = rest"
proof -
  have "outs = map wire ms"
    using assms(2,1) by (induction rule: list_all2_induct) (auto dest: send_of_True)
  with assms show ?thesis by (intro tcp.receive_all) simp_all
qed

text \<open>
  Sending completes although writes are short or interrupted: when the calls that take
  at least one byte are as many as the bytes of the message, before any failure, the send
  succeeds.
\<close>

theorem send_message_succeeds:
  assumes "allowed m" and "flags (fst m) = 0" and "length (wire m) \<le> accepting evs"
  shows "\<exists>evs'. send_of m evs = (Some True, wire m, evs')"
  using assms by (rule send_completes)

text \<open>A message, a peer that takes one byte at a time, and a stream cut in the header.\<close>

definition two_bytes :: message where
  "two_bytes = (\<lparr>msg_size = 2, mh_client_id = 1, mh_op_id = OP_JOB_STATUS, flags = 0\<rparr>, Some ''17'')"

definition slow_writes :: "write_event list" where
  "slow_writes = WriteInterrupted # replicate 18 (Accepts 1)"

definition cut_stream :: "recv_event list" where
  "cut_stream = [Segment (take 5 (wire two_bytes)), Interrupted, Segment (drop 5 (wire two_bytes)), Shutdown]"

lemma two_bytes_allowed: "allowed two_bytes" "flags (fst two_bytes) = 0" "length (wire two_bytes) = 18"
  by (simp_all add: two_bytes_def allowed_def payload_bytes_def wire_def)

lemma slow_writes_accepting: "accepting slow_writes = 18"
  by (simp add: slow_writes_def numeral_eq_Suc)

theorem messages_round_trip_witness:
  "fst (receive_n tcp_recv 1 cut_stream) = [two_bytes]"
proof -
  have sent: "list_all2 (\<lambda>m out. \<exists>evs evs'. send_of m evs = (Some True, out, evs')) [two_bytes] [wire two_bytes]"
    using send_completes [of two_bytes slow_writes] two_bytes_allowed slow_writes_accepting by auto
  have "stream_bytes cut_stream = concat [wire two_bytes] @ []"
    by (simp add: cut_stream_def)
  from messages_round_trip [OF _ sent this] two_bytes_allowed show ?thesis by auto
qed

theorem send_message_succeeds_witness: "fst (send_of two_bytes slow_writes) = Some True"
  using send_message_succeeds [of two_bytes slow_writes] two_bytes_allowed slow_writes_accepting by auto

section \<open>Opening connections\<close>

text \<open>
  What \<open>socket\<close> and \<open>connect\<close> do for one address that \<open>getaddrinfo\<close> returned; the
  result of \<open>connect_tcp\<close> is the descriptor or -1, with the descriptors it has closed.
  \<open>None\<close> stands for a failing \<open>getaddrinfo\<close>.
\<close>

datatype attempt = NoSocket | Unreachable int | Connected int

fun try_addresses :: "attempt list \<Rightarrow> int \<times> int list" where
  "try_addresses [] = (- 1, [])"
| "try_addresses (NoSocket # its) = try_addresses its"
| "try_addresses (Unreachable fd # its) = (let (r, closed) = try_addresses its in (r, fd # closed))"
| "try_addresses (Connected fd # its) = (fd, [])"

definition connect_tcp :: "attempt list option \<Rightarrow> int \<times> int list" where
  "connect_tcp res = (case res of None \<Rightarrow> (- 1, []) | Some its \<Rightarrow> try_addresses its)"

text \<open>What the calls of \<open>listen_tcp\<close> do; the result is the descriptor or -1, and the one closed.\<close>

record listen_calls =
  lc_socket :: int
  lc_setsockopt :: bool
  lc_bind :: bool
  lc_listen :: bool

definition listen_tcp :: "listen_calls \<Rightarrow> int \<times> int list" where
  "listen_tcp k =
     (let fd = lc_socket k in
      if fd < 0 then (- 1, [])
      else if \<not> lc_setsockopt k then (- 1, [fd])
      else if \<not> lc_bind k then (- 1, [fd])
      else if \<not> lc_listen k then (- 1, [fd])
      else (fd, []))"

fun opened :: "attempt \<Rightarrow> int list" where
  "opened NoSocket = []"
| "opened (Unreachable fd) = [fd]"
| "opened (Connected fd) = [fd]"

fun succeeded :: "attempt \<Rightarrow> bool" where
  "succeeded (Connected fd) = True"
| "succeeded _ = False"

text \<open>
  Every socket \<open>connect_tcp\<close> opens is closed again or returned: it tries the addresses in
  order up to the first that connects.
\<close>

lemma connect_tcp_no_leak:
  assumes "connect_tcp (Some its) = (r, closed)"
  shows "closed @ (if list_ex succeeded its then [r] else []) =
      concat (map opened (takeWhile (\<lambda>it. \<not> succeeded it) its @ take 1 (dropWhile (\<lambda>it. \<not> succeeded it) its)))"
    and "(list_ex succeeded its) \<or> r = - 1"
proof -
  have "try_addresses its = (r, closed) \<Longrightarrow>
     closed @ (if list_ex succeeded its then [r] else []) =
      concat (map opened (takeWhile (\<lambda>it. \<not> succeeded it) its @ take 1 (dropWhile (\<lambda>it. \<not> succeeded it) its))) \<and>
     ((list_ex succeeded its) \<or> r = - 1)"
    by (induction its arbitrary: closed rule: try_addresses.induct) (auto split: prod.splits)
  with assms show "closed @ (if list_ex succeeded its then [r] else []) =
      concat (map opened (takeWhile (\<lambda>it. \<not> succeeded it) its @ take 1 (dropWhile (\<lambda>it. \<not> succeeded it) its)))"
    "(list_ex succeeded its) \<or> r = - 1"
    by (simp_all add: connect_tcp_def)
qed

lemma listen_tcp_no_leak:
  "listen_tcp k = (r, closed) \<Longrightarrow> 0 \<le> lc_socket k \<Longrightarrow>
   (r = lc_socket k \<and> closed = []) \<or> (r = - 1 \<and> closed = [lc_socket k])"
  by (auto simp: listen_tcp_def Let_def split: if_splits)

end
