(* ===== verification/Jobs.thy ===== *)
theory Jobs
  imports Schema Protocol
begin

text \<open>
  The bookkeeping of \<open>src/server.c\<close>: the circular command history (\<open>history_add\<close>) and the
  circular table of processing jobs (\<open>is_processing_op\<close>, \<open>job_find\<close>, \<open>job_create\<close>,
  \<open>job_update\<close>, \<open>parse_job_id_payload\<close>, \<open>respond_job_info\<close>).  The clock is an argument.
  Client ids are the 32-bit words of the protocol, stored as C \<open>int\<close> values with \<open>sint\<close>.
\<close>

section \<open>Circular buffers\<close>

text \<open>
  Both rings have this contract: entry number k is written to slot k mod size and the
  numbers go up by one, so an entry is there until size more have been written.
\<close>

locale ring =
  fixes slots :: "'s \<Rightarrow> 'e list"
    and put :: "'e \<Rightarrow> 's \<Rightarrow> 's"
    and written :: "'s \<Rightarrow> nat"
    and width :: nat
  assumes width_pos: "0 < width"
    and slots_put: "length (slots s) = width \<Longrightarrow> slots (put e s) = (slots s)[written s mod width := e]"
    and written_put: "written (put e s) = Suc (written s)"
begin

text \<open>The ring holds the log: its last \<open>width\<close> entries are in their slots.\<close>

definition holds :: "'s \<Rightarrow> 'e list \<Rightarrow> bool" where
  "holds s log \<longleftrightarrow> length (slots s) = width \<and> written s = length log \<and>
     (\<forall>k < length log. length log - width \<le> k \<longrightarrow> slots s ! (k mod width) = log ! k)"

lemma holds_put:
  assumes "holds s log"
  shows "holds (put e s) (log @ [e])"
proof -
  let ?n = "length log"
  have len: "length (slots s) = width" and n: "written s = ?n"
    using assms by (simp_all add: holds_def)
  have "slots (put e s) ! (k mod width) = (log @ [e]) ! k"
    if "k < Suc ?n" "Suc ?n - width \<le> k" for k
  proof (cases "k = ?n")
    case True
    with len n width_pos show ?thesis by (simp add: slots_put)
  next
    case False
    then have "k < ?n" "?n - k < width" using that width_pos by linarith+
    moreover from this have "k mod width \<noteq> ?n mod width"
      by (metis add_diff_inverse_nat mod_less less_imp_le_nat less_not_refl mod_eq_dvd_iff_nat
          nat_dvd_not_less not_less zero_less_diff)
    ultimately show ?thesis
      using assms len n that by (auto simp: holds_def slots_put nth_append)
  qed
  with len n show ?thesis by (auto simp: holds_def slots_put written_put)
qed

text \<open>Reading the numbers from \<open>length log - width\<close> on gives the end of the log.\<close>

lemma holds_recent:
  assumes "holds s log"
  shows "map (\<lambda>k. slots s ! (k mod width)) [length log - width..<length log] = drop (length log - width) log"
  using assms by (auto simp: holds_def intro!: nth_equalityI)

end

section \<open>The command history\<close>

definition history_add :: "string \<Rightarrow> SharedState \<Rightarrow> SharedState" where
  "history_add line st =
     st\<lparr>history := (history st)[nat (history_count st mod int MAX_HISTORY) := snprintf MAX_COMMAND line],
        history_count := history_count st + 1\<rparr>"

text \<open>Seen as a ring: every line is cut to what its slot holds.\<close>

definition history_put :: "string \<Rightarrow> string list \<times> nat \<Rightarrow> string list \<times> nat" where
  "history_put line h = (case h of (hs, n) \<Rightarrow> (hs[n mod MAX_HISTORY := line], Suc n))"

interpretation history_ring: ring fst history_put snd MAX_HISTORY
  by unfold_locales (auto simp: history_put_def split: prod.splits)

lemmas history_holds = history_ring.holds_def [unfolded MAX_HISTORY_def]

definition history_view :: "SharedState \<Rightarrow> string list \<times> nat" where
  "history_view st = (history st, nat (history_count st))"

lemma history_add_view:
  "0 \<le> history_count st \<Longrightarrow>
   history_view (history_add line st) = history_put (snprintf MAX_COMMAND line) (history_view st)"
  by (simp add: history_view_def history_add_def history_put_def nat_mod_distrib nat_add_distrib)

definition history_log :: "SharedState \<Rightarrow> string list \<Rightarrow> bool" where
  "history_log st log \<longleftrightarrow> 0 \<le> history_count st \<and> history_ring.holds (history_view st) log"

lemma history_log_init: "history_log (state_init now) []"
  unfolding history_log_def history_ring.holds_def by (simp add: history_view_def state_init_def)

lemma history_log_add:
  "history_log st log \<Longrightarrow> history_log (history_add line st) (log @ [snprintf MAX_COMMAND line])"
  using history_ring.holds_put [of "history_view st" log "snprintf MAX_COMMAND line"]
  by (auto simp: history_log_def history_add_view) (simp add: history_add_def)

lemma history_log_fold:
  "history_log st log \<Longrightarrow>
   history_log (fold history_add lines st) (log @ map (snprintf MAX_COMMAND) lines)"
proof (induction lines arbitrary: st log)
  case (Cons line lines)
  from Cons.IH [OF history_log_add [OF Cons.prems]] show ?case by simp
qed simp

text \<open>What the report on the history reads.\<close>

definition recent_history :: "SharedState \<Rightarrow> string list" where
  "recent_history st =
     (let start = (if int MAX_HISTORY < history_count st then history_count st - int MAX_HISTORY else 0)
      in map (\<lambda>i. history st ! nat (i mod int MAX_HISTORY)) [start..history_count st - 1])"

lemma recent_history_log:
  assumes "history_log st log"
  shows "recent_history st = drop (length log - MAX_HISTORY) log"
proof -
  have n: "history_count st = int (length log)"
    using assms by (auto simp: history_log_def history_holds history_view_def)
  have "[int a..int b - 1] = map int [a..<b]" for a b
    by (rule nth_equalityI) (auto simp: nth_upto)
  moreover have "(if int MAX_HISTORY < history_count st then history_count st - int MAX_HISTORY else 0)
      = int (length log - MAX_HISTORY)"
    by (simp add: n)
  ultimately have "recent_history st =
      map (\<lambda>k. history st ! (k mod MAX_HISTORY)) [length log - MAX_HISTORY..<length log]"
    by (simp only: recent_history_def Let_def n) (simp add: comp_def nat_mod_distrib)
  also have "\<dots> = drop (length log - MAX_HISTORY) log"
    using history_ring.holds_recent [of "history_view st" log] assms
    by (simp add: history_log_def history_view_def)
  finally show ?thesis .
qed

text \<open>
  After any sequence of \<open>history_add\<close> calls from the initial state the report shows
  exactly the last \<open>MAX_HISTORY\<close> lines in their order, each cut to its slot.
\<close>

lemma history_shows_last:
  "recent_history (fold history_add lines (state_init now)) =
   drop (length lines - MAX_HISTORY) (map (snprintf MAX_COMMAND) lines)"
  using recent_history_log [OF history_log_fold [OF history_log_init [of now], of lines]] by simp

section \<open>Operations on jobs\<close>

definition is_processing_op :: "32 word \<Rightarrow> bool" where
  "is_processing_op op_id \<longleftrightarrow>
     op_id = OP_UPLOAD_END \<or> op_id = OP_GENERATE_SQL \<or> op_id = OP_DOWNLOAD_SQL \<or> op_id = OP_VALIDATE_INSERT"

text \<open>The index of the slot with the job id, \<open>None\<close> for the NULL pointer.\<close>

definition job_find :: "SharedState \<Rightarrow> int \<Rightarrow> nat option" where
  "job_find st job_id = first_index (\<lambda>job. ji_job_id job = job_id) (jobs st)"

definition new_job :: "int \<Rightarrow> int \<Rightarrow> 32 word \<Rightarrow> 32 word \<Rightarrow> JobInfo" where
  "new_job now job_id client_id op_id =
     zero_job\<lparr>ji_job_id := job_id, ji_client_id := sint client_id, ji_op_id := sint op_id,
       ji_status := QUEUED, ji_result := snprintf MAX_JOB_RESULT ''queued'', ji_queued_at := now\<rparr>"

definition job_create :: "int \<Rightarrow> 32 word \<Rightarrow> 32 word \<Rightarrow> SharedState \<Rightarrow> SharedState \<times> int" where
  "job_create now client_id op_id st =
     (let job_id = next_job_id st;
          slot = nat (job_id mod int MAX_JOBS);
          st = st\<lparr>next_job_id := job_id + 1, jobs := (jobs st)[slot := new_job now job_id client_id op_id]\<rparr>;
          st = (if unat client_id < MAX_CLIENTS
                then st\<lparr>last_job_by_client := (last_job_by_client st)[unat client_id := job_id]\<rparr> else st)
      in (st, job_id))"

definition updated_job :: "int \<Rightarrow> job_status \<Rightarrow> string \<Rightarrow> JobInfo \<Rightarrow> JobInfo" where
  "updated_job now status result job =
     (let job = job\<lparr>ji_status := status, ji_result := snprintf MAX_JOB_RESULT result\<rparr> in
      if status = RUNNING then job\<lparr>ji_started_at := now\<rparr>
      else if status = DONE \<or> status = ERROR then job\<lparr>ji_finished_at := now\<rparr>
      else job)"

definition job_update :: "int \<Rightarrow> int \<Rightarrow> job_status \<Rightarrow> string \<Rightarrow> SharedState \<Rightarrow> SharedState" where
  "job_update now job_id status result st =
     (case job_find st job_id of
        None \<Rightarrow> st
      | Some i \<Rightarrow> st\<lparr>jobs := (jobs st)[i := updated_job now status result (jobs st ! i)]\<rparr>)"

definition parse_job_id_payload :: "SharedState \<Rightarrow> 32 word \<Rightarrow> string option \<Rightarrow> int" where
  "parse_job_id_payload st client_id payload =
     (let s = (case payload of None \<Rightarrow> [] | Some bs \<Rightarrow> cstr bs) in
      if s = [] \<or> s = ''last''
      then (if unat client_id < MAX_CLIENTS then last_job_by_client st ! unat client_id else 0)
      else (case strtol s of
          None \<Rightarrow> - 1
        | Some (parsed, end, erange) \<Rightarrow>
            if erange \<or> end \<noteq> [] \<or> parsed \<le> 0 \<or> 1000000000 < parsed then - 1 else parsed))"

definition job_status_text :: "JobInfo \<Rightarrow> string" where
  "job_status_text job =
     ''job='' @ sdec (ji_job_id job) @ '' status='' @ status_text (ji_status job) @ '' op='' @ sdec (ji_op_id job) @
     '' queued='' @ sdec (ji_queued_at job) @ '' started='' @ sdec (ji_started_at job) @
     '' finished='' @ sdec (ji_finished_at job)"

definition job_result_text :: "JobInfo \<Rightarrow> string" where
  "job_result_text job =
     ''job='' @ sdec (ji_job_id job) @ '' status='' @ status_text (ji_status job) @ [CHR 0x0A] @ ji_result job"

text \<open>The operation code and the text of the response.\<close>

definition respond_job_info :: "SharedState \<Rightarrow> 32 word \<Rightarrow> 32 word \<Rightarrow> string option \<Rightarrow> 32 word \<times> string" where
  "respond_job_info st client_id op_id payload =
     (let job_id = parse_job_id_payload st client_id payload in
      if job_id \<le> 0 then (OP_ERROR, ''invalid or missing job id'')
      else (case job_find st job_id of
          None \<Rightarrow> (OP_ERROR, ''job not found'')
        | Some i \<Rightarrow>
            let job = jobs st ! i in
            if ji_client_id job \<noteq> sint client_id then (OP_ERROR, ''job not found'')
            else (OP_OK, snprintf 4096
                   (if op_id = OP_JOB_STATUS then job_status_text job else job_result_text job))))"

section \<open>The ring of jobs\<close>

definition id_put :: "int \<Rightarrow> int list \<times> nat \<Rightarrow> int list \<times> nat" where
  "id_put j h = (case h of (js, n) \<Rightarrow> (js[n mod MAX_JOBS := j], Suc n))"

interpretation job_ring: ring fst id_put snd MAX_JOBS
  by unfold_locales (auto simp: id_put_def split: prod.splits)

text \<open>
  The invariant of the job table: the ring of the ids holds 0, 1, 2, ... up to the next id,
  slots not yet used have the id 0, and there is one last id per trackable client.
\<close>

definition id_view :: "SharedState \<Rightarrow> int list \<times> nat" where
  "id_view st = (map ji_job_id (jobs st), nat (next_job_id st))"

definition jobs_ok :: "SharedState \<Rightarrow> bool" where
  "jobs_ok st \<longleftrightarrow> 1 \<le> next_job_id st \<and> job_ring.holds (id_view st) (map int [0..<nat (next_job_id st)]) \<and>
     (\<forall>k. next_job_id st \<le> int k \<and> k < MAX_JOBS \<longrightarrow> ji_job_id (jobs st ! k) = 0) \<and>
     length (last_job_by_client st) = MAX_CLIENTS"

lemma jobs_ok_iff:
  "jobs_ok st \<longleftrightarrow> 1 \<le> next_job_id st \<and> length (jobs st) = MAX_JOBS \<and>
     (\<forall>k < nat (next_job_id st). nat (next_job_id st) - MAX_JOBS \<le> k \<longrightarrow> ji_job_id (jobs st ! (k mod MAX_JOBS)) = int k) \<and>
     (\<forall>k. next_job_id st \<le> int k \<and> k < MAX_JOBS \<longrightarrow> ji_job_id (jobs st ! k) = 0) \<and>
     length (last_job_by_client st) = MAX_CLIENTS"
proof -
  have "job_ring.holds (id_view st) (map int [0..<nat (next_job_id st)]) \<longleftrightarrow>
      length (jobs st) = MAX_JOBS \<and>
      (\<forall>k < nat (next_job_id st). nat (next_job_id st) - MAX_JOBS \<le> k \<longrightarrow>
         ji_job_id (jobs st ! (k mod MAX_JOBS)) = int k)"
    unfolding job_ring.holds_def id_view_def by (auto simp: nth_append)
  then show ?thesis by (simp only: jobs_ok_def) blast
qed

lemma jobs_ok_init: "jobs_ok (state_init now)"
  by (simp add: jobs_ok_iff state_init_def zero_job_def)

lemma jobs_ok_history [simp]: "jobs_ok (history_add line st) = jobs_ok st"
  by (simp add: jobs_ok_iff history_add_def)

lemma id_view_create:
  "1 \<le> next_job_id st \<Longrightarrow>
   id_view (fst (job_create now c opn st)) = id_put (next_job_id st) (id_view st)"
  by (simp add: id_view_def id_put_def job_create_def new_job_def Let_def map_update nat_mod_distrib nat_add_distrib)

lemma jobs_ok_create:
  assumes "jobs_ok st"
  shows "jobs_ok (fst (job_create now c opn st))"
proof -
  let ?n = "nat (next_job_id st)"
  have n: "1 \<le> next_job_id st" and h: "job_ring.holds (id_view st) (map int [0..<?n])"
    using assms by (simp_all add: jobs_ok_def)
  have "job_ring.holds (id_view (fst (job_create now c opn st))) (map int [0..<nat (next_job_id st + 1)])"
    using job_ring.holds_put [OF h, of "next_job_id st"] id_view_create [OF n, of now c opn] n
    by (simp add: nat_add_distrib)
  moreover have "next_job_id (fst (job_create now c opn st)) = next_job_id st + 1"
    by (simp add: job_create_def Let_def)
  moreover have "\<forall>k. next_job_id st + 1 \<le> int k \<and> k < MAX_JOBS \<longrightarrow>
      ji_job_id (jobs (fst (job_create now c opn st)) ! k) = 0"
  proof (intro allI impI)
    fix k assume k: "next_job_id st + 1 \<le> int k \<and> k < MAX_JOBS"
    then have "nat (next_job_id st mod int MAX_JOBS) \<noteq> k" using n by auto
    with k assms show "ji_job_id (jobs (fst (job_create now c opn st)) ! k) = 0"
      by (auto simp: job_create_def Let_def jobs_ok_def)
  qed
  moreover have "length (last_job_by_client (fst (job_create now c opn st))) = MAX_CLIENTS"
    using assms by (simp add: job_create_def Let_def jobs_ok_def)
  ultimately show ?thesis using n by (simp add: jobs_ok_def)
qed

section \<open>Which jobs can be found\<close>

lemma job_slot_id:
  assumes "jobs_ok st" "i < MAX_JOBS" "0 < j"
  shows "ji_job_id (jobs st ! i) = j \<longleftrightarrow>
    i = nat (j mod int MAX_JOBS) \<and> j < next_job_id st \<and> next_job_id st \<le> j + int MAX_JOBS"
proof -
  let ?n = "nat (next_job_id st)"
  have n: "1 \<le> next_job_id st"
    and recent: "\<And>k. k < ?n \<Longrightarrow> ?n - MAX_JOBS \<le> k \<Longrightarrow> ji_job_id (jobs st ! (k mod MAX_JOBS)) = int k"
    and unused: "\<And>k. next_job_id st \<le> int k \<Longrightarrow> k < MAX_JOBS \<Longrightarrow> ji_job_id (jobs st ! k) = 0"
    using assms(1) by (simp_all add: jobs_ok_iff)
  show ?thesis
  proof (cases "next_job_id st \<le> int i")
    case True
    with unused [of i] assms(2,3) n show ?thesis by auto
  next
    case False
    define k where "k = (?n - 1) - (?n - 1 - i) mod MAX_JOBS"
    have i: "i \<le> ?n - 1" using False n by linarith
    have "k mod MAX_JOBS = i" "k < ?n" "?n - MAX_JOBS \<le> k"
    proof -
      have "(?n - 1 - i) mod MAX_JOBS < MAX_JOBS" "(?n - 1 - i) mod MAX_JOBS \<le> ?n - 1 - i" by simp_all
      then show "k < ?n" "?n - MAX_JOBS \<le> k" using n unfolding k_def by linarith+
      have "k = i + (?n - 1 - i) div MAX_JOBS * MAX_JOBS"
        using i div_mult_mod_eq [of "?n - 1 - i" MAX_JOBS] unfolding k_def by linarith
      then show "k mod MAX_JOBS = i" using assms(2) by simp
    qed
    then have id: "ji_job_id (jobs st ! i) = int k" using recent [of k] by simp
    show ?thesis
    proof
      assume "ji_job_id (jobs st ! i) = j"
      with id have "j = int k" by simp
      with \<open>k mod MAX_JOBS = i\<close> \<open>k < ?n\<close> \<open>?n - MAX_JOBS \<le> k\<close>
      show "i = nat (j mod int MAX_JOBS) \<and> j < next_job_id st \<and> next_job_id st \<le> j + int MAX_JOBS"
        by (simp add: nat_mod_distrib) linarith
    next
      assume j: "i = nat (j mod int MAX_JOBS) \<and> j < next_job_id st \<and> next_job_id st \<le> j + int MAX_JOBS"
      then have "ji_job_id (jobs st ! (nat j mod MAX_JOBS)) = int (nat j)"
        using assms(3) by (intro recent) auto
      with j assms(3) show "ji_job_id (jobs st ! i) = j" by (simp add: nat_mod_distrib)
    qed
  qed
qed

lemma job_find_eq:
  assumes "jobs_ok st" "0 < j"
  shows "job_find st j =
    (if j < next_job_id st \<and> next_job_id st \<le> j + int MAX_JOBS then Some (nat (j mod int MAX_JOBS)) else None)"
proof -
  have len: "length (jobs st) = MAX_JOBS" using assms(1) by (simp add: jobs_ok_iff)
  have slot: "nat (j mod int MAX_JOBS) < MAX_JOBS" by (simp add: nat_less_iff)
  show ?thesis
  proof (cases "j < next_job_id st \<and> next_job_id st \<le> j + int MAX_JOBS")
    case True
    with job_slot_id [OF assms(1) _ assms(2)] slot len show ?thesis
      by (auto simp: job_find_def first_index_Some_iff)
  next
    case False
    then have "ji_job_id (jobs st ! i) \<noteq> j" if "i < MAX_JOBS" for i
      using job_slot_id [OF assms(1) that assms(2)] by blast
    then have "\<forall>job \<in> set (jobs st). ji_job_id job \<noteq> j"
      using len by (metis in_set_conv_nth)
    then have "job_find st j = None"
      by (simp add: job_find_def first_index_None_iff)
    with False show ?thesis by simp
  qed
qed

text \<open>
  A job id is found exactly as long as fewer than \<open>MAX_JOBS\<close> jobs have been created
  after it, and always in the slot given by its number.
\<close>

theorem job_find_recent:
  assumes "jobs_ok st" and "0 < j"
  shows "job_find st j =
    (if j < next_job_id st \<and> next_job_id st \<le> j + int MAX_JOBS then Some (nat (j mod int MAX_JOBS)) else None)"
  using assms by (rule job_find_eq)

lemma job_find_SomeD:
  "job_find st j = Some i \<Longrightarrow> i < length (jobs st)" "job_find st j = Some i \<Longrightarrow> ji_job_id (jobs st ! i) = j"
  by (simp_all add: job_find_def first_index_Some_iff)

lemma updated_job_keeps [simp]:
  "ji_job_id (updated_job now s r job) = ji_job_id job"
  "ji_client_id (updated_job now s r job) = ji_client_id job"
  "ji_op_id (updated_job now s r job) = ji_op_id job"
  "ji_queued_at (updated_job now s r job) = ji_queued_at job"
  by (simp_all add: updated_job_def Let_def)

lemma update_nth:
  "jobs (job_update now j s r st) ! i =
     (if job_find st j = Some i then updated_job now s r (jobs st ! i) else jobs st ! i)"
  using job_find_SomeD(1) [of st j]
  by (cases "job_find st j") (auto simp: job_update_def)

lemma update_other_fields [simp]:
  "next_job_id (job_update now j s r st) = next_job_id st"
  "last_job_by_client (job_update now j s r st) = last_job_by_client st"
  "length (jobs (job_update now j s r st)) = length (jobs st)"
  by (simp_all add: job_update_def split: option.splits)

lemma jobs_ok_update [simp]:
  assumes "jobs_ok st"
  shows "jobs_ok (job_update now j s r st)"
proof -
  have "ji_job_id (jobs (job_update now j s r st) ! k) = ji_job_id (jobs st ! k)" for k
    by (simp add: update_nth)
  with assms show ?thesis by (simp add: jobs_ok_iff)
qed

section \<open>A job from its creation on\<close>

text \<open>The operations on the table as the interface thread and the worker issue them.\<close>

datatype job_op = Create int "32 word" "32 word" | Update int int job_status string

fun apply_job_op :: "job_op \<Rightarrow> SharedState \<Rightarrow> SharedState" where
  "apply_job_op (Create now c opn) st = fst (job_create now c opn st)"
| "apply_job_op (Update now j s r) st = job_update now j s r st"

fun creations :: "job_op list \<Rightarrow> nat" where
  "creations [] = 0"
| "creations (Create _ _ _ # ops) = Suc (creations ops)"
| "creations (Update _ _ _ _ # ops) = creations ops"

text \<open>What the operations make of one job: only the updates that name it change it.\<close>

fun job_after :: "int \<Rightarrow> job_op list \<Rightarrow> JobInfo \<Rightarrow> JobInfo" where
  "job_after j [] job = job"
| "job_after j (Update now k s r # ops) job = job_after j ops (if k = j then updated_job now s r job else job)"
| "job_after j (Create _ _ _ # ops) job = job_after j ops job"

lemma jobs_ok_apply: "jobs_ok st \<Longrightarrow> jobs_ok (apply_job_op p st)"
  by (cases p) (simp_all add: jobs_ok_create)

lemma create_keeps_slot:
  assumes "jobs_ok st" "0 < j" "j < next_job_id st" "next_job_id st < j + int MAX_JOBS"
  shows "jobs (fst (job_create now c opn st)) ! nat (j mod int MAX_JOBS) = jobs st ! nat (j mod int MAX_JOBS)"
proof -
  have "next_job_id st mod int MAX_JOBS \<noteq> j mod int MAX_JOBS"
  proof
    assume "next_job_id st mod int MAX_JOBS = j mod int MAX_JOBS"
    then have "int MAX_JOBS dvd next_job_id st - j" by (simp add: mod_eq_dvd_iff)
    with assms(3,4) zdvd_imp_le [of "int MAX_JOBS" "next_job_id st - j"] show False by simp
  qed
  then have "nat (next_job_id st mod int MAX_JOBS) \<noteq> nat (j mod int MAX_JOBS)"
    by (simp add: eq_nat_nat_iff)
  then show ?thesis by (simp add: job_create_def Let_def)
qed

lemma job_survives_ops:
  "jobs_ok st \<Longrightarrow> 0 < j \<Longrightarrow> j < next_job_id st \<Longrightarrow>
   next_job_id st + int (creations ops) \<le> j + int MAX_JOBS \<Longrightarrow>
   jobs_ok (fold apply_job_op ops st) \<and>
   job_find (fold apply_job_op ops st) j = Some (nat (j mod int MAX_JOBS)) \<and>
   jobs (fold apply_job_op ops st) ! nat (j mod int MAX_JOBS) =
     job_after j ops (jobs st ! nat (j mod int MAX_JOBS))"
proof (induction ops arbitrary: st)
  case Nil
  then show ?case by (simp add: job_find_eq)
next
  case (Cons p ops)
  let ?i = "nat (j mod int MAX_JOBS)"
  show ?case
  proof (cases p)
    case (Create now c opn)
    have "next_job_id (fst (job_create now c opn st)) = next_job_id st + 1"
      by (simp add: job_create_def Let_def)
    with Cons.IH [of "fst (job_create now c opn st)"] Cons.prems Create
      create_keeps_slot [of st j now c opn] jobs_ok_create
    show ?thesis by simp
  next
    case (Update now k s r)
    have len: "?i < length (jobs st)"
      using Cons.prems(1) by (simp add: jobs_ok_iff nat_less_iff)
    have "jobs (job_update now k s r st) ! ?i =
        (if k = j then updated_job now s r (jobs st ! ?i) else jobs st ! ?i)"
    proof (cases "k = j")
      case True
      with Cons.prems len show ?thesis by (simp add: job_update_def job_find_eq)
    next
      case False
      have "ji_job_id (jobs st ! ?i) = j"
        using job_slot_id [of st ?i j] Cons.prems len by (simp add: jobs_ok_iff)
      with False show ?thesis
        by (auto simp: update_nth dest: job_find_SomeD(2))
    qed
    with Cons.IH [of "job_update now k s r st"] Cons.prems Update show ?thesis by simp
  qed
qed

text \<open>
  C22: from its creation on, and while fewer than \<open>MAX_JOBS\<close> jobs are created after it, a
  job is found under its id, and its record is exactly what the updates naming it have made
  of it: no creation and no update of another job touches it.
\<close>

theorem job_survives:
  assumes "jobs_ok st" and "job_create now c opn st = (st', j)" and "creations ops < MAX_JOBS"
  shows "\<exists>i. job_find (fold apply_job_op ops st') j = Some i \<and>
    jobs (fold apply_job_op ops st') ! i = job_after j ops (new_job now j c opn)"
proof -
  let ?i = "nat (j mod int MAX_JOBS)"
  have j: "j = next_job_id st" and nxt: "next_job_id st' = j + 1"
    using assms(2) by (auto simp: job_create_def Let_def)
  have pos: "0 < j" and len: "length (jobs st) = MAX_JOBS"
    using assms(1) j by (simp_all add: jobs_ok_iff)
  have ok: "jobs_ok st'" using jobs_ok_create [OF assms(1), of now c opn] assms(2) by simp
  have "?i < MAX_JOBS" by (simp add: nat_less_iff)
  then have "jobs st' ! ?i = new_job now j c opn"
    using assms(2) len by (auto simp: job_create_def Let_def)
  with job_survives_ops [OF ok pos, of ops] nxt assms(3) show ?thesis by auto
qed

text \<open>The updates keep the owner, the operation and the time of queueing.\<close>

lemma job_after_keeps [simp]:
  "ji_job_id (job_after j ops job) = ji_job_id job"
  "ji_client_id (job_after j ops job) = ji_client_id job"
  "ji_op_id (job_after j ops job) = ji_op_id job"
  "ji_queued_at (job_after j ops job) = ji_queued_at job"
  by (induction j ops job rule: job_after.induct) simp_all

section \<open>Who is told what\<close>

lemma parse_job_id_sdec:
  assumes "0 < j" "j \<le> 1000000000"
  shows "parse_job_id_payload st c (Some (sdec j)) = j"
proof -
  have no_NUL: "NUL \<notin> set (sdec j)"
    using assms(1) dec_digits [of NUL "nat j"] by (auto simp: sdec_def isdigit_def)
  have "sdec j \<noteq> []" "sdec j \<noteq> ''last''"
    using assms(1) dec_digits [of "CHR ''l''" "nat j"] by (auto simp: sdec_def isdigit_def)
  with assms no_NUL strtol_sdec [of j] show ?thesis
    by (simp add: parse_job_id_payload_def cstr_id)
qed

lemma respond_job_info_OK:
  assumes "respond_job_info st c opn payload = (OP_OK, resp)"
  obtains i where "job_find st (parse_job_id_payload st c payload) = Some i"
    "ji_client_id (jobs st ! i) = sint c" "0 < parse_job_id_payload st c payload"
    "resp = snprintf 4096 (if opn = OP_JOB_STATUS then job_status_text (jobs st ! i) else job_result_text (jobs st ! i))"
proof (cases "job_find st (parse_job_id_payload st c payload)")
  case None
  with assms show thesis by (simp add: respond_job_info_def Let_def split: if_splits)
next
  case (Some i)
  with assms show thesis
    by (intro that [of i]) (auto simp: respond_job_info_def Let_def split: if_splits)
qed

text \<open>
  C25: a client learns about a job only if it is its own: whatever the payload, a positive
  answer describes a job whose record carries the id of the client that asks.
\<close>

theorem respond_job_info_own:
  assumes "respond_job_info st c opn payload = (OP_OK, resp)"
  shows "\<exists>job \<in> set (jobs st). ji_client_id job = sint c \<and>
    resp = snprintf 4096 (if opn = OP_JOB_STATUS then job_status_text job else job_result_text job)"
  using assms
proof (rule respond_job_info_OK)
  fix i
  assume "job_find st (parse_job_id_payload st c payload) = Some i" "ji_client_id (jobs st ! i) = sint c"
    "resp = snprintf 4096 (if opn = OP_JOB_STATUS then job_status_text (jobs st ! i) else job_result_text (jobs st ! i))"
  then show ?thesis using job_find_SomeD(1) nth_mem by blast
qed

text \<open>
  Asking for the result under the number of a job that is not yet overwritten gives its
  status and its stored result; the number may be any decimal in the accepted range.
\<close>

theorem respond_job_result:
  assumes "jobs_ok st" and "job_create now c opn st = (st', j)" and "creations ops < MAX_JOBS"
    and "j \<le> 1000000000"
  shows "respond_job_info (fold apply_job_op ops st') c OP_JOB_RESULT (Some (sdec j)) =
    (OP_OK, snprintf 4096 (job_result_text (job_after j ops (new_job now j c opn))))"
proof -
  have j: "j = next_job_id st" and nxt: "next_job_id st' = j + 1"
    using assms(2) by (auto simp: job_create_def Let_def)
  have pos: "0 < j" and len: "length (jobs st) = MAX_JOBS"
    using assms(1) j by (simp_all add: jobs_ok_iff)
  have ok: "jobs_ok st'" using jobs_ok_create [OF assms(1), of now c opn] assms(2) by simp
  have "nat (j mod int MAX_JOBS) < MAX_JOBS" by (simp add: nat_less_iff)
  then have "jobs st' ! nat (j mod int MAX_JOBS) = new_job now j c opn"
    using assms(2) len by (auto simp: job_create_def Let_def)
  with job_survives_ops [OF ok pos, of ops] nxt assms(3) pos assms(4) show ?thesis
    by (simp add: respond_job_info_def parse_job_id_sdec new_job_def)
qed

text \<open>
  The word \<open>last\<close>, or an empty payload, stands for the last job the client has created, but
  only for the client ids below \<open>MAX_CLIENTS\<close>; every other client gets 0.
\<close>

lemma last_job_exact:
  assumes "jobs_ok st" "job_create now c opn st = (st', j)"
  shows "parse_job_id_payload st' c (Some ''last'') = (if unat c < MAX_CLIENTS then j else 0)"
    and "parse_job_id_payload st' c None = (if unat c < MAX_CLIENTS then j else 0)"
    and "d \<noteq> c \<Longrightarrow> parse_job_id_payload st' d (Some ''last'') = parse_job_id_payload st d (Some ''last'')"
proof -
  have "cstr ''last'' = ''last''" by (simp add: cstr_def)
  moreover have "length (last_job_by_client st) = MAX_CLIENTS"
    using assms(1) by (simp add: jobs_ok_iff)
  moreover have "d \<noteq> c \<Longrightarrow> unat c \<noteq> unat d"
    by (metis unsigned_word_eqI)
  ultimately show "parse_job_id_payload st' c (Some ''last'') = (if unat c < MAX_CLIENTS then j else 0)"
    "parse_job_id_payload st' c None = (if unat c < MAX_CLIENTS then j else 0)"
    "d \<noteq> c \<Longrightarrow> parse_job_id_payload st' d (Some ''last'') = parse_job_id_payload st d (Some ''last'')"
    using assms(2) by (auto simp: parse_job_id_payload_def job_create_def Let_def)
qed

text \<open>
  C36: a client whose id is 128 or above cannot ask for its last job: right after the server
  has queued one for it, the request for \<open>last\<close> is answered with an error.
\<close>

theorem last_job_unavailable:
  assumes "jobs_ok st" and "MAX_CLIENTS \<le> unat c"
  shows "respond_job_info (fst (job_create now c opn st)) c OP_JOB_STATUS (Some ''last'') =
    (OP_ERROR, ''invalid or missing job id'')"
proof -
  obtain st' j where "job_create now c opn st = (st', j)" by fastforce
  with last_job_exact(1) [OF assms(1) this] assms(2) show ?thesis
    by (simp add: respond_job_info_def)
qed

section \<open>Progress of a job\<close>

text \<open>Status values are ordered by the progress they stand for.\<close>

fun job_rank :: "job_status \<Rightarrow> nat" where
  "job_rank NoStatus = 0"
| "job_rank QUEUED = 1"
| "job_rank RUNNING = 2"
| "job_rank DONE = 3"
| "job_rank ERROR = 3"

instantiation job_status :: order
begin

definition less_eq_job_status :: "job_status \<Rightarrow> job_status \<Rightarrow> bool" where
  "less_eq_job_status a b \<longleftrightarrow> a = b \<or> job_rank a < job_rank b"

definition less_job_status :: "job_status \<Rightarrow> job_status \<Rightarrow> bool" where
  "less_job_status a b \<longleftrightarrow> job_rank a < job_rank b"

instance
  by intro_classes (auto simp: less_eq_job_status_def less_job_status_def)

end

text \<open>A job only moves forward where each update names a later status than the record has.\<close>

lemma updated_job_status [simp]: "ji_status (updated_job now s r job) = s"
  by (simp add: updated_job_def Let_def)

lemma updated_job_result [simp]: "ji_result (updated_job now s r job) = snprintf MAX_JOB_RESULT r"
  by (simp add: updated_job_def Let_def)

lemma job_rank_less: "QUEUED < RUNNING" "RUNNING < DONE" "RUNNING < ERROR" "QUEUED < DONE" "QUEUED < ERROR"
  by (simp_all add: less_job_status_def)

section \<open>Witnesses\<close>

text \<open>The first job of client 5: created in the initial state, run and finished.\<close>

definition first_state :: SharedState where
  "first_state = fst (job_create 10 5 OP_GENERATE_SQL (state_init 0))"

definition first_ops :: "job_op list" where
  "first_ops = [Update 11 1 RUNNING ''running'', Create 12 6 OP_GENERATE_SQL, Update 13 1 DONE ''-- sql'']"

lemma first_create: "job_create 10 5 OP_GENERATE_SQL (state_init 0) = (first_state, 1)"
  by (simp add: first_state_def job_create_def state_init_def Let_def)

lemma first_ops_bound: "creations first_ops < MAX_JOBS"
  by (simp add: first_ops_def)

lemma first_job_done:
  "job_after 1 first_ops (new_job 10 1 5 20) =
   \<lparr>ji_job_id = 1, ji_client_id = 5, ji_op_id = 20, ji_status = DONE, ji_result = ''-- sql'',
    ji_queued_at = 10, ji_started_at = 11, ji_finished_at = 13\<rparr>"
  by (simp add: first_ops_def updated_job_def new_job_def zero_job_def snprintf_def Let_def)

theorem job_find_recent_witness: "job_find first_state 1 = Some 1 \<and> job_find first_state 2 = None"
proof -
  have "jobs_ok first_state"
    unfolding first_state_def by (rule jobs_ok_create [OF jobs_ok_init])
  moreover have "next_job_id first_state = 2"
    by (simp add: first_state_def job_create_def state_init_def Let_def)
  ultimately show ?thesis
    using job_find_recent [of first_state 1] job_find_recent [of first_state 2] by simp
qed

theorem job_survives_witness:
  "\<exists>i. ji_status (jobs (fold apply_job_op first_ops first_state) ! i) = DONE"
proof -
  obtain i where "jobs (fold apply_job_op first_ops first_state) ! i = job_after 1 first_ops (new_job 10 1 5 20)"
    using job_survives [OF jobs_ok_init first_create first_ops_bound] by auto
  then show ?thesis by (intro exI [of _ i]) (simp add: first_job_done)
qed

theorem respond_job_result_witness:
  "respond_job_info (fold apply_job_op first_ops first_state) 5 OP_JOB_RESULT (Some ''1'') =
   (OP_OK, ''job=1 status=DONE'' @ [CHR 0x0A] @ ''-- sql'')"
proof -
  have one: "sdec 1 = ''1''" by (simp add: sdec_def ctext_simps)
  show ?thesis
    using respond_job_result [OF jobs_ok_init first_create first_ops_bound]
    by (simp add: first_job_done one job_result_text_def snprintf_def)
qed

lemma first_job_waiting:
  "jobs first_state ! 1 = new_job 10 1 5 OP_GENERATE_SQL"
  by (simp add: first_state_def job_create_def state_init_def Let_def)

theorem respond_job_info_own_witness:
  "\<exists>job \<in> set (jobs (fold apply_job_op first_ops first_state)). ji_client_id job = sint (5 :: 32 word)"
proof -
  have ok: "jobs_ok first_state"
    unfolding first_state_def by (rule jobs_ok_create [OF jobs_ok_init])
  have "job_find (fold apply_job_op first_ops first_state) 1 = Some 1"
    "jobs (fold apply_job_op first_ops first_state) ! 1 = job_after 1 first_ops (new_job 10 1 5 OP_GENERATE_SQL)"
    using job_survives_ops [OF ok, of 1 first_ops] first_ops_bound first_job_waiting
    by (simp_all add: first_state_def job_create_def state_init_def Let_def first_ops_def)
  then have "respond_job_info (fold apply_job_op first_ops first_state) 5 OP_JOB_RESULT (Some (sdec 1)) =
      (OP_OK, snprintf 4096 (job_result_text (job_after 1 first_ops (new_job 10 1 5 OP_GENERATE_SQL))))"
    using parse_job_id_sdec [of 1] by (simp add: respond_job_info_def first_job_done)
  from respond_job_info_own [OF this] show ?thesis by blast
qed

theorem last_job_unavailable_witness:
  "respond_job_info (fst (job_create 10 128 OP_GENERATE_SQL (state_init 0))) 128 OP_JOB_STATUS (Some ''last'') =
   (OP_ERROR, ''invalid or missing job id'')"
  by (rule last_job_unavailable [OF jobs_ok_init]) simp

end
