(* ===== verification/RequestQueue.thy ===== *)
theory RequestQueue
  imports Schema Protocol
begin

text \<open>
  The queue between the interface thread and the worker (\<open>Request\<close>, \<open>RequestQueue\<close>,
  \<open>queue_init\<close>, \<open>queue_push\<close>, \<open>queue_pop\<close> of \<open>src/server.c\<close>) as the linked list it is: a
  head and a tail pointer into a memory of nodes.  \<open>None\<close> is the NULL pointer.  The mutex
  makes each operation one step; waiting on the condition variable is a \<open>queue_pop\<close> that
  finds nothing and is tried again.
\<close>

section \<open>Nodes, push and pop\<close>

record Request =
  rq_fd :: int
  rq_client_id :: "32 word"
  rq_op_id :: "32 word"
  rq_job_id :: int
  rq_payload :: "string option"
  rq_payload_size :: "32 word"

record QNode =
  qn_req :: Request
  qn_next :: "nat option"

record RequestQueue =
  q_head :: "nat option"
  q_tail :: "nat option"
  q_mem :: "nat \<Rightarrow> QNode option"

definition queue_init :: RequestQueue where
  "queue_init = \<lparr>q_head = None, q_tail = None, q_mem = (\<lambda>_. None)\<rparr>"

definition set_next :: "nat \<Rightarrow> nat option \<Rightarrow> (nat \<Rightarrow> QNode option) \<Rightarrow> nat \<Rightarrow> QNode option" where
  "set_next p nx mem = mem(p := map_option (\<lambda>n. n\<lparr>qn_next := nx\<rparr>) (mem p))"

text \<open>The request lives at address p, where \<open>calloc\<close> has put it.\<close>

definition queue_push ::
  "nat \<Rightarrow> Request \<Rightarrow> RequestQueue \<times> SharedState \<Rightarrow> RequestQueue \<times> SharedState" where
  "queue_push p r qst =
     (let (q, st) = qst;
          mem = (q_mem q)(p \<mapsto> \<lparr>qn_req = r, qn_next = None\<rparr>);
          q' = (case q_tail q of
                  None \<Rightarrow> q\<lparr>q_head := Some p, q_tail := Some p, q_mem := mem\<rparr>
                | Some t \<Rightarrow> q\<lparr>q_tail := Some p, q_mem := set_next t (Some p) mem\<rparr>)
      in (q', st\<lparr>queue_depth := queue_depth st + 1\<rparr>))"

text \<open>The first request and its address; the node stays allocated until the worker frees it.\<close>

definition queue_pop ::
  "RequestQueue \<times> SharedState \<Rightarrow> ((nat \<times> Request) \<times> RequestQueue \<times> SharedState) option" where
  "queue_pop qst =
     (let (q, st) = qst in
      case q_head q of
        None \<Rightarrow> None
      | Some p \<Rightarrow>
          (case q_mem q p of
             None \<Rightarrow> None
           | Some n \<Rightarrow>
               let q' = q\<lparr>q_head := qn_next n, q_tail := (if qn_next n = None then None else q_tail q)\<rparr>;
                   st' = (if 0 < queue_depth st then st\<lparr>queue_depth := queue_depth st - 1\<rparr> else st)
               in Some ((p, qn_req n), q', st')))"

definition free_request :: "nat \<Rightarrow> RequestQueue \<Rightarrow> RequestQueue" where
  "free_request p q = q\<lparr>q_mem := (q_mem q)(p := None)\<rparr>"

section \<open>First in, first out\<close>

text \<open>
  The contract the threads rely on.  An item carries its address; \<open>fresh\<close> says that the
  allocator may hand it out.
\<close>

locale fifo =
  fixes push :: "'x \<Rightarrow> 'q \<Rightarrow> 'q"
    and pop :: "'q \<Rightarrow> ('x \<times> 'q) option"
    and contents :: "'q \<Rightarrow> 'x list"
    and fresh :: "'x \<Rightarrow> 'q \<Rightarrow> bool"
    and valid :: "'q \<Rightarrow> bool"
  assumes push_valid: "valid q \<Longrightarrow> fresh x q \<Longrightarrow> valid (push x q)"
    and push_contents: "valid q \<Longrightarrow> fresh x q \<Longrightarrow> contents (push x q) = contents q @ [x]"
    and pop_empty: "valid q \<Longrightarrow> contents q = [] \<Longrightarrow> pop q = None"
    and pop_first: "valid q \<Longrightarrow> contents q = x # xs \<Longrightarrow> \<exists>q'. pop q = Some (x, q') \<and> valid q' \<and> contents q' = xs"
begin

lemma pop_SomeD:
  assumes "valid q" "pop q = Some (x, q')"
  shows "contents q = x # contents q'" "valid q'"
proof -
  obtain y ys where c: "contents q = y # ys"
    using assms pop_empty by (cases "contents q") auto
  with pop_first [OF assms(1) this] assms(2) show "contents q = x # contents q'" "valid q'" by auto
qed

end

text \<open>A run of the two threads on the queue: requests pushed, pops that found one.\<close>

datatype 'x queue_op = Push 'x | Pop

fun run_queue ::
  "('x \<Rightarrow> 'q \<Rightarrow> 'q) \<Rightarrow> ('q \<Rightarrow> ('x \<times> 'q) option) \<Rightarrow> ('x \<Rightarrow> 'q \<Rightarrow> bool) \<Rightarrow> 'x queue_op list \<Rightarrow> 'q \<Rightarrow> ('x list \<times> 'x list \<times> 'q) option"
where
  "run_queue push pop fresh [] q = Some ([], [], q)"
| "run_queue push pop fresh (Push x # ops) q =
     (if fresh x q
      then (case run_queue push pop fresh ops (push x q) of
              None \<Rightarrow> None | Some (ins, outs, q') \<Rightarrow> Some (x # ins, outs, q'))
      else None)"
| "run_queue push pop fresh (Pop # ops) q =
     (case pop q of
        None \<Rightarrow> run_queue push pop fresh ops q
      | Some (x, q1) \<Rightarrow>
          (case run_queue push pop fresh ops q1 of
             None \<Rightarrow> None | Some (ins, outs, q') \<Rightarrow> Some (ins, x # outs, q')))"

context fifo begin

lemma run_fifo:
  "valid q \<Longrightarrow> run_queue push pop fresh ops q = Some (ins, outs, q') \<Longrightarrow>
   valid q' \<and> contents q @ ins = outs @ contents q'"
proof (induction ops arbitrary: q ins outs)
  case (Cons op ops)
  show ?case
  proof (cases op)
    case (Push x)
    with Cons.prems obtain ins1 where f: "fresh x q" and ins: "ins = x # ins1"
      and run: "run_queue push pop fresh ops (push x q) = Some (ins1, outs, q')"
      by (auto split: if_splits option.splits)
    from Cons.IH [OF push_valid [OF Cons.prems(1) f] run] push_contents [OF Cons.prems(1) f] ins
    show ?thesis by simp
  next
    case Pop
    show ?thesis
    proof (cases "pop q")
      case None
      with Pop Cons show ?thesis by simp
    next
      case (Some xq)
      obtain x q1 where p: "pop q = Some (x, q1)" using Some by (cases xq) auto
      with Pop Cons.prems(2) obtain outs1 where outs: "outs = x # outs1"
        and run: "run_queue push pop fresh ops q1 = Some (ins, outs1, q')"
        by (auto split: option.splits)
      note pd = pop_SomeD [OF Cons.prems(1) p]
      from Cons.IH [OF pd(2) run] pd(1) outs show ?thesis by simp
    qed
  qed
qed simp

end

section \<open>The linked list is such a queue\<close>

text \<open>The nodes reached from a pointer, and the invariant of the queue.\<close>

fun chain :: "(nat \<Rightarrow> QNode option) \<Rightarrow> nat option \<Rightarrow> (nat \<times> Request) list \<Rightarrow> bool" where
  "chain mem h [] \<longleftrightarrow> h = None"
| "chain mem h ((p, r) # xs) \<longleftrightarrow>
     h = Some p \<and> (\<exists>nx. mem p = Some \<lparr>qn_req = r, qn_next = nx\<rparr> \<and> chain mem nx xs)"

text \<open>The requests in the queue, read along the next pointers, as many as the counter says.\<close>

fun walk :: "(nat \<Rightarrow> QNode option) \<Rightarrow> nat \<Rightarrow> nat option \<Rightarrow> (nat \<times> Request) list" where
  "walk mem 0 h = []"
| "walk mem (Suc k) None = []"
| "walk mem (Suc k) (Some p) =
     (case mem p of None \<Rightarrow> [] | Some n \<Rightarrow> (p, qn_req n) # walk mem k (qn_next n))"

definition queued :: "RequestQueue \<times> SharedState \<Rightarrow> (nat \<times> Request) list" where
  "queued qst = walk (q_mem (fst qst)) (nat (queue_depth (snd qst))) (q_head (fst qst))"

definition queue_ok :: "RequestQueue \<times> SharedState \<Rightarrow> bool" where
  "queue_ok qst \<longleftrightarrow> 0 \<le> queue_depth (snd qst) \<and> length (queued qst) = nat (queue_depth (snd qst)) \<and>
     distinct (map fst (queued qst)) \<and> chain (q_mem (fst qst)) (q_head (fst qst)) (queued qst) \<and>
     q_tail (fst qst) = (if queued qst = [] then None else Some (fst (last (queued qst))))"

definition queue_fresh :: "nat \<times> Request \<Rightarrow> RequestQueue \<times> SharedState \<Rightarrow> bool" where
  "queue_fresh x qst \<longleftrightarrow> q_mem (fst qst) (fst x) = None"

lemma chain_walk: "chain mem h xs \<Longrightarrow> walk mem (length xs) h = xs"
  by (induction mem h xs rule: chain.induct) auto

lemma chain_cong: "chain mem h xs \<Longrightarrow> \<forall>p \<in> set (map fst xs). mem' p = mem p \<Longrightarrow> chain mem' h xs"
  by (induction mem h xs rule: chain.induct) auto

lemma chain_snoc:
  "chain mem h (xs @ [(t, r)]) \<Longrightarrow> distinct (map fst (xs @ [(t, r)])) \<Longrightarrow> p \<notin> set (map fst (xs @ [(t, r)])) \<Longrightarrow>
   mem p = Some \<lparr>qn_req = s, qn_next = None\<rparr> \<Longrightarrow>
   chain (set_next t (Some p) mem) h (xs @ [(t, r), (p, s)])"
proof (induction xs arbitrary: h)
  case Nil
  then show ?case by (auto simp: set_next_def)
next
  case (Cons x xs)
  obtain q u where x: "x = (q, u)" by fastforce
  with Cons show ?case by (auto simp: set_next_def)
qed

text \<open>The invariant in the form that names the list.\<close>

lemma queue_okI:
  assumes "chain (q_mem q) (q_head q) xs" "distinct (map fst xs)" "queue_depth st = int (length xs)"
    "q_tail q = (if xs = [] then None else Some (fst (last xs)))"
  shows "queue_ok (q, st)" "queued (q, st) = xs"
proof -
  show "queued (q, st) = xs"
    using assms chain_walk by (simp add: queued_def)
  with assms show "queue_ok (q, st)" by (simp add: queue_ok_def)
qed

lemma queue_ok_init: "queue_ok (queue_init, state_init now)" "queued (queue_init, state_init now) = []"
  using queue_okI [of queue_init "[]" "state_init now"] by (simp_all add: queue_init_def state_init_def)

lemma chain_mem: "chain mem h xs \<Longrightarrow> p \<in> set (map fst xs) \<Longrightarrow> mem p \<noteq> None"
  by (induction mem h xs rule: chain.induct) auto

lemma queue_push_ok:
  assumes "queue_ok (q, st)" "queue_fresh (p, r) (q, st)"
  shows "queue_ok (queue_push p r (q, st))" "queued (queue_push p r (q, st)) = queued (q, st) @ [(p, r)]"
proof -
  let ?xs = "queued (q, st)"
  obtain q' st' where push: "queue_push p r (q, st) = (q', st')" by fastforce
  have inv: "chain (q_mem q) (q_head q) ?xs" "distinct (map fst ?xs)" "queue_depth st = int (length ?xs)"
    "q_tail q = (if ?xs = [] then None else Some (fst (last ?xs)))"
    using assms(1) by (auto simp: queue_ok_def)
  have new: "q_mem q p = None" using assms(2) by (simp add: queue_fresh_def)
  then have notin: "p \<notin> set (map fst ?xs)" using chain_mem [OF inv(1)] by blast
  let ?mem = "(q_mem q)(p \<mapsto> \<lparr>qn_req = r, qn_next = None\<rparr>)"
  have ch: "chain ?mem (q_head q) ?xs"
    using inv(1) notin by (intro chain_cong [OF inv(1)]) auto
  have "chain (q_mem q') (q_head q') (?xs @ [(p, r)]) \<and> q_tail q' = Some p"
  proof (cases "?xs = []")
    case True
    with inv push show ?thesis by (auto simp: queue_push_def)
  next
    case False
    then obtain ys t s where xs: "?xs = ys @ [(t, s)]" by (metis rev_exhaust surj_pair)
    with inv(4) push have "q' = q\<lparr>q_tail := Some p, q_mem := set_next t (Some p) ?mem\<rparr>"
      by (simp add: queue_push_def Let_def)
    with chain_snoc [of ?mem "q_head q" ys t s p r] ch inv(2) notin xs show ?thesis by simp
  qed
  moreover have "queue_depth st' = int (length (?xs @ [(p, r)]))"
    using push inv(3) by (auto simp: queue_push_def Let_def)
  ultimately show "queue_ok (queue_push p r (q, st))" "queued (queue_push p r (q, st)) = ?xs @ [(p, r)]"
    using queue_okI [of q' "?xs @ [(p, r)]" st'] inv(2) notin push by auto
qed

lemma queue_pop_ok:
  assumes "queue_ok (q, st)"
  shows "queued (q, st) = [] \<Longrightarrow> queue_pop (q, st) = None"
    and "queued (q, st) = x # xs \<Longrightarrow> \<exists>qst'. queue_pop (q, st) = Some (x, qst') \<and> queue_ok qst' \<and> queued qst' = xs"
proof -
  have inv: "chain (q_mem q) (q_head q) (queued (q, st))" "distinct (map fst (queued (q, st)))"
    "queue_depth st = int (length (queued (q, st)))"
    "q_tail q = (if queued (q, st) = [] then None else Some (fst (last (queued (q, st)))))"
    using assms by (auto simp: queue_ok_def)
  show "queued (q, st) = [] \<Longrightarrow> queue_pop (q, st) = None"
    using inv(1) by (simp add: queue_pop_def)
  assume xs: "queued (q, st) = x # xs"
  obtain p r where x: "x = (p, r)" by fastforce
  with inv xs obtain nx where h: "q_head q = Some p" "q_mem q p = Some \<lparr>qn_req = r, qn_next = nx\<rparr>"
    and rest: "chain (q_mem q) nx xs" by auto
  have nx: "nx = None \<longleftrightarrow> xs = []" using rest by (cases xs) auto
  define q' where "q' = q\<lparr>q_head := nx, q_tail := (if nx = None then None else q_tail q)\<rparr>"
  define st' where "st' = st\<lparr>queue_depth := queue_depth st - 1\<rparr>"
  have "queue_pop (q, st) = Some (x, q', st')"
    using h x inv(3) xs by (simp add: queue_pop_def q'_def st'_def)
  moreover have "queue_ok (q', st')" "queued (q', st') = xs"
    using queue_okI [of q' xs st'] rest inv xs nx by (auto simp: q'_def st'_def)
  ultimately show "\<exists>qst'. queue_pop (q, st) = Some (x, qst') \<and> queue_ok qst' \<and> queued qst' = xs" by blast
qed

interpretation requests: fifo "\<lambda>(p, r). queue_push p r" queue_pop queued queue_fresh queue_ok
proof
  fix q :: "RequestQueue \<times> SharedState" and x :: "nat \<times> Request" and xs
  obtain q0 st p r where q: "q = (q0, st)" and x: "x = (p, r)" by (cases q, cases x) auto
  show "queue_ok q \<Longrightarrow> queue_fresh x q \<Longrightarrow> queue_ok ((case x of (p, r) \<Rightarrow> queue_push p r) q)"
    "queue_ok q \<Longrightarrow> queue_fresh x q \<Longrightarrow> queued ((case x of (p, r) \<Rightarrow> queue_push p r) q) = queued q @ [x]"
    using queue_push_ok [of q0 st p r] by (simp_all add: q x)
  show "queue_ok q \<Longrightarrow> queued q = [] \<Longrightarrow> queue_pop q = None"
    "queue_ok q \<Longrightarrow> queued q = x # xs \<Longrightarrow> \<exists>q'. queue_pop q = Some (x, q') \<and> queue_ok q' \<and> queued q' = xs"
    using queue_pop_ok [of q0 st] by (simp_all add: q)
qed

text \<open>Freeing the request that was popped leaves the queue alone.\<close>

lemma free_request_ok:
  assumes "queue_ok (q, st)" "p \<notin> set (map fst (queued (q, st)))"
  shows "queue_ok (free_request p q, st)" "queued (free_request p q, st) = queued (q, st)"
proof -
  let ?xs = "queued (q, st)"
  have inv: "chain (q_mem q) (q_head q) ?xs" "distinct (map fst ?xs)" "queue_depth st = int (length ?xs)"
    "q_tail q = (if ?xs = [] then None else Some (fst (last ?xs)))"
    using assms(1) by (auto simp: queue_ok_def)
  have "chain (q_mem (free_request p q)) (q_head q) ?xs"
    using assms(2) by (intro chain_cong [OF inv(1)]) (auto simp: free_request_def)
  with queue_okI [of "free_request p q" ?xs st] inv
  show "queue_ok (free_request p q, st)" "queued (free_request p q, st) = ?xs"
    by (simp_all add: free_request_def)
qed

text \<open>
  C21: the worker gets the requests exactly in the order in which the interface thread has
  queued them, none lost and none twice, whatever the interleaving of pushes and pops; and
  the counter the reports show is the number of requests that wait.
\<close>

theorem requests_fifo:
  assumes "run_queue (\<lambda>(p, r). queue_push p r) queue_pop queue_fresh ops (queue_init, state_init now) =
      Some (ins, outs, qst)"
  shows "ins = outs @ queued qst \<and> queue_depth (snd qst) = int (length ins) - int (length outs)"
proof -
  have "queue_ok qst \<and> ins = outs @ queued qst"
    using requests.run_fifo [OF queue_ok_init(1) assms] queue_ok_init(2) by simp
  then show ?thesis by (auto simp: queue_ok_def)
qed

definition a_request :: "int \<Rightarrow> Request" where
  "a_request fd = \<lparr>rq_fd = fd, rq_client_id = 1, rq_op_id = OP_UPLOAD_BEGIN, rq_job_id = 0, rq_payload = None,
     rq_payload_size = 0\<rparr>"

theorem requests_fifo_witness:
  "\<exists>qst. run_queue (\<lambda>(p, r). queue_push p r) queue_pop queue_fresh
      [Push (7, a_request 4), Push (9, a_request 5), Pop, Push (2, a_request 6), Pop] (queue_init, state_init 0) =
    Some ([(7, a_request 4), (9, a_request 5), (2, a_request 6)], [(7, a_request 4), (9, a_request 5)], qst) \<and>
    queued qst = [(2, a_request 6)] \<and> queue_depth (snd qst) = 1"
proof -
  obtain qst where run: "run_queue (\<lambda>(p, r). queue_push p r) queue_pop queue_fresh
      [Push (7, a_request 4), Push (9, a_request 5), Pop, Push (2, a_request 6), Pop] (queue_init, state_init 0) =
    Some ([(7, a_request 4), (9, a_request 5), (2, a_request 6)], [(7, a_request 4), (9, a_request 5)], qst)"
    by (simp add: queue_fresh_def queue_init_def queue_push_def queue_pop_def set_next_def state_init_def Let_def)
  with requests_fifo [OF run] show ?thesis by auto
qed

end
