(* ===== verification/Sessions.thy ===== *)
theory Sessions
  imports Schema
begin

text \<open>
  Who is connected: the table of addresses by descriptor (\<open>fd_addr_set\<close>, \<open>fd_addr_get\<close>,
  \<open>fd_addr_remove\<close>), the block list (\<open>addr_blocked\<close>, \<open>block_addr\<close>) and the table of
  ordinary clients (\<open>client_touch\<close>, \<open>client_remove_fd\<close>, \<open>register_client\<close>,
  \<open>is_registered_client\<close>, \<open>client_fd_by_id\<close>, \<open>parse_client_id_payload\<close>) of
  \<open>src/server.c\<close>.  A free slot of a table has the descriptor 0.
\<close>

section \<open>Tables of slots\<close>

text \<open>
  Both tables are arrays of entries that carry a descriptor: a new entry goes to the first
  free slot, an entry is found and cleared at its first occurrence.
\<close>

locale slot_table =
  fixes fd_of :: "'e \<Rightarrow> int" and clear :: "'e \<Rightarrow> 'e"
  assumes clear_free: "fd_of (clear e) = 0"
begin

definition entry :: "int \<Rightarrow> 'e list \<Rightarrow> 'e option" where
  "entry fd tab = map_option (\<lambda>i. tab ! i) (first_index (\<lambda>e. fd_of e = fd) tab)"

definition put :: "'e \<Rightarrow> 'e list \<Rightarrow> 'e list" where
  "put e tab = (case first_index (\<lambda>x. fd_of x = 0) tab of None \<Rightarrow> tab | Some i \<Rightarrow> tab[i := e])"

definition drop_fd :: "int \<Rightarrow> 'e list \<Rightarrow> 'e list" where
  "drop_fd fd tab =
     (case first_index (\<lambda>x. fd_of x = fd) tab of None \<Rightarrow> tab | Some i \<Rightarrow> tab[i := clear (tab ! i)])"

definition unique_fds :: "'e list \<Rightarrow> bool" where
  "unique_fds tab \<longleftrightarrow> (\<forall>i < length tab. \<forall>j < length tab.
     fd_of (tab ! i) = fd_of (tab ! j) \<and> fd_of (tab ! i) \<noteq> 0 \<longrightarrow> i = j)"

definition active :: "'e list \<Rightarrow> 'e list" where
  "active tab = filter (\<lambda>e. fd_of e \<noteq> 0) tab"

lemma entry_iff:
  assumes "unique_fds tab" "fd \<noteq> 0"
  shows "entry fd tab = Some e \<longleftrightarrow> (\<exists>i < length tab. tab ! i = e \<and> fd_of e = fd)"
proof
  assume "entry fd tab = Some e"
  then show "\<exists>i < length tab. tab ! i = e \<and> fd_of e = fd"
    by (auto simp: entry_def dest: first_index_SomeD)
next
  assume "\<exists>i < length tab. tab ! i = e \<and> fd_of e = fd"
  then obtain i where i: "i < length tab" "tab ! i = e" "fd_of e = fd" by blast
  have "fd_of (tab ! j) \<noteq> fd" if "j < i" for j
    using assms i that unfolding unique_fds_def by (metis less_trans nat_neq_iff)
  with i have "first_index (\<lambda>e. fd_of e = fd) tab = Some i"
    by (simp add: first_index_Some_iff)
  with i show "entry fd tab = Some e" by (simp add: entry_def)
qed

lemma entry_None: "entry fd tab = None \<longleftrightarrow> (\<forall>e \<in> set tab. fd_of e \<noteq> fd)"
  by (simp add: entry_def first_index_None_iff)

lemma unique_update:
  assumes "unique_fds tab" "fd_of e = 0 \<or> (\<forall>x \<in> set tab. fd_of x \<noteq> fd_of e)"
  shows "unique_fds (tab[i := e])"
proof (cases "i < length tab")
  case True
  have "fd_of e = 0 \<or> (\<forall>k < length tab. fd_of (tab ! k) \<noteq> fd_of e)"
    using assms(2) nth_mem by blast
  with assms(1) True show ?thesis
    unfolding unique_fds_def by (auto simp: nth_list_update)
next
  case False
  with assms(1) show ?thesis by (simp add: list_update_beyond not_less)
qed

lemma unique_put:
  "unique_fds tab \<Longrightarrow> entry (fd_of e) tab = None \<Longrightarrow> unique_fds (put e tab)"
  by (auto simp: put_def entry_None split: option.splits intro: unique_update)

lemma set_put: "set (put e tab) \<subseteq> insert e (set tab)"
  by (auto simp: put_def split: option.splits dest!: set_update_subset_insert [THEN subsetD])

lemma unique_drop: "unique_fds tab \<Longrightarrow> unique_fds (drop_fd fd tab)"
  by (auto simp: drop_fd_def clear_free split: option.splits intro: unique_update)

lemma entry_put:
  assumes "unique_fds tab" "fd_of e \<noteq> 0" "entry (fd_of e) tab = None" "\<exists>x \<in> set tab. fd_of x = 0" "fd \<noteq> 0"
  shows "entry fd (put e tab) = (if fd = fd_of e then Some e else entry fd tab)"
proof -
  obtain i where i: "first_index (\<lambda>x. fd_of x = 0) tab = Some i"
    using assms(4) by (cases "first_index (\<lambda>x. fd_of x = 0) tab") (auto simp: first_index_None_iff)
  then have i': "i < length tab" "fd_of (tab ! i) = 0" by (simp_all add: first_index_Some_iff)
  have u: "unique_fds (tab[i := e])"
    using unique_put [OF assms(1,3)] i by (simp add: put_def)
  have "entry fd (tab[i := e]) = Some x \<longleftrightarrow> (if fd = fd_of e then Some e else entry fd tab) = Some x" for x
    using assms i' entry_iff [OF u, of fd x] entry_iff [OF assms(1), of fd x]
    by (auto simp: nth_list_update entry_None in_set_conv_nth)
  then show ?thesis
    using i by (simp add: put_def) (metis not_Some_eq)
qed

lemma entry_drop:
  assumes "unique_fds tab" "fd \<noteq> 0" "fd' \<noteq> 0"
  shows "entry fd (drop_fd fd' tab) = (if fd = fd' then None else entry fd tab)"
proof (cases "first_index (\<lambda>x. fd_of x = fd') tab")
  case None
  then have "entry fd' tab = None" by (simp add: entry_def)
  with None show ?thesis by (simp add: drop_fd_def)
next
  case (Some i)
  then have i: "i < length tab" "fd_of (tab ! i) = fd'" by (simp_all add: first_index_Some_iff)
  have u: "unique_fds (tab[i := clear (tab ! i)])"
    using unique_drop [OF assms(1), of fd'] Some by (simp add: drop_fd_def)
  have "entry fd (tab[i := clear (tab ! i)]) = Some x \<longleftrightarrow> (if fd = fd' then None else entry fd tab) = Some x" for x
    using assms i entry_iff [OF u, of fd x] entry_iff [OF assms(1), of fd x] clear_free [of "tab ! i"]
    by (auto simp: nth_list_update unique_fds_def)
  then show ?thesis
    using Some by (simp add: drop_fd_def) (metis not_Some_eq)
qed

lemma active_update:
  "i < length tab \<Longrightarrow> length (active (tab[i := e])) + (if fd_of (tab ! i) \<noteq> 0 then 1 else 0) =
   length (active tab) + (if fd_of e \<noteq> 0 then 1 else 0)"
proof (induction tab arbitrary: i)
  case (Cons x tab)
  show ?case
  proof (cases i)
    case (Suc k)
    with Cons.IH [of k] Cons.prems show ?thesis by (simp add: active_def)
  qed (simp add: active_def)
qed simp

lemma active_put:
  assumes "fd_of e \<noteq> 0"
  shows "length (active (put e tab)) = length (active tab) + (if \<exists>x \<in> set tab. fd_of x = 0 then 1 else 0)"
proof (cases "first_index (\<lambda>x. fd_of x = 0) tab")
  case None
  then have "put e tab = tab" by (simp add: put_def)
  with None show ?thesis by (simp add: first_index_None_iff)
next
  case (Some i)
  then have "i < length tab" "fd_of (tab ! i) = 0" by (simp_all add: first_index_Some_iff)
  with active_update [of i tab e] assms Some show ?thesis
    by (auto simp: put_def dest: nth_mem)
qed

lemma active_drop:
  assumes "fd \<noteq> 0"
  shows "length (active (drop_fd fd tab)) = length (active tab) - (if entry fd tab = None then 0 else 1)"
proof (cases "first_index (\<lambda>x. fd_of x = fd) tab")
  case None
  then show ?thesis by (simp add: drop_fd_def entry_def)
next
  case (Some i)
  then have "i < length tab" "fd_of (tab ! i) = fd" by (simp_all add: first_index_Some_iff)
  with active_update [of i tab "clear (tab ! i)"] assms Some show ?thesis
    by (simp add: drop_fd_def entry_def clear_free)
qed

lemma active_le: "length (active tab) \<le> length tab"
  by (simp add: active_def)

lemma room_iff: "(\<exists>x \<in> set tab. fd_of x = 0) \<longleftrightarrow> length (active tab) < length tab"
  by (induction tab) (auto simp: active_def le_imp_less_Suc)

end

text \<open>Whether some entry has a property that a replaced entry lacks.\<close>

lemma Bex_update:
  assumes "i < length xs" "\<not> P (xs ! i)"
  shows "(\<exists>x \<in> set (xs[i := e]). P x) \<longleftrightarrow> P e \<or> (\<exists>x \<in> set xs. P x)"
proof -
  have "(\<exists>x \<in> set (xs[i := e]). P x) \<longleftrightarrow> (\<exists>k < length xs. P (if k = i then e else xs ! k))"
    by (auto simp: in_set_conv_nth Bex_def nth_list_update)
  also have "\<dots> \<longleftrightarrow> P e \<or> (\<exists>k < length xs. P (xs ! k))"
    using assms by auto
  also have "(\<exists>k < length xs. P (xs ! k)) \<longleftrightarrow> (\<exists>x \<in> set xs. P x)"
    by (metis in_set_conv_nth)
  finally show ?thesis .
qed

section \<open>Addresses by descriptor\<close>

definition MAX_ADDR_TRACK :: nat where [simp]: "MAX_ADDR_TRACK = 128"
definition MAX_BLOCKED_ADDR :: nat where [simp]: "MAX_BLOCKED_ADDR = 32"
definition ADDR_SIZE :: nat where [simp]: "ADDR_SIZE = 64"

record FdAddress =
  fa_fd :: int
  fa_addr :: string

definition no_address :: FdAddress where
  "no_address = \<lparr>fa_fd = 0, fa_addr = []\<rparr>"

definition fd_addr_set :: "int \<Rightarrow> string \<Rightarrow> FdAddress list \<Rightarrow> FdAddress list" where
  "fd_addr_set fd addr tab =
     (case first_index (\<lambda>e. fa_fd e = 0 \<or> fa_fd e = fd) tab of
        None \<Rightarrow> tab
      | Some i \<Rightarrow> tab[i := \<lparr>fa_fd = fd, fa_addr = snprintf ADDR_SIZE addr\<rparr>])"

definition fd_addr_get :: "int \<Rightarrow> FdAddress list \<Rightarrow> string" where
  "fd_addr_get fd tab =
     (case first_index (\<lambda>e. fa_fd e = fd) tab of None \<Rightarrow> ''client'' | Some i \<Rightarrow> fa_addr (tab ! i))"

definition fd_addr_remove :: "int \<Rightarrow> FdAddress list \<Rightarrow> FdAddress list" where
  "fd_addr_remove fd tab =
     (case first_index (\<lambda>e. fa_fd e = fd) tab of None \<Rightarrow> tab | Some i \<Rightarrow> tab[i := no_address])"

interpretation addrs: slot_table fa_fd "\<lambda>_. no_address"
  by unfold_locales (simp add: no_address_def)

lemma first_index_or:
  "\<forall>x \<in> set xs. \<not> Q x \<Longrightarrow> first_index (\<lambda>x. P x \<or> Q x) xs = first_index P xs"
  by (induction xs) auto

lemma fd_addr_set_put:
  "addrs.entry fd tab = None \<Longrightarrow>
   fd_addr_set fd addr tab = addrs.put \<lparr>fa_fd = fd, fa_addr = snprintf ADDR_SIZE addr\<rparr> tab"
  unfolding fd_addr_set_def addrs.put_def addrs.entry_None by (subst first_index_or) simp_all

lemma fd_addr_get_entry: "fd_addr_get fd tab = (case addrs.entry fd tab of None \<Rightarrow> ''client'' | Some e \<Rightarrow> fa_addr e)"
  by (simp add: fd_addr_get_def addrs.entry_def split: option.splits)

lemma fd_addr_remove_drop: "fd_addr_remove fd tab = addrs.drop_fd fd tab"
  by (simp add: fd_addr_remove_def addrs.drop_fd_def)

text \<open>
  The address of an accepted connection is the one that \<open>register_client\<close> will see, until the
  connection is closed; other connections keep theirs.
\<close>

lemma fd_addr_set_get:
  assumes "addrs.unique_fds tab" "addrs.entry fd tab = None" "fd \<noteq> 0" "fd' \<noteq> 0"
    and "length (addrs.active tab) < length tab"
  shows "fd_addr_get fd' (fd_addr_set fd addr tab) =
      (if fd' = fd then snprintf ADDR_SIZE addr else fd_addr_get fd' tab)"
    and "fd_addr_get fd' (fd_addr_remove fd (fd_addr_set fd addr tab)) = fd_addr_get fd' tab"
proof -
  let ?e = "\<lparr>fa_fd = fd, fa_addr = snprintf ADDR_SIZE addr\<rparr>"
  have room: "\<exists>x \<in> set tab. fa_fd x = 0" using assms(5) addrs.room_iff by blast
  have put: "addrs.entry k (addrs.put ?e tab) = (if k = fd then Some ?e else addrs.entry k tab)" if "k \<noteq> 0" for k
    using addrs.entry_put [OF assms(1), of ?e k] assms(2,3) room that by simp
  have u: "addrs.unique_fds (addrs.put ?e tab)"
    using addrs.unique_put [OF assms(1), of ?e] assms(2) by simp
  show "fd_addr_get fd' (fd_addr_set fd addr tab) =
      (if fd' = fd then snprintf ADDR_SIZE addr else fd_addr_get fd' tab)"
    using put [OF assms(4)] by (simp add: fd_addr_set_put [OF assms(2)] fd_addr_get_entry)
  show "fd_addr_get fd' (fd_addr_remove fd (fd_addr_set fd addr tab)) = fd_addr_get fd' tab"
    using addrs.entry_drop [OF u assms(4,3)] put [OF assms(4)] assms(2)
    by (simp add: fd_addr_set_put [OF assms(2)] fd_addr_get_entry fd_addr_remove_drop)
qed

section \<open>The block list\<close>

definition addr_blocked :: "string \<Rightarrow> string list \<Rightarrow> bool" where
  "addr_blocked addr blocked = (first_index (\<lambda>b. b = addr) blocked \<noteq> None)"

text \<open>\<open>block_addr\<close>: the new list, whether it returns 0, and the text.\<close>

definition block_addr :: "string option \<Rightarrow> string list \<Rightarrow> string list \<times> bool \<times> string" where
  "block_addr addr blocked =
     (case addr of
        None \<Rightarrow> (blocked, False, ''missing address'')
      | Some bs \<Rightarrow>
          let a = cstr bs in
          if a = [] then (blocked, False, ''missing address'')
          else if addr_blocked a blocked then (blocked, True, snprintf 256 (''address already blocked: '' @ a))
          else if MAX_BLOCKED_ADDR \<le> length blocked then (blocked, False, ''blocked address list is full'')
          else (blocked @ [snprintf ADDR_SIZE a], True, snprintf 256 (''blocked address: '' @ a)))"

lemma addr_blocked_iff: "addr_blocked a blocked \<longleftrightarrow> a \<in> set blocked"
  by (auto simp: addr_blocked_def first_index_None_iff dest: iffD1 [OF not_None_eq])

section \<open>The table of clients\<close>

definition new_client :: "int \<Rightarrow> int \<Rightarrow> string \<Rightarrow> 32 word \<Rightarrow> ClientInfo" where
  "new_client now fd addr client_id =
     \<lparr>ci_client_id = sint client_id, ci_fd = fd, ci_addr = snprintf ADDR_SIZE addr, ci_connected_at = now,
      ci_last_seen = now\<rparr>"

definition register_client :: "int \<Rightarrow> int \<Rightarrow> string \<Rightarrow> 32 word \<Rightarrow> SharedState \<Rightarrow> SharedState" where
  "register_client now fd addr client_id st =
     (case first_index (\<lambda>e. ci_fd e = 0) (clients st) of
        None \<Rightarrow> st
      | Some i \<Rightarrow> st\<lparr>clients := (clients st)[i := new_client now fd addr client_id],
                     client_count := client_count st + 1\<rparr>)"

definition client_remove_fd :: "int \<Rightarrow> SharedState \<Rightarrow> SharedState" where
  "client_remove_fd fd st =
     (case first_index (\<lambda>e. ci_fd e = fd) (clients st) of
        None \<Rightarrow> st
      | Some i \<Rightarrow> st\<lparr>clients := (clients st)[i := (clients st ! i)\<lparr>ci_fd := 0\<rparr>],
                     client_count := (if 0 < client_count st then client_count st - 1 else client_count st)\<rparr>)"

definition client_index :: "int \<Rightarrow> SharedState \<Rightarrow> nat option" where
  "client_index client_id st = first_index (\<lambda>e. ci_client_id e = client_id \<and> 0 < ci_fd e) (clients st)"

definition client_touch :: "int \<Rightarrow> 32 word \<Rightarrow> SharedState \<Rightarrow> SharedState" where
  "client_touch now client_id st =
     (case client_index (sint client_id) st of
        None \<Rightarrow> st
      | Some i \<Rightarrow> st\<lparr>clients := (clients st)[i := (clients st ! i)\<lparr>ci_last_seen := now\<rparr>]\<rparr>)"

definition is_registered_client :: "32 word \<Rightarrow> SharedState \<Rightarrow> bool" where
  "is_registered_client client_id st = (client_index (sint client_id) st \<noteq> None)"

definition client_fd_by_id :: "int \<Rightarrow> SharedState \<Rightarrow> int" where
  "client_fd_by_id client_id st =
     (case client_index client_id st of None \<Rightarrow> - 1 | Some i \<Rightarrow> ci_fd (clients st ! i))"

definition parse_client_id_payload :: "string option \<Rightarrow> int option" where
  "parse_client_id_payload payload =
     (case payload of
        None \<Rightarrow> None
      | Some bs \<Rightarrow>
          (case strtol (cstr bs) of
             None \<Rightarrow> None
           | Some (v, end, erange) \<Rightarrow>
               if erange \<or> end \<noteq> [] \<or> v \<le> 0 \<or> 1000000 < v then None else Some v))"

text \<open>The handling of \<open>OP_CONNECT\<close>: the next id is taken and registered for the descriptor.\<close>

definition connect_client :: "int \<Rightarrow> int \<Rightarrow> string \<Rightarrow> SharedState \<Rightarrow> SharedState \<times> 32 word" where
  "connect_client now fd addr st =
     (let cid = word_of_int (next_client_id st)
      in (register_client now fd addr cid (st\<lparr>next_client_id := next_client_id st + 1\<rparr>), cid))"

interpretation client_tab: slot_table ci_fd "\<lambda>e. e\<lparr>ci_fd := 0\<rparr>"
  by unfold_locales simp

lemma clients_register:
  "clients (register_client now fd addr cid st) = client_tab.put (new_client now fd addr cid) (clients st)"
  by (simp add: register_client_def client_tab.put_def split: option.splits)

lemma clients_remove: "clients (client_remove_fd fd st) = client_tab.drop_fd fd (clients st)"
  by (simp add: client_remove_fd_def client_tab.drop_fd_def split: option.splits)

lemma is_registered_iff:
  "is_registered_client cid st \<longleftrightarrow> (\<exists>e \<in> set (clients st). ci_client_id e = sint cid \<and> 0 < ci_fd e)"
  by (auto simp: is_registered_client_def client_index_def first_index_None_iff)

section \<open>The invariant of the client table\<close>

text \<open>
  The counter is the number of occupied slots, every occupied slot has a positive descriptor
  and an id that was handed out, and no id occurs twice.  A descriptor may occur twice:
  nothing stops a connection from sending CONNECT again.
\<close>

definition clients_ok :: "SharedState \<Rightarrow> bool" where
  "clients_ok st \<longleftrightarrow> length (clients st) = MAX_CLIENTS \<and> 1 \<le> next_client_id st \<and>
     client_count st = int (length (client_tab.active (clients st))) \<and>
     (\<forall>e \<in> set (clients st). ci_fd e \<noteq> 0 \<longrightarrow>
        0 < ci_fd e \<and> 0 < ci_client_id e \<and> ci_client_id e < next_client_id st) \<and>
     (\<forall>i < MAX_CLIENTS. \<forall>j < MAX_CLIENTS. ci_fd (clients st ! i) \<noteq> 0 \<and> ci_fd (clients st ! j) \<noteq> 0 \<and>
        ci_client_id (clients st ! i) = ci_client_id (clients st ! j) \<longrightarrow> i = j)"

definition free_slot :: "SharedState \<Rightarrow> bool" where
  "free_slot st \<longleftrightarrow> length (client_tab.active (clients st)) < MAX_CLIENTS"

lemma sint_of_id: "0 \<le> n \<Longrightarrow> n < 2 ^ 31 \<Longrightarrow> sint (word_of_int n :: 32 word) = n"
  by (simp add: signed_of_int signed_take_bit_int_eq_self)

lemma clients_ok_init: "clients_ok (state_init now)"
  by (simp add: clients_ok_def state_init_def zero_client_def client_tab.active_def)

lemma clients_ok_connect:
  assumes "clients_ok st" "0 < fd" "next_client_id st < 2 ^ 31"
  shows "clients_ok (fst (connect_client now fd addr st))"
proof -
  let ?n = "next_client_id st"
  let ?e = "new_client now fd addr (word_of_int ?n)"
  have sid: "ci_client_id ?e = ?n" "ci_fd ?e = fd"
    using sint_of_id [of ?n] assms by (simp_all add: new_client_def clients_ok_def)
  define st' where "st' = fst (connect_client now fd addr st)"
  have nx: "next_client_id st' = ?n + 1"
    by (simp add: st'_def connect_client_def register_client_def Let_def split: option.splits)
  show ?thesis
  proof (cases "first_index (\<lambda>e. ci_fd e = 0) (clients st)")
    case None
    then have "clients st' = clients st" "client_count st' = client_count st"
      by (simp_all add: st'_def connect_client_def register_client_def Let_def)
    with assms(1) nx show ?thesis
      unfolding st'_def [symmetric] clients_ok_def by fastforce
  next
    case (Some k)
    then have k: "k < length (clients st)" "ci_fd (clients st ! k) = 0"
      by (simp_all add: first_index_Some_iff)
    have st': "clients st' = (clients st)[k := ?e]" "client_count st' = client_count st + 1"
      using Some by (simp_all add: st'_def connect_client_def register_client_def Let_def)
    have old: "ci_fd e \<noteq> 0 \<longrightarrow> ci_client_id e \<noteq> ?n" if "e \<in> set (clients st)" for e
      using assms(1) that by (auto simp: clients_ok_def)
    have "int (length (client_tab.active (clients st'))) = client_count st + 1"
      using client_tab.active_update [OF k(1), of ?e] k(2) sid assms(1,2)
      by (simp add: st' clients_ok_def)
    moreover have "\<forall>e \<in> set (clients st'). ci_fd e \<noteq> 0 \<longrightarrow>
        0 < ci_fd e \<and> 0 < ci_client_id e \<and> ci_client_id e < next_client_id st'"
      using assms(1,2) sid nx unfolding st' clients_ok_def
      by (auto dest!: set_update_subset_insert [THEN subsetD])
    moreover have "i = j" if "i < MAX_CLIENTS" "j < MAX_CLIENTS" "ci_fd (clients st' ! i) \<noteq> 0"
      "ci_fd (clients st' ! j) \<noteq> 0" "ci_client_id (clients st' ! i) = ci_client_id (clients st' ! j)" for i j
    proof (cases "i = k \<or> j = k")
      case True
      have "length (clients st) = MAX_CLIENTS" using assms(1) by (simp add: clients_ok_def)
      with True that k(1) sid old [of "clients st ! i"] old [of "clients st ! j"] show ?thesis
        by (auto simp: st' nth_list_update split: if_splits)
    next
      case False
      with that assms(1) show ?thesis by (simp add: st' clients_ok_def)
    qed
    ultimately show ?thesis
      using assms(1) nx st' unfolding st'_def [symmetric] by (simp add: clients_ok_def)
  qed
qed

lemma clients_ok_remove:
  assumes "clients_ok st" "fd \<noteq> 0"
  shows "clients_ok (client_remove_fd fd st)"
proof (cases "first_index (\<lambda>e. ci_fd e = fd) (clients st)")
  case None
  with assms(1) show ?thesis by (simp add: client_remove_fd_def)
next
  case (Some k)
  let ?e = "(clients st ! k)\<lparr>ci_fd := 0\<rparr>"
  have k: "k < length (clients st)" "ci_fd (clients st ! k) = fd"
    using Some by (simp_all add: first_index_Some_iff)
  have "length (client_tab.active ((clients st)[k := ?e])) + 1 = length (client_tab.active (clients st))"
    using client_tab.active_update [OF k(1), of ?e] k(2) assms(2) by simp
  with assms(1) have cnt: "int (length (client_tab.active ((clients st)[k := ?e]))) = client_count st - 1"
    "0 < client_count st"
    unfolding clients_ok_def by linarith+
  have "ci_fd (((clients st)[k := ?e]) ! i) = (if i = k then 0 else ci_fd (clients st ! i))"
    "ci_client_id (((clients st)[k := ?e]) ! i) = ci_client_id (clients st ! i)" for i
    using k(1) by (simp_all add: nth_list_update)
  moreover have "\<forall>e \<in> set ((clients st)[k := ?e]). ci_fd e \<noteq> 0 \<longrightarrow> e \<in> set (clients st)"
    by (auto dest!: set_update_subset_insert [THEN subsetD])
  ultimately show ?thesis
    using assms(1) cnt Some unfolding client_remove_fd_def clients_ok_def by simp
qed

lemma clients_touch_same:
  "map (\<lambda>e. (ci_fd e, ci_client_id e)) (clients (client_touch now c st)) =
   map (\<lambda>e. (ci_fd e, ci_client_id e)) (clients st)"
proof (cases "client_index (sint c) st")
  case (Some i)
  then have "i < length (clients st)" by (simp add: client_index_def first_index_Some_iff)
  with Some show ?thesis by (auto simp: client_touch_def nth_list_update intro!: nth_equalityI)
qed (simp add: client_touch_def)

text \<open>Only descriptors and ids matter for the invariant.\<close>

lemma clients_ok_cong:
  assumes "map (\<lambda>e. (ci_fd e, ci_client_id e)) (clients st') = map (\<lambda>e. (ci_fd e, ci_client_id e)) (clients st)"
    and "client_count st' = client_count st" "next_client_id st' = next_client_id st" "clients_ok st"
  shows "clients_ok st'"
proof -
  have len: "length (clients st') = length (clients st)"
    using assms(1) by (metis length_map)
  have nth: "ci_fd (clients st' ! i) = ci_fd (clients st ! i)" "ci_client_id (clients st' ! i) = ci_client_id (clients st ! i)"
    if "i < length (clients st)" for i
    using arg_cong [OF assms(1), of "\<lambda>l. l ! i"] that len by simp_all
  have "length (client_tab.active xs) = length (filter (\<lambda>p. fst p \<noteq> 0) (map (\<lambda>e. (ci_fd e, ci_client_id e)) xs))" for xs
    by (induction xs) (simp_all add: client_tab.active_def)
  from this [of "clients st'"] this [of "clients st"]
  have "length (client_tab.active (clients st')) = length (client_tab.active (clients st))"
    by (simp only: assms(1))
  with assms(2-4) len nth show ?thesis
    by (auto simp: clients_ok_def all_set_conv_all_nth)
qed

lemma clients_ok_touch: "clients_ok st \<Longrightarrow> clients_ok (client_touch now c st)"
  by (rule clients_ok_cong [OF clients_touch_same]) (simp_all add: client_touch_def split: option.splits)

text \<open>The operations on the table as the interface thread and the worker issue them.\<close>

datatype session_op = Connect int int string | Leave int | Touch int "32 word"

fun apply_session_op :: "session_op \<Rightarrow> SharedState \<Rightarrow> SharedState" where
  "apply_session_op (Connect now fd addr) st = fst (connect_client now fd addr st)"
| "apply_session_op (Leave fd) st = client_remove_fd fd st"
| "apply_session_op (Touch now c) st = client_touch now c st"

fun session_op_ok :: "session_op \<Rightarrow> bool" where
  "session_op_ok (Connect now fd addr) \<longleftrightarrow> 0 < fd"
| "session_op_ok (Leave fd) \<longleftrightarrow> 0 < fd"
| "session_op_ok (Touch now c) \<longleftrightarrow> True"

lemma next_id_apply:
  "next_client_id st \<le> next_client_id (apply_session_op p st) \<and>
   next_client_id (apply_session_op p st) \<le> next_client_id st + 1"
  by (cases p) (auto simp: connect_client_def register_client_def client_remove_fd_def client_touch_def Let_def
      split: option.splits)

lemma clients_ok_apply:
  "clients_ok st \<Longrightarrow> session_op_ok p \<Longrightarrow> next_client_id st < 2 ^ 31 \<Longrightarrow> clients_ok (apply_session_op p st)"
  by (cases p) (simp_all add: clients_ok_connect clients_ok_remove clients_ok_touch)

lemma clients_ok_ops:
  "clients_ok st \<Longrightarrow> \<forall>p \<in> set ops. session_op_ok p \<Longrightarrow> next_client_id st + int (length ops) \<le> 2 ^ 31 \<Longrightarrow>
   clients_ok (fold apply_session_op ops st)"
proof (induction ops arbitrary: st)
  case (Cons p ops)
  then show ?case
    using clients_ok_apply [of st p] next_id_apply [of st p] by simp
qed simp

text \<open>
  Whatever clients connect, leave and send, in any order, the number of clients the
  reports show is the number of occupied slots, never more than there are, and the ids of
  the connected clients are distinct ids that were handed out.
\<close>

theorem clients_invariant:
  assumes "\<forall>p \<in> set ops. session_op_ok p" and "length ops < 2 ^ 31"
  shows "clients_ok (fold apply_session_op ops (state_init now)) \<and>
    client_count (fold apply_session_op ops (state_init now)) \<le> int MAX_CLIENTS"
proof -
  have "clients_ok (fold apply_session_op ops (state_init now))"
    using assms by (intro clients_ok_ops [OF clients_ok_init]) (simp_all add: state_init_def)
  moreover from this have "client_count (fold apply_session_op ops (state_init now)) \<le> int MAX_CLIENTS"
    using client_tab.active_le [of "clients (fold apply_session_op ops (state_init now))"]
    by (simp add: clients_ok_def)
  ultimately show ?thesis by simp
qed

section \<open>Who is registered\<close>

lemma free_slot_iff: "clients_ok st \<Longrightarrow> free_slot st \<longleftrightarrow> (\<exists>e \<in> set (clients st). ci_fd e = 0)"
  using client_tab.room_iff [of "clients st"] by (simp add: free_slot_def clients_ok_def)

lemma registered_connect:
  assumes "clients_ok st" "0 < fd" "connect_client now fd addr st = (st', new)"
  shows "is_registered_client c st' \<longleftrightarrow> is_registered_client c st \<or> (c = new \<and> free_slot st)"
proof -
  let ?e = "new_client now fd addr new"
  have st': "clients st' = client_tab.put ?e (clients st)"
    using assms(3) by (auto simp: connect_client_def Let_def clients_register)
  show ?thesis
  proof (cases "first_index (\<lambda>e. ci_fd e = 0) (clients st)")
    case None
    then have "clients st' = clients st" using st' by (simp add: client_tab.put_def)
    moreover have "\<not> free_slot st"
      using None free_slot_iff [OF assms(1)] by (simp add: first_index_None_iff)
    ultimately show ?thesis by (simp add: is_registered_iff)
  next
    case (Some i)
    then have i: "i < length (clients st)" "ci_fd (clients st ! i) = 0"
      by (simp_all add: first_index_Some_iff)
    then have "free_slot st" using free_slot_iff [OF assms(1)] nth_mem by blast
    moreover have "sint new = sint c \<longleftrightarrow> c = new"
      by (metis signed_word_eqI)
    ultimately show ?thesis
      using i Some st' assms(2) Bex_update [of i "clients st" "\<lambda>e. ci_client_id e = sint c \<and> 0 < ci_fd e" ?e]
      by (auto simp: is_registered_iff client_tab.put_def new_client_def)
  qed
qed

text \<open>
  CONNECT registers the new id exactly when a slot is free, for the descriptor of the
  connection, and changes nothing for the other clients.  Without a free slot the client
  is given an id all the same, which every later request will find unregistered.
\<close>

theorem connect_registers:
  assumes "clients_ok st" and "0 < fd" and "next_client_id st < 2 ^ 31"
    and "connect_client now fd addr st = (st', new)"
  shows "(\<forall>c. is_registered_client c st' \<longleftrightarrow> is_registered_client c st \<or> (c = new \<and> free_slot st)) \<and>
    \<not> is_registered_client new st \<and>
    client_fd_by_id (sint new) st' = (if free_slot st then fd else - 1)"
proof -
  have new: "sint new = next_client_id st"
    using assms sint_of_id [of "next_client_id st"]
    by (auto simp: connect_client_def Let_def clients_ok_def)
  have fresh: "\<forall>e \<in> set (clients st). ci_fd e \<noteq> 0 \<longrightarrow> ci_client_id e \<noteq> sint new"
    using assms(1) new by (auto simp: clients_ok_def)
  then have unreg: "\<not> is_registered_client new st"
    by (auto simp: is_registered_iff)
  moreover have "client_fd_by_id (sint new) st' = (if free_slot st then fd else - 1)"
  proof (cases "client_index (sint new) st'")
    case None
    then have "\<not> is_registered_client new st'" by (simp add: is_registered_client_def)
    with None registered_connect [OF assms(1,2,4)] show ?thesis by (simp add: client_fd_by_id_def)
  next
    case (Some k)
    then have k: "k < length (clients st')" "ci_client_id (clients st' ! k) = sint new" "0 < ci_fd (clients st' ! k)"
      by (simp_all add: client_index_def first_index_Some_iff)
    have st': "clients st' = client_tab.put (new_client now fd addr new) (clients st)"
      using assms(4) by (auto simp: connect_client_def Let_def clients_register)
    have "clients st' ! k \<in> insert (new_client now fd addr new) (set (clients st))"
      using k(1) nth_mem client_tab.set_put unfolding st' by blast
    then have "ci_fd (clients st' ! k) = fd"
      using k(2,3) fresh by (auto simp: new_client_def)
    moreover have "free_slot st"
      using registered_connect [OF assms(1,2,4), of new] Some unreg by (simp add: is_registered_client_def)
    ultimately show ?thesis using Some by (simp add: client_fd_by_id_def)
  qed
  ultimately show ?thesis using registered_connect [OF assms(1,2,4)] by blast
qed

text \<open>Where CONNECT finds a free slot, and what leaving then clears.\<close>

lemma connect_slot:
  assumes "clients_ok st" "free_slot st" "connect_client now fd addr st = (st', new)"
  obtains i where "first_index (\<lambda>e. ci_fd e = 0) (clients st) = Some i" "i < length (clients st)"
    "ci_fd (clients st ! i) = 0" "\<And>j. j < i \<Longrightarrow> ci_fd (clients st ! j) \<noteq> 0"
    "clients st' = (clients st)[i := new_client now fd addr new]" "client_count st' = client_count st + 1"
proof -
  obtain i where i: "first_index (\<lambda>e. ci_fd e = 0) (clients st) = Some i"
    using assms(1,2) free_slot_iff
    by (cases "first_index (\<lambda>e. ci_fd e = 0) (clients st)") (auto simp: first_index_None_iff)
  moreover from this have "i < length (clients st)" "ci_fd (clients st ! i) = 0"
    "\<And>j. j < i \<Longrightarrow> ci_fd (clients st ! j) \<noteq> 0"
    by (simp_all add: first_index_Some_iff)
  moreover have "clients st' = (clients st)[i := new_client now fd addr new]" "client_count st' = client_count st + 1"
    using assms(3) i by (auto simp: connect_client_def Let_def register_client_def)
  ultimately show thesis by (rule that)
qed

lemma remove_slot:
  assumes "first_index (\<lambda>e. ci_fd e = fd) (clients st) = Some i" "0 < client_count st"
  shows "clients (client_remove_fd fd st) = (clients st)[i := (clients st ! i)\<lparr>ci_fd := 0\<rparr>]"
    "client_count (client_remove_fd fd st) = client_count st - 1"
  using assms by (simp_all add: client_remove_fd_def)

text \<open>
  A connection that sends CONNECT once and then goes leaves no trace: the same clients
  are registered as before, and the counter is the same.
\<close>

theorem connect_then_leave:
  assumes "clients_ok st" and "0 < fd" and "\<forall>e \<in> set (clients st). ci_fd e \<noteq> fd"
    and "connect_client now fd addr st = (st', new)"
  shows "(\<forall>c. is_registered_client c (client_remove_fd fd st') \<longleftrightarrow> is_registered_client c st) \<and>
    client_count (client_remove_fd fd st') = client_count st"
proof (cases "free_slot st")
  case False
  then have "first_index (\<lambda>e. ci_fd e = 0) (clients st) = None"
    using free_slot_iff [OF assms(1)] by (simp add: first_index_None_iff)
  then have same: "clients st' = clients st" "client_count st' = client_count st"
    using assms(4) by (auto simp: connect_client_def Let_def register_client_def)
  then have "client_remove_fd fd st' = st'"
    using assms(3) by (simp add: client_remove_fd_def iffD2 [OF first_index_None_iff])
  with same show ?thesis by (simp add: is_registered_iff)
next
  case True
  let ?e = "new_client now fd addr new"
  obtain i where i: "i < length (clients st)" "ci_fd (clients st ! i) = 0"
    and st': "clients st' = (clients st)[i := ?e]" "client_count st' = client_count st + 1"
    using connect_slot [OF assms(1) True assms(4)] by metis
  have "first_index (\<lambda>e. ci_fd e = fd) (clients st') = Some i"
    using i assms(3) unfolding st'(1) first_index_Some_iff by (auto simp: nth_list_update new_client_def)
  note rm = remove_slot [OF this]
  have cnt: "0 \<le> client_count st" using assms(1) by (simp add: clients_ok_def)
  have "clients (client_remove_fd fd st') = (clients st)[i := ?e\<lparr>ci_fd := 0\<rparr>]"
    using rm(1) cnt st' i(1) by simp
  then have "is_registered_client c (client_remove_fd fd st') \<longleftrightarrow> is_registered_client c st" for c
    using Bex_update [OF i(1), of "\<lambda>e. ci_client_id e = sint c \<and> 0 < ci_fd e" "?e\<lparr>ci_fd := 0\<rparr>"] i(2)
    by (simp add: is_registered_iff)
  with rm(2) cnt st' show ?thesis by simp
qed

text \<open>
  C34: a connection that sends CONNECT twice leaks a slot.  When it goes, only the first of
  its two ids is cleared: the second stays registered for a descriptor that is closed, and
  counts as a connected client.
\<close>

theorem double_connect_leaks:
  assumes "clients_ok st" and "0 < fd" and "\<forall>e \<in> set (clients st). ci_fd e \<noteq> fd"
    and "next_client_id st < 2 ^ 31" and "int MAX_CLIENTS \<ge> client_count st + 2"
    and "connect_client now fd addr st = (st1, a)" and "connect_client now' fd addr' st1 = (st2, b)"
  shows "is_registered_client b (client_remove_fd fd st2) \<and>
    client_count (client_remove_fd fd st2) = client_count st + 1"
proof -
  have ok1: "clients_ok st1" using clients_ok_connect [OF assms(1,2,4), of now addr] assms(6) by simp
  have free: "free_slot st" using assms(1,5) by (simp add: free_slot_def clients_ok_def)
  obtain i where i: "i < length (clients st)" "ci_fd (clients st ! i) = 0"
    "\<And>j. j < i \<Longrightarrow> ci_fd (clients st ! j) \<noteq> 0"
    and st1: "clients st1 = (clients st)[i := new_client now fd addr a]" "client_count st1 = client_count st + 1"
    using connect_slot [OF assms(1) free assms(6)] by metis
  have free1: "free_slot st1" using ok1 assms(5) st1(2) by (simp add: free_slot_def clients_ok_def)
  obtain j where j: "j < length (clients st1)" "ci_fd (clients st1 ! j) = 0"
    and st2: "clients st2 = (clients st1)[j := new_client now' fd addr' b]" "client_count st2 = client_count st1 + 1"
    using connect_slot [OF ok1 free1 assms(7)] by metis
  have "i < j"
  proof (rule ccontr)
    assume "\<not> i < j"
    then have "j < i \<or> j = i" by arith
    then show False
      using j(2) i assms(2) by (auto simp: st1 new_client_def)
  qed
  have "first_index (\<lambda>e. ci_fd e = fd) (clients st2) = Some i"
    using i \<open>i < j\<close> assms(3) unfolding st2(1) st1(1) first_index_Some_iff
    by (auto simp: nth_list_update new_client_def)
  note rm = remove_slot [OF this]
  have cnt: "0 \<le> client_count st" using assms(1) by (simp add: clients_ok_def)
  have "clients (client_remove_fd fd st2) ! j = new_client now' fd addr' b"
    using rm(1) cnt st1 st2 j(1) \<open>i < j\<close> by simp
  moreover have "j < length (clients (client_remove_fd fd st2))"
    using rm(1) cnt st1 st2 j(1) by simp
  ultimately have "new_client now' fd addr' b \<in> set (clients (client_remove_fd fd st2))"
    by (metis nth_mem)
  then have "is_registered_client b (client_remove_fd fd st2)"
    unfolding is_registered_iff
    by (rule rev_bexI) (simp add: new_client_def assms(2))
  with rm(2) cnt st1 st2 show ?thesis by simp
qed

text \<open>
  The administrator's block list.  Blocking an address that fits its entry makes
  connections from it refused from then on, and no other address; blocking it again adds
  nothing; an earlier entry is never lost.
\<close>

theorem block_addr_blocks:
  assumes "block_addr (Some addr) blocked = (blocked', True, msg)" and "length (cstr addr) < ADDR_SIZE"
  shows "(\<forall>x. addr_blocked x blocked' \<longleftrightarrow> addr_blocked x blocked \<or> x = cstr addr) \<and>
    block_addr (Some addr) blocked' = (blocked', True, snprintf 256 (''address already blocked: '' @ cstr addr)) \<and>
    (length blocked \<le> MAX_BLOCKED_ADDR \<longrightarrow> length blocked' \<le> MAX_BLOCKED_ADDR) \<and>
    (distinct blocked \<longrightarrow> distinct blocked')"
proof (cases "addr_blocked (cstr addr) blocked")
  case True
  with assms show ?thesis by (auto simp: block_addr_def Let_def split: if_splits)
next
  case False
  with assms have "blocked' = blocked @ [cstr addr]" "cstr addr \<noteq> []" "length blocked < MAX_BLOCKED_ADDR"
    by (auto simp: block_addr_def Let_def snprintf_fits split: if_splits)
  with False show ?thesis
    by (auto simp: block_addr_def Let_def addr_blocked_iff)
qed

text \<open>
  An address of 64 or more characters is stored cut off: it is reported as blocked, but the
  list does not recognise it.
\<close>

lemma block_addr_long:
  assumes "64 \<le> length a" "NUL \<notin> set a"
  shows "\<exists>msg. block_addr (Some a) [] = ([take 63 a], True, msg) \<and> \<not> addr_blocked a [take 63 a]"
proof -
  have "a \<noteq> take 63 a"
  proof
    assume eq: "a = take 63 a"
    have "length a = length (take 63 a)" by (rule arg_cong [OF eq])
    also have "\<dots> \<le> 63" by simp
    finally show False using assms(1) by linarith
  qed
  then have "\<not> addr_blocked a [take 63 a]" by (simp only: addr_blocked_iff) auto
  moreover have "block_addr (Some a) [] = ([snprintf ADDR_SIZE a], True, snprintf 256 (''blocked address: '' @ a))"
    using assms by (auto simp: block_addr_def Let_def cstr_id addr_blocked_iff simp del: ADDR_SIZE_def)
  moreover have "snprintf ADDR_SIZE a = take 63 a" by (simp add: snprintf_def)
  ultimately show ?thesis by auto
qed

section \<open>Witnesses\<close>

text \<open>Two clients of which one leaves, and a connection that connects twice.\<close>

definition two_sessions :: "session_op list" where
  "two_sessions = [Connect 1 4 ''10.0.0.1'', Connect 2 5 ''10.0.0.2'', Touch 3 2, Leave 4]"

theorem clients_invariant_witness:
  "clients_ok (fold apply_session_op two_sessions (state_init 0)) \<and> length two_sessions = 4"
  using clients_invariant [of two_sessions 0] by (simp add: two_sessions_def)

lemma init_clients: "clients (state_init 0) = replicate 128 zero_client" "client_count (state_init 0) = 0"
  "next_client_id (state_init 0) = 1"
  by (simp_all add: state_init_def)

lemma init_no_fd: "0 < fd \<Longrightarrow> \<forall>e \<in> set (clients (state_init 0)). ci_fd e \<noteq> fd"
  by (simp add: init_clients zero_client_def)

lemma init_free: "free_slot (state_init 0)"
  by (simp add: free_slot_def init_clients client_tab.active_def zero_client_def)

lemma init_connect: "snd (connect_client now fd addr (state_init 0)) = 1"
  by (simp add: connect_client_def Let_def init_clients)

theorem connect_registers_witness:
  "is_registered_client 1 (fst (connect_client 7 4 ''10.0.0.1'' (state_init 0)))"
proof -
  obtain st' where c: "connect_client 7 4 ''10.0.0.1'' (state_init 0) = (st', 1)"
    using init_connect [of 7 4 "''10.0.0.1''"] by (metis prod.collapse)
  with connect_registers [OF clients_ok_init _ _ c] init_free show ?thesis
    by (simp add: init_clients)
qed

theorem connect_then_leave_witness:
  "client_count (client_remove_fd 4 (fst (connect_client 7 4 ''10.0.0.1'' (state_init 0)))) = 0"
  using connect_then_leave [OF clients_ok_init _ init_no_fd surjective_pairing, of 4 7 "''10.0.0.1''"]
  by (simp add: init_clients)

theorem double_connect_leaks_witness:
  "\<exists>b. is_registered_client b
    (client_remove_fd 4 (fst (connect_client 8 4 ''x'' (fst (connect_client 7 4 ''x'' (state_init 0))))))"
  using double_connect_leaks [OF clients_ok_init _ init_no_fd _ _ surjective_pairing surjective_pairing,
      of 4 8 "''x''" 7 "''x''"]
  by (auto simp: init_clients)

theorem block_addr_blocks_witness:
  "addr_blocked ''10.0.0.9'' (fst (block_addr (Some ''10.0.0.9'') [''10.0.0.1'']))"
proof -
  have c: "cstr ''10.0.0.9'' = ''10.0.0.9''" by (simp add: cstr_def)
  then have "block_addr (Some ''10.0.0.9'') [''10.0.0.1''] =
      ([''10.0.0.1'', ''10.0.0.9''], True, snprintf 256 (''blocked address: '' @ ''10.0.0.9''))"
    by (simp add: block_addr_def addr_blocked_iff snprintf_def Let_def)
  with block_addr_blocks [OF this] c show ?thesis by simp
qed

end
