(* ===== verification/Reports.thy ===== *)
theory Reports
  imports Jobs Sessions "HOL-Library.Signed_Division"
begin

text \<open>
  The reports of the administrator: \<open>admin_report\<close> of \<open>src/model.c\<close>, as the sequence of
  its \<open>appendf\<close> calls, against the lines each category consists of.
\<close>

section \<open>The report\<close>

abbreviation newline :: string where
  "newline \<equiv> [CHR 0x0A]"

definition client_line :: "int \<Rightarrow> ClientInfo \<Rightarrow> string" where
  "client_line now e =
     ''client='' @ sdec (ci_client_id e) @ '' fd='' @ sdec (ci_fd e) @ '' addr='' @ ci_addr e @ '' idle='' @
     sdec (now - ci_last_seen e) @ ''s'' @ newline"

definition table_line :: "Table \<Rightarrow> string" where
  "table_line t =
     tab_name t @ '': '' @ sdec (int (length (columns t))) @ '' columns, '' @ sdec (int (length (rows t))) @
     '' rows'' @ newline"

definition job_line :: "JobInfo \<Rightarrow> string" where
  "job_line job =
     ''job='' @ sdec (ji_job_id job) @ '' client='' @ sdec (ji_client_id job) @ '' op='' @ sdec (ji_op_id job) @
     '' status='' @ status_text (ji_status job) @ newline"

text \<open>A loop that appends the line of every element that satisfies a condition.\<close>

definition append_lines :: "nat \<Rightarrow> ('a \<Rightarrow> bool) \<Rightarrow> ('a \<Rightarrow> string) \<Rightarrow> 'a list \<Rightarrow> string \<Rightarrow> string" where
  "append_lines out_len P line xs out =
     foldl (\<lambda>out x. if P x then appendf out_len (line x) out else out) out xs"

definition commands_text :: "SharedState \<Rightarrow> string" where
  "commands_text st =
     ''Total commands: '' @ sdec (total_commands st) @ newline @
     ''Insert commands: '' @ sdec (insert_commands st) @ newline @
     ''Failed commands: '' @ sdec (failed_commands st) @ newline @
     ''Cancelled commands: '' @ sdec (cancelled_commands st) @ newline"

definition active_text :: "int \<Rightarrow> SharedState \<Rightarrow> string" where
  "active_text now st =
     (if 0 < active_client_id st
      then ''Active command: client='' @ sdec (active_client_id st) @ '' op='' @ sdec (active_op_id st) @
           '' running='' @ sdec (now - active_started_at st) @ ''s'' @ newline
      else ''Active command: none'' @ newline)"

text \<open>The quotient is that of C, which truncates towards zero.\<close>

definition average_ms :: "SharedState \<Rightarrow> int" where
  "average_ms st = (if total_commands st \<noteq> 0 then total_exec_ms st sdiv total_commands st else 0)"

definition admin_report :: "int \<Rightarrow> SharedState \<Rightarrow> string \<Rightarrow> nat \<Rightarrow> string" where
  "admin_report now st category out_len =
     (if category = ''clients'' then
        append_lines out_len (\<lambda>e. 0 < ci_fd e) (client_line now) (clients st)
          (appendf out_len (''Connected ordinary clients: '' @ sdec (client_count st) @ newline) [])
      else if category = ''commands'' then
        appendf out_len (active_text now st) (appendf out_len (commands_text st) [])
      else if category = ''avg'' then
        appendf out_len (''Average execution time: '' @ sdec (average_ms st) @ '' ms'' @ newline) []
      else if category = ''history'' then
        append_lines out_len (\<lambda>_. True) (\<lambda>l. l @ newline) (recent_history st)
          (appendf out_len (''Recent history:'' @ newline) [])
      else if category = ''tables'' then
        append_lines out_len (\<lambda>_. True) table_line (tables st)
          (appendf out_len (''Tables loaded: '' @ sdec (int (length (tables st))) @ newline) [])
      else if category = ''queue'' then
        (let out = appendf out_len (''Ordinary request queue depth: '' @ sdec (queue_depth st) @ newline) [] in
         if 0 < cancel_client_id st
         then appendf out_len (''Pending cancellation for client: '' @ sdec (cancel_client_id st) @ newline) out
         else out)
      else if category = ''jobs'' then
        append_lines out_len (\<lambda>job. 0 < ji_job_id job) job_line (jobs st)
          (appendf out_len (''Recent processing jobs:'' @ newline) [])
      else appendf out_len (''Unknown category. Use: clients, commands, avg, history, tables, queue, jobs'' @ newline) [])"

section \<open>The lines of a report\<close>

definition report_lines :: "int \<Rightarrow> SharedState \<Rightarrow> string \<Rightarrow> string list" where
  "report_lines now st category =
     (if category = ''clients'' then
        (''Connected ordinary clients: '' @ sdec (client_count st) @ newline) #
        map (client_line now) (filter (\<lambda>e. 0 < ci_fd e) (clients st))
      else if category = ''commands'' then [commands_text st, active_text now st]
      else if category = ''avg'' then [''Average execution time: '' @ sdec (average_ms st) @ '' ms'' @ newline]
      else if category = ''history'' then
        (''Recent history:'' @ newline) # map (\<lambda>l. l @ newline) (recent_history st)
      else if category = ''tables'' then
        (''Tables loaded: '' @ sdec (int (length (tables st))) @ newline) # map table_line (tables st)
      else if category = ''queue'' then
        (''Ordinary request queue depth: '' @ sdec (queue_depth st) @ newline) #
        (if 0 < cancel_client_id st
         then [''Pending cancellation for client: '' @ sdec (cancel_client_id st) @ newline] else [])
      else if category = ''jobs'' then
        (''Recent processing jobs:'' @ newline) # map job_line (filter (\<lambda>job. 0 < ji_job_id job) (jobs st))
      else [''Unknown category. Use: clients, commands, avg, history, tables, queue, jobs'' @ newline])"

lemma append_lines_eq:
  "length out < n \<Longrightarrow> append_lines n P line xs out = appendf n (concat (map line (filter P xs))) out"
proof (induction xs arbitrary: out)
  case Nil
  then show ?case by (simp add: append_lines_def appendf_fits)
next
  case (Cons x xs)
  have "append_lines n P line (x # xs) out =
      append_lines n P line xs (if P x then appendf n (line x) out else out)"
    by (simp add: append_lines_def)
  with Cons show ?case by (simp add: appendf_length appendf_append)
qed

lemma admin_report_eq:
  assumes "0 < n"
  shows "admin_report now st category n = take (n - 1) (concat (report_lines now st category))"
proof -
  have e: "length ([] :: string) < n" using assms by simp
  have "admin_report now st category n = appendf n (concat (report_lines now st category)) []"
    using e unfolding admin_report_def report_lines_def
    by (simp add: append_lines_eq appendf_length appendf_append Let_def)
  then show ?thesis using appendf_fits [OF e] by simp
qed

text \<open>
  A report consists of the lines of its category, in order, cut to the buffer: one line
  per connected client, per table, per recorded job, and the recent history.
\<close>

theorem admin_report_lines:
  assumes "0 < n"
  shows "admin_report now st category n = take (n - 1) (concat (report_lines now st category))"
  using assms by (rule admin_report_eq)

theorem admin_report_lines_witness:
  "admin_report 5 (state_init 0) ''queue'' 20 = ''Ordinary request qu''"
  using admin_report_lines [of 20 5 "state_init 0" "''queue''"]
  by (simp add: report_lines_def)

lemma length_concat_bound: "\<forall>x \<in> set xs. length x \<le> m \<Longrightarrow> length (concat xs) \<le> length xs * m"
  by (induction xs) auto

definition REPORT_SIZE :: nat where [simp]: "REPORT_SIZE = 65536"

text \<open>
  The history report is never cut, and shows the last \<open>MAX_HISTORY\<close> events recorded.
\<close>

theorem history_report_complete:
  "admin_report now (fold history_add events (state_init t)) ''history'' REPORT_SIZE =
   concat ((''Recent history:'' @ newline) #
     map (\<lambda>l. l @ newline) (drop (length events - MAX_HISTORY) (map (snprintf MAX_COMMAND) events)))"
proof -
  let ?log = "drop (length events - MAX_HISTORY) (map (snprintf MAX_COMMAND) events)"
  let ?st = "fold history_add events (state_init t)"
  have rec: "recent_history ?st = ?log"
    using recent_history_log [OF history_log_fold [OF history_log_init [of t], of events]] by simp
  have "\<forall>x \<in> set (map (\<lambda>l. l @ newline) ?log). length x \<le> 128"
    by (auto dest!: in_set_dropD)
  from length_concat_bound [OF this]
  have "length (concat (map (\<lambda>l. l @ newline) ?log)) \<le> length ?log * 128" by simp
  also have "\<dots> \<le> 128 * 128" by simp
  finally have "length (concat (report_lines now ?st ''history'')) < REPORT_SIZE"
    by (simp add: report_lines_def rec)
  then show ?thesis
    using admin_report_eq [of REPORT_SIZE now ?st "''history''"]
    by (simp add: report_lines_def rec)
qed

end
