(* ===== verification/Config.thy ===== *)
theory Config
  imports Protocol
begin

text \<open>
  The configuration of the server: \<open>parse_number\<close>, \<open>apply_port_value\<close>,
  \<open>apply_timeout_value\<close>, \<open>cfg_defaults\<close>, \<open>cfg_read_config_path\<close>, \<open>cfg_load_file\<close> in both of
  its variants, \<open>cfg_apply_env\<close>, \<open>cfg_apply_args\<close> and \<open>cfg_load\<close> of \<open>src/server.c\<close>.  The
  environment, the files and libconfig are arguments; argv is the list behind the program
  name.
\<close>

section \<open>Values\<close>

record RuntimeConfig =
  server_port :: "16 word"
  admin_port :: "16 word"
  admin_timeout_sec :: int
  config_path :: string

definition DEFAULT_ADMIN_TIMEOUT_SEC :: int where [simp]: "DEFAULT_ADMIN_TIMEOUT_SEC = 60"

definition parse_number :: "string \<Rightarrow> int \<Rightarrow> int \<Rightarrow> int option" where
  "parse_number s mn mx =
     (case strtol s of
        None \<Rightarrow> None
      | Some (parsed, end, erange) \<Rightarrow>
          if erange \<or> end \<noteq> [] \<or> parsed < mn \<or> mx < parsed then None else Some parsed)"

definition apply_port_value :: "string \<Rightarrow> 16 word \<Rightarrow> 16 word" where
  "apply_port_value s target =
     (case parse_number s 1 65535 of None \<Rightarrow> target | Some parsed \<Rightarrow> word_of_int parsed)"

definition apply_timeout_value :: "string \<Rightarrow> int \<Rightarrow> int" where
  "apply_timeout_value s target =
     (case parse_number s 1 86400 of None \<Rightarrow> target | Some parsed \<Rightarrow> parsed)"

section \<open>Sources of the configuration\<close>

definition cfg_defaults :: RuntimeConfig where
  "cfg_defaults = \<lparr>server_port = SQLCG_PORT, admin_port = SQLCG_ADMIN_PORT,
     admin_timeout_sec = DEFAULT_ADMIN_TIMEOUT_SEC, config_path = ''config.cfg''\<rparr>"

fun path_from_args :: "string list \<Rightarrow> string \<Rightarrow> string" where
  "path_from_args [] path = path"
| "path_from_args [a] path = path"
| "path_from_args (a # v # args) path =
     (if a = ''-c'' \<or> a = ''--config'' then path_from_args args (snprintf 256 v)
      else path_from_args (v # args) path)"

definition cfg_read_config_path :: "(string \<Rightarrow> string option) \<Rightarrow> string list \<Rightarrow> RuntimeConfig \<Rightarrow> RuntimeConfig" where
  "cfg_read_config_path getenv args cfg =
     (let path = (case getenv ''CONFIG_PATH'' of
                    Some p \<Rightarrow> if p \<noteq> [] then snprintf 256 p else config_path cfg
                  | None \<Rightarrow> config_path cfg)
      in cfg\<lparr>config_path := path_from_args args path\<rparr>)"

text \<open>With libconfig: whether the file can be read, and \<open>config_lookup_int\<close>.\<close>

record libconfig =
  lc_read_file :: "string \<Rightarrow> bool"
  lc_lookup_int :: "string \<Rightarrow> string \<Rightarrow> int option"

definition cfg_load_libconfig :: "libconfig \<Rightarrow> RuntimeConfig \<Rightarrow> RuntimeConfig" where
  "cfg_load_libconfig L cfg =
     (if \<not> lc_read_file L (config_path cfg) then cfg
      else
        (let look = lc_lookup_int L (config_path cfg);
             cfg = (case look ''server.port'' of
                      Some v \<Rightarrow> if 0 < v \<and> v \<le> 65535 then cfg\<lparr>server_port := word_of_int v\<rparr> else cfg
                    | None \<Rightarrow> cfg);
             cfg = (case look ''server.admin_port'' of
                      Some v \<Rightarrow> if 0 < v \<and> v \<le> 65535 then cfg\<lparr>admin_port := word_of_int v\<rparr> else cfg
                    | None \<Rightarrow> cfg)
         in (case look ''server.admin_timeout'' of
               Some v \<Rightarrow> if 0 < v then cfg\<lparr>admin_timeout_sec := v\<rparr> else cfg
             | None \<Rightarrow> cfg)))"

text \<open>Without libconfig: the lines \<open>fgets\<close> reads into \<open>char line[256]\<close>.\<close>

fun strstr :: "string \<Rightarrow> string \<Rightarrow> bool" where
  "strstr [] needle = (needle = [])"
| "strstr (c # hay) needle = (take (length needle) (c # hay) = needle \<or> strstr hay needle)"

text \<open>A setting is a text for one of the three values; a bad text is ignored.\<close>

datatype setting = Port string | AdminPort string | AdminTimeout string

fun apply_setting :: "RuntimeConfig \<Rightarrow> setting \<Rightarrow> RuntimeConfig" where
  "apply_setting cfg (Port s) = cfg\<lparr>server_port := apply_port_value s (server_port cfg)\<rparr>"
| "apply_setting cfg (AdminPort s) = cfg\<lparr>admin_port := apply_port_value s (admin_port cfg)\<rparr>"
| "apply_setting cfg (AdminTimeout s) = cfg\<lparr>admin_timeout_sec := apply_timeout_value s (admin_timeout_sec cfg)\<rparr>"

definition line_setting :: "string \<Rightarrow> setting option" where
  "line_setting line =
     (if CHR ''='' \<notin> set line then None
      else
        (let eq = dropWhile (\<lambda>c. c = CHR '' '' \<or> c = CHR 0x09) (tl (dropWhile (\<lambda>c. c \<noteq> CHR ''='') line));
             s = takeWhile (\<lambda>c. c \<notin> {CHR '';'', CHR '' '', CHR 0x09, CHR 0x0D, CHR 0x0A}) eq
         in if s = [] \<or> 64 \<le> length s then None
            else if strstr line ''admin_port'' then Some (AdminPort s)
            else if strstr line ''admin_timeout'' then Some (AdminTimeout s)
            else if strstr line ''port'' then Some (Port s)
            else None))"

definition apply_line :: "RuntimeConfig \<Rightarrow> string \<Rightarrow> RuntimeConfig" where
  "apply_line cfg line = (case line_setting line of None \<Rightarrow> cfg | Some s \<Rightarrow> apply_setting cfg s)"

definition cfg_load_lines :: "(string \<Rightarrow> string option) \<Rightarrow> RuntimeConfig \<Rightarrow> RuntimeConfig" where
  "cfg_load_lines fopen cfg =
     (case fopen (config_path cfg) of
        None \<Rightarrow> cfg
      | Some content \<Rightarrow> foldl apply_line cfg (file_lines 256 content))"

definition apply_env_value :: "(string \<Rightarrow> setting) \<Rightarrow> string option \<Rightarrow> RuntimeConfig \<Rightarrow> RuntimeConfig" where
  "apply_env_value mk s cfg = (case s of None \<Rightarrow> cfg | Some s \<Rightarrow> apply_setting cfg (mk s))"

definition cfg_apply_env :: "(string \<Rightarrow> string option) \<Rightarrow> RuntimeConfig \<Rightarrow> RuntimeConfig" where
  "cfg_apply_env getenv cfg =
     (let cfg = apply_env_value Port (getenv ''SERVER_PORT'') cfg;
          cfg = apply_env_value AdminPort (getenv ''ADMIN_PORT'') cfg
      in apply_env_value AdminTimeout (getenv ''ADMIN_TIMEOUT'') cfg)"

text \<open>The return value is 0, 1 after \<open>--help\<close>, -1 for a usage error.\<close>

fun cfg_apply_args :: "RuntimeConfig \<Rightarrow> string list \<Rightarrow> RuntimeConfig \<times> int" where
  "cfg_apply_args cfg [] = (cfg, 0)"
| "cfg_apply_args cfg [a] =
     (if a = ''-h'' \<or> a = ''--help'' then (cfg, 1)
      else if a = ''-c'' \<or> a = ''--config'' then (cfg, 0)
      else (cfg, - 1))"
| "cfg_apply_args cfg (a # v # args) =
     (if a = ''-h'' \<or> a = ''--help'' then (cfg, 1)
      else if a = ''-c'' \<or> a = ''--config'' then cfg_apply_args cfg args
      else if a = ''-p'' \<or> a = ''--port'' then cfg_apply_args (apply_setting cfg (Port v)) args
      else if a = ''-a'' \<or> a = ''--admin-port'' then cfg_apply_args (apply_setting cfg (AdminPort v)) args
      else if a = ''-t'' \<or> a = ''--admin-timeout'' then cfg_apply_args (apply_setting cfg (AdminTimeout v)) args
      else (cfg, - 1))"

definition cfg_load ::
  "(RuntimeConfig \<Rightarrow> RuntimeConfig) \<Rightarrow> (string \<Rightarrow> string option) \<Rightarrow> string list \<Rightarrow> RuntimeConfig \<times> int" where
  "cfg_load load_file getenv args =
     (let cfg = cfg_read_config_path getenv args cfg_defaults;
          cfg = load_file cfg;
          cfg = cfg_apply_env getenv cfg
      in cfg_apply_args cfg args)"

section \<open>Every configuration is usable\<close>

text \<open>Both ports are in 1..65535, and the timeout is at least a second.\<close>

definition cfg_ok :: "RuntimeConfig \<Rightarrow> bool" where
  "cfg_ok cfg \<longleftrightarrow> server_port cfg \<noteq> 0 \<and> admin_port cfg \<noteq> 0 \<and> 1 \<le> admin_timeout_sec cfg"

text \<open>What \<open>cfg_load\<close> asks of either variant of \<open>cfg_load_file\<close>.\<close>

locale config_source =
  fixes load_file :: "RuntimeConfig \<Rightarrow> RuntimeConfig"
  assumes load_ok: "cfg_ok cfg \<Longrightarrow> cfg_ok (load_file cfg)"
    and load_path: "config_path (load_file cfg) = config_path cfg"

lemma port_word: "1 \<le> p \<Longrightarrow> p \<le> 65535 \<Longrightarrow> (word_of_int p :: 16 word) \<noteq> 0"
proof
  assume p: "1 \<le> p" "p \<le> 65535" and z: "(word_of_int p :: 16 word) = 0"
  have "uint (word_of_int p :: 16 word) = p"
    using p by (simp add: unsigned_of_int take_bit_int_eq_self)
  with z p show False by simp
qed

lemma parse_number_SomeD:
  "parse_number s mn mx = Some p \<Longrightarrow> mn \<le> p" "parse_number s mn mx = Some p \<Longrightarrow> p \<le> mx"
  by (auto simp: parse_number_def split: option.splits if_splits)

lemma apply_values_ok:
  "t \<noteq> 0 \<Longrightarrow> apply_port_value s t \<noteq> 0" "1 \<le> n \<Longrightarrow> 1 \<le> apply_timeout_value s n"
  using port_word parse_number_SomeD [of s]
  by (auto simp: apply_port_value_def apply_timeout_value_def split: option.splits)

lemma apply_setting_ok: "cfg_ok cfg \<Longrightarrow> cfg_ok (apply_setting cfg s)"
  by (cases s) (simp_all add: cfg_ok_def apply_values_ok)

lemma apply_setting_path [simp]: "config_path (apply_setting cfg s) = config_path cfg"
  by (cases s) simp_all

lemma foldl_line_ok: "cfg_ok cfg \<Longrightarrow> cfg_ok (foldl apply_line cfg lines)"
  by (induction lines arbitrary: cfg) (auto simp: apply_line_def apply_setting_ok split: option.splits)

lemma foldl_line_path: "config_path (foldl apply_line cfg lines) = config_path cfg"
  by (induction lines arbitrary: cfg) (auto simp: apply_line_def split: option.splits)

interpretation by_lines: config_source "cfg_load_lines fopen" for fopen
  by unfold_locales (auto simp: cfg_load_lines_def foldl_line_ok foldl_line_path split: option.splits)

interpretation by_libconfig: config_source "cfg_load_libconfig L" for L
  by unfold_locales (auto simp: cfg_load_libconfig_def cfg_ok_def port_word Let_def split: option.splits)

lemma apply_args_ok: "cfg_ok cfg \<Longrightarrow> cfg_ok (fst (cfg_apply_args cfg args))"
  by (induction cfg args rule: cfg_apply_args.induct) (simp_all add: apply_setting_ok del: apply_setting.simps)

lemma apply_env_value_ok: "cfg_ok cfg \<Longrightarrow> cfg_ok (apply_env_value mk s cfg)"
  by (simp add: apply_env_value_def apply_setting_ok split: option.splits)

lemma apply_env_ok: "cfg_ok cfg \<Longrightarrow> cfg_ok (cfg_apply_env getenv cfg)"
  by (simp add: cfg_apply_env_def apply_env_value_ok Let_def)

context config_source begin

lemma cfg_load_ok: "cfg_ok (fst (cfg_load load_file getenv args))"
proof -
  have "cfg_ok (cfg_read_config_path getenv args cfg_defaults)"
    by (simp add: cfg_read_config_path_def cfg_defaults_def cfg_ok_def SQLCG_PORT_def SQLCG_ADMIN_PORT_def Let_def)
  then show ?thesis
    by (simp add: cfg_load_def Let_def apply_args_ok apply_env_ok load_ok)
qed

end

text \<open>
  Whatever the configuration file, the environment and the command line hold, the server
  is left with ports other than 0 and a positive timeout, in both builds.
\<close>

theorem cfg_load_usable:
  "cfg_ok (fst (cfg_load (cfg_load_lines fopen) getenv args)) \<and>
   cfg_ok (fst (cfg_load (cfg_load_libconfig L) getenv args))"
  using by_lines.cfg_load_ok by_libconfig.cfg_load_ok by blast

section \<open>The order of the sources\<close>

definition file_settings :: "string \<Rightarrow> setting list" where
  "file_settings content = List.map_filter line_setting (file_lines 256 content)"

definition env_settings :: "(string \<Rightarrow> string option) \<Rightarrow> setting list" where
  "env_settings getenv =
     (case getenv ''SERVER_PORT'' of None \<Rightarrow> [] | Some s \<Rightarrow> [Port s]) @
     (case getenv ''ADMIN_PORT'' of None \<Rightarrow> [] | Some s \<Rightarrow> [AdminPort s]) @
     (case getenv ''ADMIN_TIMEOUT'' of None \<Rightarrow> [] | Some s \<Rightarrow> [AdminTimeout s])"

fun option_setting :: "string \<Rightarrow> string \<Rightarrow> setting option" where
  "option_setting a v =
     (if a = ''-p'' \<or> a = ''--port'' then Some (Port v)
      else if a = ''-a'' \<or> a = ''--admin-port'' then Some (AdminPort v)
      else if a = ''-t'' \<or> a = ''--admin-timeout'' then Some (AdminTimeout v)
      else None)"

declare option_setting.simps [simp del]

text \<open>The settings of the options that are reached, up to help or a usage error.\<close>

fun arg_settings :: "string list \<Rightarrow> setting list" where
  "arg_settings (a # v # args) =
     (if a = ''-c'' \<or> a = ''--config'' then arg_settings args
      else (case option_setting a v of None \<Rightarrow> [] | Some s \<Rightarrow> s # arg_settings args))"
| "arg_settings _ = []"

lemma apply_args_settings:
  "fst (cfg_apply_args cfg args) = foldl apply_setting cfg (arg_settings args)"
  by (induction cfg args rule: cfg_apply_args.induct)
     (simp_all add: option_setting.simps del: apply_setting.simps)

lemma foldl_lines_settings:
  "foldl apply_line cfg ls = foldl apply_setting cfg (List.map_filter line_setting ls)"
  by (induction ls arbitrary: cfg) (simp_all add: apply_line_def List.map_filter_simps split: option.splits)

lemma cfg_load_settings:
  "fst (cfg_load (cfg_load_lines fopen) getenv args) =
     (let cfg = cfg_read_config_path getenv args cfg_defaults;
          file = (case fopen (config_path cfg) of None \<Rightarrow> [] | Some content \<Rightarrow> file_settings content)
      in foldl apply_setting cfg (file @ env_settings getenv @ arg_settings args))"
  by (simp add: cfg_load_def apply_args_settings cfg_apply_env_def apply_env_value_def env_settings_def
      cfg_load_lines_def foldl_lines_settings file_settings_def Let_def split: option.splits)

text \<open>The valid values among a list of settings, for each of the three fields.\<close>

definition valid_ports :: "setting list \<Rightarrow> int list" where
  "valid_ports = List.map_filter (\<lambda>s. case s of Port t \<Rightarrow> parse_number t 1 65535 | _ \<Rightarrow> None)"

definition valid_admin_ports :: "setting list \<Rightarrow> int list" where
  "valid_admin_ports = List.map_filter (\<lambda>s. case s of AdminPort t \<Rightarrow> parse_number t 1 65535 | _ \<Rightarrow> None)"

definition valid_timeouts :: "setting list \<Rightarrow> int list" where
  "valid_timeouts = List.map_filter (\<lambda>s. case s of AdminTimeout t \<Rightarrow> parse_number t 1 86400 | _ \<Rightarrow> None)"

definition last_or :: "'a \<Rightarrow> 'a list \<Rightarrow> 'a" where
  "last_or d xs = (if xs = [] then d else last xs)"

lemma last_or_Cons: "last_or d (x # xs) = last_or x xs"
  by (simp add: last_or_def)

lemma last_or_Nil: "last_or d [] = d"
  by (simp add: last_or_def)

lemma foldl_settings_last:
  "server_port (foldl apply_setting cfg ss) = last_or (server_port cfg) (map word_of_int (valid_ports ss)) \<and>
   admin_port (foldl apply_setting cfg ss) = last_or (admin_port cfg) (map word_of_int (valid_admin_ports ss)) \<and>
   admin_timeout_sec (foldl apply_setting cfg ss) = last_or (admin_timeout_sec cfg) (valid_timeouts ss)"
proof (induction ss arbitrary: cfg)
  case Nil
  then show ?case
    by (simp add: valid_ports_def valid_admin_ports_def valid_timeouts_def List.map_filter_simps last_or_Nil)
next
  case (Cons s ss)
  from Cons [of "apply_setting cfg s"] show ?case
    by (cases s) (auto simp: valid_ports_def valid_admin_ports_def valid_timeouts_def List.map_filter_simps
        apply_port_value_def apply_timeout_value_def last_or_Cons split: option.splits)
qed

lemma read_path_fields:
  "server_port (cfg_read_config_path getenv args cfg_defaults) = SQLCG_PORT"
  "admin_port (cfg_read_config_path getenv args cfg_defaults) = SQLCG_ADMIN_PORT"
  "admin_timeout_sec (cfg_read_config_path getenv args cfg_defaults) = DEFAULT_ADMIN_TIMEOUT_SEC"
  by (simp_all add: cfg_read_config_path_def cfg_defaults_def Let_def)


text \<open>A configuration as the program ships it, and a number that is read back.\<close>

lemma parse_number_sdec:
  "mn \<le> p \<Longrightarrow> p \<le> mx \<Longrightarrow> - (2 ^ 63) \<le> p \<Longrightarrow> p < 2 ^ 63 \<Longrightarrow> parse_number (sdec p) mn mx = Some p"
  by (simp add: parse_number_def strtol_sdec)

lemma shipped_lines:
  "file_settings (''server: {'' @ [CHR 0x0A] @ ''    port = 18081;'' @ [CHR 0x0A] @ ''    admin_port = 18082;'' @
     [CHR 0x0A] @ ''    admin_timeout = 60;'' @ [CHR 0x0A] @ ''};'' @ [CHR 0x0A]) =
   [Port ''18081'', AdminPort ''18082'', AdminTimeout ''60'']"
  by code_simp

end
