(* ===== verification/Worker.thy ===== *)
theory Worker
  imports ErLoader InsertValidator Ddl Jobs RequestQueue Sessions
begin

text \<open>
  The worker thread of \<open>src/server.c\<close>: \<open>respond_text\<close>, \<open>upload_path\<close>,
  \<open>append_upload_chunk\<close>, \<open>child_validate_insert\<close>, \<open>send_generated_sql_file\<close> and
  \<open>process_request\<close>.  A step takes the shared state and the upload files to their new
  values and to the messages sent.  What the system calls return (clock, files, pipe, fork)
  is an argument; an access outside an array in the code called is the outcome \<open>Fault\<close>.
\<close>

section \<open>Messages and files\<close>

text \<open>A message sent: the descriptor, then the arguments of \<open>send_message\<close>.\<close>

record sent =
  to_fd :: int
  to_client :: "32 word"
  sent_op :: "32 word"
  body :: string

definition respond_text :: "int \<Rightarrow> 32 word \<Rightarrow> 32 word \<Rightarrow> string \<Rightarrow> sent" where
  "respond_text fd client_id op_id s = \<lparr>to_fd = fd, to_client = client_id, sent_op = op_id, body = s\<rparr>"

text \<open>The conversion \<open>%u\<close>.\<close>

definition udec :: "32 word \<Rightarrow> string" where
  "udec w = dec (unat w)"

definition upload_path :: "32 word \<Rightarrow> string" where
  "upload_path client_id = snprintf 128 (''data/upload_'' @ udec client_id @ ''.schema.json'')"

text \<open>The files under \<open>data/\<close> that uploads write.\<close>

type_synonym files = "string \<Rightarrow> string option"

text \<open>\<open>append_upload_chunk\<close>: the error of \<open>open\<close> or of the write, if there is one.\<close>

datatype file_error = OpenFails string | WriteFailsAfter nat string

definition append_upload_chunk ::
  "file_error option \<Rightarrow> 32 word \<Rightarrow> string option \<Rightarrow> 32 word \<Rightarrow> files \<Rightarrow> files \<times> bool \<times> string" where
  "append_upload_chunk e client_id payload sz fs =
     (let path = upload_path client_id;
          old = (case fs path of None \<Rightarrow> [] | Some s \<Rightarrow> s);
          chunk = (case payload of None \<Rightarrow> [] | Some bs \<Rightarrow> bs)
      in case e of
           Some (OpenFails m) \<Rightarrow> (fs, False, ''cannot append upload file: '' @ m)
         | Some (WriteFailsAfter k m) \<Rightarrow>
             if 0 < sz then (fs(path \<mapsto> old @ take k chunk), False, ''cannot write upload chunk: '' @ m)
             else (fs(path \<mapsto> old), True, ''OK: chunk stored ('' @ udec sz @ '' bytes)'')
         | None \<Rightarrow> (fs(path \<mapsto> old @ chunk), True, ''OK: chunk stored ('' @ udec sz @ '' bytes)''))"

section \<open>The validating child process\<close>

text \<open>What \<open>pipe\<close>, \<open>fork\<close>, \<open>read\<close> and \<open>waitpid\<close> do.\<close>

datatype child_calls = PipeFails | ForkFails | WaitFails | NoResult | ChildAnswers

text \<open>The packet the child writes, and what the parent makes of the bytes it reads.\<close>

definition child_packet :: "bool \<Rightarrow> string \<Rightarrow> string" where
  "child_packet good msg = snprintf 1200 ((if good then ''1'' else ''0'') @ [CHR 0x0A] @ msg)"

definition read_packet :: "string \<Rightarrow> bool \<times> string" where
  "read_packet packet =
     (let packet = take 1199 packet in
      (peek packet = CHR ''1'',
       if CHR 0x0A \<in> set packet then tl (dropWhile (\<lambda>c. c \<noteq> CHR 0x0A) packet) else packet))"

definition child_validate_insert ::
  "(string \<Rightarrow> string option) \<Rightarrow> child_calls \<Rightarrow> SharedState \<Rightarrow> string \<Rightarrow> (string, string) outcome" where
  "child_validate_insert pg calls st sql =
     (case calls of
        PipeFails \<Rightarrow> Err ''pipe failed''
      | ForkFails \<Rightarrow> Err ''fork failed''
      | WaitFails \<Rightarrow> Err ''waitpid failed''
      | NoResult \<Rightarrow> Err ''child did not return validation result''
      | ChildAnswers \<Rightarrow>
          (let r = validate_insert_batch pg (tables st) sql in
           case r of
             Fault u \<Rightarrow> Fault u
           | _ \<Rightarrow>
               (let (good, msg) = read_packet (child_packet (ok r) (snprintf 1024 (validate_message r)))
                in if good then Ok (snprintf 2048 msg) else Err (snprintf 2048 msg))))"

text \<open>The packet carries the verdict and the message unchanged.\<close>

lemma read_child_packet:
  assumes "length msg < 1024"
  shows "read_packet (child_packet good msg) = (good, msg)"
proof -
  have "child_packet good msg = (if good then CHR ''1'' else CHR ''0'') # CHR 0x0A # msg"
    using assms by (simp add: child_packet_def snprintf_def)
  then show ?thesis using assms by (simp add: read_packet_def)
qed

lemma child_validate_insert_eq:
  "child_validate_insert pg ChildAnswers st sql =
     (case validate_insert_batch pg (tables st) sql of
        Ok n \<Rightarrow> Ok (snprintf 1024 (validate_message (Ok n)))
      | Err e \<Rightarrow> Err (snprintf 1024 (validate_message (Err e)))
      | Fault u \<Rightarrow> Fault u)"
  by (simp add: child_validate_insert_def read_child_packet snprintf_def split: outcome.splits)

section \<open>The generated SQL as a file\<close>

text \<open>Where the transfer of the file fails, with the text of \<open>strerror\<close> or the chunks sent before.\<close>

datatype sql_file_error =
    CannotCreate string | CannotWrite string | CannotReopen string | CannotSendBegin
  | CannotRead nat string | CannotSendChunk nat | CannotSendEnd

fun sql_file_error_text :: "sql_file_error \<Rightarrow> string" where
  "sql_file_error_text (CannotCreate m) = ''cannot create generated SQL file: '' @ m"
| "sql_file_error_text (CannotWrite m) = ''cannot write generated SQL file: '' @ m"
| "sql_file_error_text (CannotReopen m) = ''cannot reopen generated SQL file: '' @ m"
| "sql_file_error_text CannotSendBegin = ''cannot send download begin''"
| "sql_file_error_text (CannotRead _ m) = ''cannot read generated SQL file: '' @ m"
| "sql_file_error_text (CannotSendChunk _) = ''cannot send download chunk''"
| "sql_file_error_text CannotSendEnd = ''cannot send download end''"

text \<open>The pieces that successive \<open>read\<close> calls of k bytes return from a file.\<close>

function file_chunks :: "nat \<Rightarrow> string \<Rightarrow> string list" where
  "file_chunks k s = (if s = [] \<or> k = 0 then [] else take k s # file_chunks k (drop k s))"
  by pat_completeness auto
termination
  by (relation "measure (\<lambda>(k, s). length s)") auto

declare file_chunks.simps [simp del]

lemma file_chunks_Nil [simp]: "file_chunks k [] = []"
  by (simp add: file_chunks.simps)

lemma concat_file_chunks: "0 < k \<Longrightarrow> concat (file_chunks k s) = s"
proof (induction k s rule: file_chunks.induct)
  case (1 k s)
  then show ?case by (cases "s = []") (simp_all add: file_chunks.simps [of k s])
qed

lemma file_chunks_bounds: "c \<in> set (file_chunks k s) \<Longrightarrow> c \<noteq> [] \<and> length c \<le> k"
proof (induction k s rule: file_chunks.induct)
  case (1 k s)
  then show ?case by (cases "s = [] \<or> k = 0") (auto simp: file_chunks.simps [of k s])
qed

definition download_begin_text :: "32 word \<Rightarrow> string \<Rightarrow> string" where
  "download_begin_text client_id sql =
     snprintf 160 (''generated_'' @ udec client_id @ ''.sql'' @ [CHR 0x0A] @ dec (length sql))"

definition send_generated_sql_file ::
  "sql_file_error option \<Rightarrow> SharedState \<Rightarrow> int \<Rightarrow> 32 word \<Rightarrow> sent list \<times> bool \<times> string" where
  "send_generated_sql_file fail st fd client_id =
     (let sql = generate_sql st SQL_BUFFER;
          begin_msg = respond_text fd client_id OP_DOWNLOAD_BEGIN (download_begin_text client_id sql);
          chunks = map (respond_text fd client_id OP_DOWNLOAD_CHUNK) (file_chunks SQLCG_FILE_CHUNK sql);
          end_msg = respond_text fd client_id OP_DOWNLOAD_END ''OK'';
          done = (case fail of
              None \<Rightarrow> begin_msg # chunks @ [end_msg]
            | Some (CannotRead k _) \<Rightarrow> begin_msg # take k chunks
            | Some (CannotSendChunk k) \<Rightarrow> begin_msg # take k chunks
            | Some CannotSendEnd \<Rightarrow> begin_msg # chunks
            | Some _ \<Rightarrow> [])
      in case fail of
           None \<Rightarrow> (done, True, ''OK: generated SQL downloaded ('' @ dec (length sql) @ '' bytes)'')
         | Some e \<Rightarrow> (done, False, sql_file_error_text e))"

section \<open>One request\<close>

text \<open>What the system calls made while one request is processed return.\<close>

record worker_calls =
  wc_now :: int
  wc_finished :: int
  wc_elapsed :: int
  wc_upload_open :: "string option"
  wc_append :: "file_error option"
  wc_reader :: "string option \<Rightarrow> file_calls"
  wc_child :: child_calls
  wc_sql :: "sql_file_error option"

text \<open>\<open>resp_op\<close>, \<open>response\<close>, \<open>response_sent\<close>, and the messages already sent.\<close>

record reply =
  resp_op :: "32 word"
  response :: string
  response_sent :: bool
  sent_before :: "sent list"

definition RESPONSE_SIZE :: nat where [simp]: "RESPONSE_SIZE = 65536"
definition ERR_SIZE :: nat where [simp]: "ERR_SIZE = 2048"

definition answer :: "32 word \<Rightarrow> string \<Rightarrow> reply" where
  "answer op_id s = \<lparr>resp_op = op_id, response = snprintf RESPONSE_SIZE s, response_sent = False, sent_before = []\<rparr>"

definition start_request :: "int \<Rightarrow> Request \<Rightarrow> SharedState \<Rightarrow> SharedState" where
  "start_request now r st =
     (let st = client_touch now (rq_client_id r) st;
          st = st\<lparr>active_client_id := sint (rq_client_id r), active_op_id := sint (rq_op_id r),
                  active_started_at := now\<rparr>
      in if 0 < rq_job_id r then job_update now (rq_job_id r) RUNNING ''running'' st else st)"

definition cancel_request :: "SharedState \<Rightarrow> SharedState \<times> reply" where
  "cancel_request st =
     (history_add ''command cancelled''
        (st\<lparr>cancelled_commands := cancelled_commands st + 1, cancel_client_id := 0\<rparr>),
      answer OP_ERROR ''command cancelled by admin'')"

definition upload_begin :: "worker_calls \<Rightarrow> Request \<Rightarrow> SharedState \<times> files \<Rightarrow> (SharedState \<times> files) \<times> reply" where
  "upload_begin calls r sv =
     (let (st, fs) = sv in
      case wc_upload_open calls of
        Some m \<Rightarrow> ((history_add ''upload begin'' st, fs), answer OP_ERROR (''cannot create upload file: '' @ m))
      | None \<Rightarrow> ((history_add ''upload begin'' st, fs(upload_path (rq_client_id r) \<mapsto> [])),
                 answer OP_OK ''OK: upload started''))"

definition upload_chunk :: "worker_calls \<Rightarrow> Request \<Rightarrow> SharedState \<times> files \<Rightarrow> (SharedState \<times> files) \<times> reply" where
  "upload_chunk calls r sv =
     (let (st, fs) = sv;
          (fs, good, msg) = append_upload_chunk (wc_append calls) (rq_client_id r) (rq_payload r) (rq_payload_size r) fs
      in ((st, fs), answer (if good then OP_OK else OP_ERROR) msg))"

definition upload_end ::
  "'j cjson \<Rightarrow> worker_calls \<Rightarrow> Request \<Rightarrow> SharedState \<times> files \<Rightarrow> (SharedState \<times> files) \<times> reply" where
  "upload_end L calls r sv =
     (let (st, fs) = sv;
          (st, result) = load_er_json L (wc_reader calls (fs (upload_path (rq_client_id r)))) st;
          err = snprintf ERR_SIZE (load_message result)
      in case result of
           Inr n \<Rightarrow> ((history_add ''schema loaded'' st, fs), answer OP_OK (''OK: '' @ err))
         | Inl e \<Rightarrow> ((history_add ''schema load failed'' st, fs), answer OP_ERROR (''ERROR: '' @ err)))"

definition generate_sql_request :: "SharedState \<times> files \<Rightarrow> (SharedState \<times> files) \<times> reply" where
  "generate_sql_request sv =
     (let (st, fs) = sv
      in ((history_add ''generate sql'' st, fs), answer OP_OK (generate_sql st RESPONSE_SIZE)))"

definition download_sql_request ::
  "worker_calls \<Rightarrow> Request \<Rightarrow> SharedState \<times> files \<Rightarrow> (SharedState \<times> files) \<times> reply" where
  "download_sql_request calls r sv =
     (let (st, fs) = sv;
          (msgs, good, err) = send_generated_sql_file (wc_sql calls) st (rq_fd r) (rq_client_id r)
      in if good
         then ((history_add ''download sql'' st, fs),
               (answer OP_OK (snprintf ERR_SIZE err))\<lparr>response_sent := True, sent_before := msgs\<rparr>)
         else ((st, fs), (answer OP_ERROR (''ERROR: '' @ snprintf ERR_SIZE err))\<lparr>sent_before := msgs\<rparr>))"

definition validate_insert_request ::
  "(string \<Rightarrow> string option) \<Rightarrow> worker_calls \<Rightarrow> Request \<Rightarrow> SharedState \<times> files \<Rightarrow>
   (string, (SharedState \<times> files) \<times> reply) outcome" where
  "validate_insert_request pg calls r sv =
     (let (st, fs) = sv;
          st = st\<lparr>insert_commands := insert_commands st + 1\<rparr>
      in case rq_payload r of
           None \<Rightarrow> Ok ((st, fs), answer OP_ERROR ''empty insert payload'')
         | Some bs \<Rightarrow>
             (case child_validate_insert pg (wc_child calls) st (cstr bs) of
                Fault u \<Rightarrow> Fault u
              | Err e \<Rightarrow> Ok ((history_add ''insert rejected'' st, fs), answer OP_ERROR (''ERROR: '' @ e))
              | Ok _ \<Rightarrow>
                  (let (st', result) = apply_insert_batch pg st (cstr bs);
                       err = snprintf ERR_SIZE (apply_message result)
                   in case result of
                        Fault u \<Rightarrow> Fault u
                      | Ok n \<Rightarrow> Ok ((history_add ''insert accepted'' st', fs), answer OP_OK err)
                      | Err e \<Rightarrow> Ok ((history_add ''insert apply failed'' st', fs), answer OP_ERROR (''ERROR: '' @ err)))))"

definition perform_request ::
  "'j cjson \<Rightarrow> (string \<Rightarrow> string option) \<Rightarrow> worker_calls \<Rightarrow> Request \<Rightarrow> SharedState \<times> files \<Rightarrow>
   (string, (SharedState \<times> files) \<times> reply) outcome" where
  "perform_request L pg calls r sv =
     (if rq_op_id r = OP_UPLOAD_BEGIN then Ok (upload_begin calls r sv)
      else if rq_op_id r = OP_UPLOAD_CHUNK then Ok (upload_chunk calls r sv)
      else if rq_op_id r = OP_UPLOAD_END then Ok (upload_end L calls r sv)
      else if rq_op_id r = OP_GENERATE_SQL then Ok (generate_sql_request sv)
      else if rq_op_id r = OP_DOWNLOAD_SQL then Ok (download_sql_request calls r sv)
      else if rq_op_id r = OP_VALIDATE_INSERT then validate_insert_request pg calls r sv
      else Ok (sv, answer OP_ERROR (''unknown operation '' @ udec (rq_op_id r))))"

definition wire_response :: "Request \<Rightarrow> reply \<Rightarrow> string" where
  "wire_response r rp =
     (if 0 < rq_job_id r
      then snprintf 67584 (''job='' @ sdec (rq_job_id r) @ [CHR 0x0A] @ response rp)
      else response rp)"

definition final_reply :: "Request \<Rightarrow> reply \<Rightarrow> sent list" where
  "final_reply r rp =
     (if response_sent rp then []
      else [respond_text (rq_fd r) (rq_client_id r) (resp_op rp) (wire_response r rp)])"

definition finish_request :: "worker_calls \<Rightarrow> Request \<Rightarrow> reply \<Rightarrow> SharedState \<Rightarrow> SharedState \<times> sent list" where
  "finish_request calls r rp st =
     (let st = st\<lparr>total_commands := total_commands st + 1, total_exec_ms := total_exec_ms st + wc_elapsed calls\<rparr>;
          st = (if resp_op rp = OP_ERROR then st\<lparr>failed_commands := failed_commands st + 1\<rparr> else st);
          st = (if 0 < rq_job_id r
                then job_update (wc_finished calls) (rq_job_id r)
                       (if resp_op rp = OP_OK then DONE else ERROR) (response rp) st
                else st);
          st = (if active_client_id st = sint (rq_client_id r) \<and> active_op_id st = sint (rq_op_id r)
                then st\<lparr>active_client_id := 0, active_op_id := 0, active_started_at := 0\<rparr> else st)
      in (st, sent_before rp @ final_reply r rp))"

definition process_request ::
  "'j cjson \<Rightarrow> (string \<Rightarrow> string option) \<Rightarrow> worker_calls \<Rightarrow> Request \<Rightarrow> SharedState \<times> files \<Rightarrow>
   (string, (SharedState \<times> files) \<times> sent list) outcome" where
  "process_request L pg calls r sv =
     (let (st, fs) = sv; st = start_request (wc_now calls) r st in
      if cancel_client_id st = sint (rq_client_id r) then
        (let (st, rp) = cancel_request st; (st, msgs) = finish_request calls r rp st in Ok ((st, fs), msgs))
      else
        obind (perform_request L pg calls r (st, fs))
          (\<lambda>((st, fs), rp). let (st, msgs) = finish_request calls r rp st in Ok ((st, fs), msgs)))"

section \<open>What a request leaves alone\<close>

lemma touch_fields [simp]:
  "tables (client_touch now c st) = tables st" "jobs (client_touch now c st) = jobs st"
  "cancel_client_id (client_touch now c st) = cancel_client_id st"
  "queue_depth (client_touch now c st) = queue_depth st" "next_job_id (client_touch now c st) = next_job_id st"
  "last_job_by_client (client_touch now c st) = last_job_by_client st"
  by (simp_all add: client_touch_def split: option.splits)

lemma history_fields [simp]:
  "tables (history_add l st) = tables st" "jobs (history_add l st) = jobs st"
  "clients (history_add l st) = clients st" "client_count (history_add l st) = client_count st"
  "next_client_id (history_add l st) = next_client_id st" "queue_depth (history_add l st) = queue_depth st"
  "total_commands (history_add l st) = total_commands st" "failed_commands (history_add l st) = failed_commands st"
  "active_client_id (history_add l st) = active_client_id st" "active_op_id (history_add l st) = active_op_id st"
  "cancel_client_id (history_add l st) = cancel_client_id st"
  by (simp_all add: history_add_def)

lemma job_update_fields [simp]:
  "tables (job_update now j s t st) = tables st" "clients (job_update now j s t st) = clients st"
  "client_count (job_update now j s t st) = client_count st" "next_client_id (job_update now j s t st) = next_client_id st"
  "queue_depth (job_update now j s t st) = queue_depth st" "cancel_client_id (job_update now j s t st) = cancel_client_id st"
  "total_commands (job_update now j s t st) = total_commands st" "failed_commands (job_update now j s t st) = failed_commands st"
  "active_client_id (job_update now j s t st) = active_client_id st" "active_op_id (job_update now j s t st) = active_op_id st"
  by (simp_all add: job_update_def split: option.splits)

lemma start_fields [simp]:
  "tables (start_request now r st) = tables st" "cancel_client_id (start_request now r st) = cancel_client_id st"
  "queue_depth (start_request now r st) = queue_depth st"
  "active_client_id (start_request now r st) = sint (rq_client_id r)"
  "active_op_id (start_request now r st) = sint (rq_op_id r)"
  by (simp_all add: start_request_def Let_def)

lemma finish_fields [simp]:
  "tables (fst (finish_request calls r rp st)) = tables st"
  "clients (fst (finish_request calls r rp st)) = clients st"
  "client_count (fst (finish_request calls r rp st)) = client_count st"
  "next_client_id (fst (finish_request calls r rp st)) = next_client_id st"
  "queue_depth (fst (finish_request calls r rp st)) = queue_depth st"
  "total_commands (fst (finish_request calls r rp st)) = total_commands st + 1"
  "failed_commands (fst (finish_request calls r rp st)) =
     failed_commands st + (if resp_op rp = OP_ERROR then 1 else 0)"
  "cancel_client_id (fst (finish_request calls r rp st)) = cancel_client_id st"
  by (simp_all add: finish_request_def Let_def)

section \<open>Integrity is kept by every request\<close>

lemma perform_request_tables:
  assumes "perform_request L pg calls r (st, fs) = Ok ((st', fs'), rp)"
  obtains (same) "tables st' = tables st"
    | (load) f where "tables st' = tables (fst (load_er_json L f st))"
    | (insert) st1 sql where "tables st1 = tables st" "tables st' = tables (fst (apply_insert_batch pg st1 sql))"
proof -
  consider "rq_op_id r = OP_UPLOAD_END" | "rq_op_id r = OP_VALIDATE_INSERT"
    | "rq_op_id r \<noteq> OP_UPLOAD_END" "rq_op_id r \<noteq> OP_VALIDATE_INSERT" by blast
  then show thesis
  proof cases
    case 1
    then have "tables st' = tables (fst (load_er_json L (wc_reader calls (fs (upload_path (rq_client_id r)))) st))"
      using assms by (auto simp: perform_request_def upload_end_def Let_def split: prod.splits sum.splits)
    then show thesis by (rule load)
  next
    case 2
    then have v: "validate_insert_request pg calls r (st, fs) = Ok ((st', fs'), rp)"
      using assms by (simp add: perform_request_def)
    show thesis
    proof (cases "tables st' = tables st")
      case False
      define st1 where "st1 = st\<lparr>insert_commands := insert_commands st + 1\<rparr>"
      have "\<exists>sql. tables st' = tables (fst (apply_insert_batch pg st1 sql))"
        using v False unfolding validate_insert_request_def Let_def st1_def [symmetric]
        by (auto simp: st1_def split: option.splits outcome.splits prod.splits) (metis fst_conv)+
      then show thesis using insert [of st1] by (auto simp: st1_def)
    qed (rule same)
  next
    case 3
    then have "tables st' = tables st"
      using assms by (auto simp: perform_request_def upload_begin_def upload_chunk_def generate_sql_request_def
          download_sql_request_def Let_def split: option.splits prod.splits if_splits)
    then show thesis by (rule same)
  qed
qed

definition sound_tables :: "Table list \<Rightarrow> bool" where
  "sound_tables ts \<longleftrightarrow> wf_tables ts \<and> integrity ts"

lemma integrity_no_rows: "\<forall>t \<in> set ts. rows t = [] \<Longrightarrow> integrity ts"
  by (auto simp: integrity_def column_integrity_def column_values_def Let_def)

lemma load_sound: "sound_tables (tables st) \<Longrightarrow> sound_tables (tables (fst (load_er_json L f st)))"
  using load_er_json_keeps_wf [of L f st] integrity_no_rows
  by (cases "load_er_json L f st") (fastforce simp: sound_tables_def)

lemma apply_sound: "sound_tables (tables st) \<Longrightarrow> sound_tables (tables (fst (apply_insert_batch pg st sql)))"
  using apply_insert_batch_keeps [of pg st sql]
  by (cases "apply_insert_batch pg st sql") (auto simp: sound_tables_def)

lemma perform_request_sound:
  assumes "perform_request L pg calls r (st, fs) = Ok ((st', fs'), rp)" "sound_tables (tables st)"
  shows "sound_tables (tables st')"
  using assms(1)
proof (cases rule: perform_request_tables)
  case (insert st1 sql)
  with assms(2) apply_sound [of st1 pg sql] show ?thesis by simp
qed (use assms(2) load_sound in simp_all)

lemma process_performed:
  assumes "cancel_client_id st \<noteq> sint (rq_client_id r)"
    "perform_request L pg calls r (start_request (wc_now calls) r st, fs) = Ok ((st1, fs1), rp)"
  shows "process_request L pg calls r (st, fs) =
    Ok ((fst (finish_request calls r rp st1), fs1), snd (finish_request calls r rp st1))"
  using assms by (simp add: process_request_def Let_def split: prod.splits)

lemma process_cancelled:
  assumes "cancel_client_id st = sint (rq_client_id r)"
    "cancel_request (start_request (wc_now calls) r st) = (st1, rp)"
  shows "process_request L pg calls r (st, fs) =
    Ok ((fst (finish_request calls r rp st1), fs), snd (finish_request calls r rp st1))"
  using assms by (simp add: process_request_def Let_def split: prod.splits)

lemma process_request_cases:
  assumes "process_request L pg calls r (st, fs) = Ok ((st', fs'), msgs)"
  obtains (cancelled) st1 rp where "cancel_client_id st = sint (rq_client_id r)"
      "cancel_request (start_request (wc_now calls) r st) = (st1, rp)"
      "finish_request calls r rp st1 = (st', msgs)" "fs' = fs"
    | (performed) st1 rp where "cancel_client_id st \<noteq> sint (rq_client_id r)"
      "perform_request L pg calls r (start_request (wc_now calls) r st, fs) = Ok ((st1, fs'), rp)"
      "finish_request calls r rp st1 = (st', msgs)"
proof (cases "cancel_client_id st = sint (rq_client_id r)")
  case True
  obtain st1 rp where c: "cancel_request (start_request (wc_now calls) r st) = (st1, rp)" by fastforce
  with True assms have "finish_request calls r rp st1 = (st', msgs)" "fs' = fs"
    by (auto simp: process_request_def Let_def split: prod.splits)
  with True c show thesis by (rule cancelled)
next
  case False
  with assms obtain st1 fs1 rp where
    p: "perform_request L pg calls r (start_request (wc_now calls) r st, fs) = Ok ((st1, fs1), rp)"
    and f: "(case finish_request calls r rp st1 of (st, msgs) \<Rightarrow> Ok ((st, fs1), msgs)) =
        (Ok ((st', fs'), msgs) :: (string, (SharedState \<times> files) \<times> sent list) outcome)"
    by (auto simp: process_request_def Let_def obind_Ok_iff)
  from f have "finish_request calls r rp st1 = (st', msgs)" "fs1 = fs'"
    by (cases "finish_request calls r rp st1"; simp)+
  with False p show thesis by (intro performed) simp_all
qed

lemma process_request_sound:
  assumes "process_request L pg calls r (st, fs) = Ok ((st', fs'), msgs)" "sound_tables (tables st)"
  shows "sound_tables (tables st')"
  using assms(1)
proof (cases rule: process_request_cases)
  case (cancelled st1 rp)
  then have "tables st1 = tables st"
    by (auto simp: cancel_request_def)
  with cancelled finish_fields(1) [of calls r rp st1] assms(2) show ?thesis by simp
next
  case (performed st1 rp)
  with perform_request_sound [OF performed(2)] finish_fields(1) [of calls r rp st1] assms(2)
  show ?thesis by simp
qed

section \<open>Sequences of requests\<close>

fun run_requests ::
  "'j cjson \<Rightarrow> (string \<Rightarrow> string option) \<Rightarrow> (worker_calls \<times> Request) list \<Rightarrow> SharedState \<times> files \<Rightarrow>
   (string, (SharedState \<times> files) \<times> sent list) outcome" where
  "run_requests L pg [] sv = Ok (sv, [])"
| "run_requests L pg ((calls, r) # rs) sv =
     obind (process_request L pg calls r sv)
       (\<lambda>(sv1, msgs). obind (run_requests L pg rs sv1) (\<lambda>(sv2, msgs'). Ok (sv2, msgs @ msgs')))"

text \<open>
  The worker keeps the data of the server sound.  From any sound state, and so from the
  initial one, whatever requests are processed, with whatever payloads, child results and
  file errors, as long as the code stays inside its arrays: the schema stays within the
  limits of \<open>model.h\<close> and the stored rows satisfy every constraint of the schema.
\<close>

theorem requests_keep_sound:
  assumes "run_requests L pg rs (st, fs) = Ok ((st', fs'), msgs)" and "sound_tables (tables st)"
  shows "sound_tables (tables st')"
  using assms
proof (induction rs arbitrary: st fs msgs)
  case (Cons x rs)
  obtain calls r where x: "x = (calls, r)" by fastforce
  with Cons.prems(1) obtain st1 fs1 m1 m2 where
    p: "process_request L pg calls r (st, fs) = Ok ((st1, fs1), m1)"
    and rest: "run_requests L pg rs (st1, fs1) = Ok ((st', fs'), m2)"
    by (auto simp: obind_Ok_iff)
  from Cons.IH [OF rest process_request_sound [OF p Cons.prems(2)]] show ?case .
qed simp

section \<open>Every request is answered\<close>

lemma load_only_tables: "load_er_json L f st = (st', r) \<Longrightarrow> \<exists>ts. st' = st\<lparr>tables := ts\<rparr>"
  by (auto simp: load_er_json_def Let_def split: sum.splits option.splits prod.splits if_splits
      intro: exI [of _ "tables st"])

lemma apply_only_tables: "apply_insert_batch pg st sql = (st', r) \<Longrightarrow> \<exists>ts. st' = st\<lparr>tables := ts\<rparr>"
  by (auto simp: apply_insert_batch_def split: outcome.splits intro: exI [of _ "tables st"])

text \<open>The part of the state that the operations themselves do not touch.\<close>

definition counters :: "SharedState \<Rightarrow> int \<times> int \<times> int \<times> int \<times> int \<times> int \<times> ClientInfo list" where
  "counters st = (total_commands st, failed_commands st, active_client_id st, active_op_id st,
     cancel_client_id st, queue_depth st, clients st)"

lemma counters_update [simp]:
  "counters (st\<lparr>tables := ts\<rparr>) = counters st" "counters (st\<lparr>insert_commands := n\<rparr>) = counters st"
  "counters (history_add l st) = counters st"
  by (simp_all add: counters_def)

definition shape_ok :: "Request \<Rightarrow> reply \<Rightarrow> bool" where
  "shape_ok r rp \<longleftrightarrow> (resp_op rp = OP_OK \<or> resp_op rp = OP_ERROR) \<and>
     (\<forall>m \<in> set (sent_before rp). to_fd m = rq_fd r \<and> to_client m = rq_client_id r) \<and>
     (\<forall>m \<in> set (if response_sent rp then butlast (sent_before rp) else sent_before rp).
        sent_op m = OP_DOWNLOAD_BEGIN \<or> sent_op m = OP_DOWNLOAD_CHUNK) \<and>
     (response_sent rp \<longrightarrow> resp_op rp = OP_OK \<and> sent_before rp \<noteq> [] \<and> sent_op (last (sent_before rp)) = OP_DOWNLOAD_END)"

lemma shape_answer: "opn = OP_OK \<or> opn = OP_ERROR \<Longrightarrow> shape_ok r (answer opn t)"
  by (auto simp: shape_ok_def answer_def)

lemma shape_download:
  "download_sql_request calls r (st, fs) = (sv', rp) \<Longrightarrow> shape_ok r rp"
  by (auto simp: download_sql_request_def send_generated_sql_file_def respond_text_def Let_def shape_ok_def
      answer_def butlast_append split: option.splits sql_file_error.splits dest!: in_set_takeD)

lemma perform_request_shape:
  assumes "perform_request L pg calls r (st, fs) = Ok ((st', fs'), rp)"
  shows "shape_ok r rp" "counters st' = counters st"
proof -
  have "shape_ok r rp \<and> counters st' = counters st"
  proof (cases "rq_op_id r = OP_VALIDATE_INSERT")
    case True
    with assms have "validate_insert_request pg calls r (st, fs) = Ok ((st', fs'), rp)"
      by (simp add: perform_request_def)
    then show ?thesis
      by (auto simp: validate_insert_request_def Let_def shape_answer split: option.splits outcome.splits prod.splits
          dest!: apply_only_tables)
  next
    case False
    show ?thesis
    proof (cases "rq_op_id r = OP_DOWNLOAD_SQL")
      case True
      with assms have d: "download_sql_request calls r (st, fs) = ((st', fs'), rp)"
        by (simp add: perform_request_def)
      then have "counters st' = counters st"
        by (auto simp: download_sql_request_def Let_def split: prod.splits if_splits)
      with shape_download [OF d] show ?thesis by blast
    next
      case False
      with assms \<open>rq_op_id r \<noteq> OP_VALIDATE_INSERT\<close> show ?thesis
        by (auto simp: perform_request_def upload_begin_def upload_chunk_def upload_end_def generate_sql_request_def
            Let_def shape_answer split: option.splits prod.splits sum.splits if_splits dest!: load_only_tables)
    qed
  qed
  then show "shape_ok r rp" "counters st' = counters st" by blast+
qed

text \<open>All messages of a request: to its client, in order, ended by exactly one final answer.\<close>

definition well_answered :: "Request \<Rightarrow> sent list \<Rightarrow> bool" where
  "well_answered r msgs \<longleftrightarrow> msgs \<noteq> [] \<and>
     (\<forall>m \<in> set msgs. to_fd m = rq_fd r \<and> to_client m = rq_client_id r) \<and>
     (\<forall>m \<in> set (butlast msgs). sent_op m = OP_DOWNLOAD_BEGIN \<or> sent_op m = OP_DOWNLOAD_CHUNK) \<and>
     (sent_op (last msgs) = OP_OK \<or> sent_op (last msgs) = OP_ERROR \<or> sent_op (last msgs) = OP_DOWNLOAD_END)"

lemma finish_answers:
  assumes "shape_ok r rp" "finish_request calls r rp st = (st', msgs)"
  shows "well_answered r msgs" "sent_op (last msgs) = OP_ERROR \<longleftrightarrow> resp_op rp = OP_ERROR"
proof -
  have msgs: "msgs = sent_before rp @ final_reply r rp"
    using assms(2) by (auto simp: finish_request_def Let_def)
  have "well_answered r msgs \<and> (sent_op (last msgs) = OP_ERROR \<longleftrightarrow> resp_op rp = OP_ERROR)"
  proof (cases "response_sent rp")
    case True
    with assms(1) msgs show ?thesis
      by (auto simp: well_answered_def shape_ok_def final_reply_def)
  next
    case False
    then have "final_reply r rp = [respond_text (rq_fd r) (rq_client_id r) (resp_op rp) (wire_response r rp)]"
      by (simp add: final_reply_def)
    with False assms(1) msgs show ?thesis
      by (auto simp: well_answered_def shape_ok_def respond_text_def)
  qed
  then show "well_answered r msgs" "sent_op (last msgs) = OP_ERROR \<longleftrightarrow> resp_op rp = OP_ERROR" by blast+
qed

lemma finish_clears_active:
  "active_client_id st = sint (rq_client_id r) \<Longrightarrow> active_op_id st = sint (rq_op_id r) \<Longrightarrow>
   active_client_id (fst (finish_request calls r rp st)) = 0"
  by (simp add: finish_request_def Let_def)

text \<open>What a request sends, and what it does to the counters.\<close>

lemma request_answers:
  assumes "process_request L pg calls r (st, fs) = Ok ((st', fs'), msgs)"
  shows "well_answered r msgs \<and> total_commands st' = total_commands st + 1 \<and>
    failed_commands st' = failed_commands st + (if sent_op (last msgs) = OP_ERROR then 1 else 0) \<and>
    active_client_id st' = 0"
proof -
  let ?st0 = "start_request (wc_now calls) r st"
  have st0: "counters ?st0 = (total_commands st, failed_commands st, sint (rq_client_id r), sint (rq_op_id r),
      cancel_client_id st, queue_depth st, clients ?st0)"
    by (simp add: counters_def start_request_def Let_def client_touch_def split: option.splits)
  obtain st1 rp where shape: "shape_ok r rp" and fin: "finish_request calls r rp st1 = (st', msgs)"
    and c: "total_commands st1 = total_commands st" "failed_commands st1 = failed_commands st"
      "active_client_id st1 = sint (rq_client_id r)" "active_op_id st1 = sint (rq_op_id r)"
    using assms
  proof (cases rule: process_request_cases)
    case (cancelled st1 rp)
    then have "shape_ok r rp" by (auto simp: cancel_request_def shape_answer)
    moreover have "total_commands st1 = total_commands st" "failed_commands st1 = failed_commands st"
      "active_client_id st1 = sint (rq_client_id r)" "active_op_id st1 = sint (rq_op_id r)"
      using cancelled(2) st0 by (auto simp: cancel_request_def counters_def)
    ultimately show thesis using cancelled(3) that by blast
  next
    case (performed st1 rp)
    note ps = perform_request_shape [OF performed(2)]
    then have "total_commands st1 = total_commands st" "failed_commands st1 = failed_commands st"
      "active_client_id st1 = sint (rq_client_id r)" "active_op_id st1 = sint (rq_op_id r)"
      using st0 by (simp_all add: counters_def)
    then show thesis using ps(1) performed(3) that by blast
  qed
  have st': "st' = fst (finish_request calls r rp st1)" using fin by simp
  show ?thesis
    using finish_answers [OF shape fin] finish_clears_active [OF c(3,4), of calls rp] c(1,2)
    unfolding st' by simp
qed

text \<open>
  C18: every request is answered exactly once, on the descriptor and with the client id it
  came with: any parts of a download first, then one final message.  The command counter
  goes up by one, the failure counter exactly when the answer is an error, and no command
  is active afterwards.
\<close>

theorem request_answered:
  assumes "process_request L pg calls r (st, fs) = Ok ((st', fs'), msgs)"
  shows "well_answered r msgs \<and> total_commands st' = total_commands st + 1 \<and>
    failed_commands st' = failed_commands st + (if sent_op (last msgs) = OP_ERROR then 1 else 0) \<and>
    active_client_id st' = 0"
  using assms by (rule request_answers)

section \<open>Witnesses\<close>

text \<open>System calls that all succeed, and requests of client 1 on descriptor 5.\<close>

definition calm :: worker_calls where
  "calm = \<lparr>wc_now = 1, wc_finished = 2, wc_elapsed = 0, wc_upload_open = None, wc_append = None,
     wc_reader = (\<lambda>f. plain_file (case f of None \<Rightarrow> [] | Some s \<Rightarrow> s)), wc_child = ChildAnswers, wc_sql = None\<rparr>"

definition request_of :: "32 word \<Rightarrow> string option \<Rightarrow> Request" where
  "request_of opn p = \<lparr>rq_fd = 5, rq_client_id = 1, rq_op_id = opn, rq_job_id = 0, rq_payload = p,
     rq_payload_size = (case p of None \<Rightarrow> 0 | Some bs \<Rightarrow> word_of_nat (length bs))\<rparr>"

definition upload_of_example :: "(worker_calls \<times> Request) list" where
  "upload_of_example = [(calm, request_of OP_UPLOAD_BEGIN None), (calm, request_of OP_UPLOAD_CHUNK (Some ''{}'')),
     (calm, request_of OP_UPLOAD_END None)]"

lemma example_schema_node:
  "schema_node (json_lib (\<lambda>_. Some example_json)) example_json example_tables" "fresh_tables example_tables"
  by (simp_all add: schema_node_def array_member_def table_node_def column_node_def string_member_def
      bool_member_def json_lib_def example_json_def example_tables_def plain_column_def
      fresh_tables_def wf_tables_def wf_table_def wf_column_def)

lemma example_loads:
  "load_er_json (json_lib (\<lambda>_. Some example_json)) (plain_file ''{}'') st = (st\<lparr>tables := example_tables\<rparr>, Inr 2)"
  using load_schema_node [of "plain_file ''{}''" "''{}''" "json_lib (\<lambda>_. Some example_json)" example_json
      example_tables st] example_schema_node
  by (simp add: read_json_file_def plain_file_def) (simp add: json_lib_def example_tables_def)

lemma upload_of_example_run:
  obtains st' fs' msgs where
    "run_requests (json_lib (\<lambda>_. Some example_json)) Some upload_of_example (state_init 0, \<lambda>_. None) =
       Ok ((st', fs'), msgs)" "tables st' = example_tables"
proof -
  let ?L = "json_lib (\<lambda>_. Some example_json)"
  let ?path = "upload_path 1"
  have idle: "cancel_client_id (state_init 0) \<noteq> sint (1 :: 32 word)" by (simp add: state_init_def)
  have step: "\<exists>st' msgs. process_request ?L Some calm (request_of opn p) (st, fs) = Ok ((st', fs1), msgs) \<and>
      tables st' = tables st1 \<and> cancel_client_id st' = cancel_client_id st1"
    if "cancel_client_id st \<noteq> sint (1 :: 32 word)"
      "perform_request ?L Some calm (request_of opn p) (start_request 1 (request_of opn p) st, fs) =
         Ok ((st1, fs1), rp)" for opn p st fs st1 fs1 rp
    using process_performed [of st "request_of opn p" ?L Some calm fs st1 fs1 rp] that
    by (simp add: request_of_def calm_def)
  obtain st1 m1 where 1: "process_request ?L Some calm (request_of OP_UPLOAD_BEGIN None) (state_init 0, \<lambda>_. None) =
      Ok ((st1, [?path \<mapsto> []]), m1)" "cancel_client_id st1 \<noteq> sint (1 :: 32 word)"
    using step [OF idle, of OP_UPLOAD_BEGIN None] idle
    by (fastforce simp: perform_request_def request_of_def upload_begin_def calm_def)
  obtain st2 m2 where 2: "process_request ?L Some calm (request_of OP_UPLOAD_CHUNK (Some ''{}'')) (st1, [?path \<mapsto> []]) =
      Ok ((st2, [?path \<mapsto> ''{}'']), m2)" "cancel_client_id st2 \<noteq> sint (1 :: 32 word)"
    using step [OF 1(2), of OP_UPLOAD_CHUNK "Some ''{}''" "[?path \<mapsto> []]"] 1(2)
    by (fastforce simp: perform_request_def request_of_def upload_chunk_def append_upload_chunk_def calm_def)
  have "wc_reader calm (Some ''{}'') = plain_file ''{}''" by (simp add: calm_def)
  then obtain st3 m3 where "process_request ?L Some calm (request_of OP_UPLOAD_END None) (st2, [?path \<mapsto> ''{}'']) =
      Ok ((st3, [?path \<mapsto> ''{}'']), m3)" "tables st3 = example_tables"
    using step [OF 2(2), of OP_UPLOAD_END None "[?path \<mapsto> ''{}'']"] 2(2)
    by (fastforce simp: perform_request_def request_of_def upload_end_def example_loads)
  with 1 2 show thesis
    by (intro that [of st3 _ "m1 @ m2 @ m3"]) (simp_all add: upload_of_example_def)
qed

theorem requests_keep_sound_witness:
  "\<exists>sv. (\<exists>msgs. run_requests (json_lib (\<lambda>_. Some example_json)) Some upload_of_example
      (state_init 0, \<lambda>_. None) = Ok (sv, msgs)) \<and> tables (fst sv) = example_tables \<and>
    sound_tables (tables (fst sv))"
proof -
  obtain st' fs' msgs where r: "run_requests (json_lib (\<lambda>_. Some example_json)) Some upload_of_example
      (state_init 0, \<lambda>_. None) = Ok ((st', fs'), msgs)" "tables st' = example_tables"
    by (rule upload_of_example_run)
  have "sound_tables (tables (state_init 0))"
    by (simp add: state_init_def sound_tables_def wf_tables_def integrity_def)
  from requests_keep_sound [OF r(1) this] r show ?thesis by force
qed

theorem request_answered_witness:
  "\<exists>st' msgs. process_request (json_lib (\<lambda>_. None)) Some calm (request_of 99 None) (state_init 0, \<lambda>_. None) =
      Ok ((st', \<lambda>_. None), msgs) \<and> map sent_op msgs = [OP_ERROR] \<and> failed_commands st' = 1 \<and>
      well_answered (request_of 99 None) msgs"
proof -
  let ?L = "json_lib (\<lambda>_. None) :: json cjson"
  let ?r = "request_of 99 None"
  let ?st = "start_request (wc_now calm) ?r (state_init 0)"
  let ?rp = "answer OP_ERROR (''unknown operation '' @ udec 99)"
  have "process_request ?L Some calm ?r (state_init 0, \<lambda>_. None) =
      Ok ((fst (finish_request calm ?r ?rp ?st), \<lambda>_. None), snd (finish_request calm ?r ?rp ?st))"
    by (rule process_performed) (simp_all add: request_of_def state_init_def perform_request_def)
  then have p: "process_request ?L Some calm ?r (state_init 0, \<lambda>_. None) =
      Ok ((fst (finish_request calm ?r ?rp ?st), \<lambda>_. None), snd (finish_request calm ?r ?rp ?st))" .
  moreover have "map sent_op (snd (finish_request calm ?r ?rp ?st)) = [OP_ERROR]"
    by (simp add: finish_request_def Let_def answer_def final_reply_def respond_text_def)
  moreover have "total_commands (state_init 0) = 0" "failed_commands (state_init 0) = 0"
    by (simp_all add: state_init_def)
  ultimately show ?thesis
    using request_answered [OF p] by (auto simp: last_map [symmetric] map_eq_Cons_conv)
qed

end
