(* ===== verification/Uploads.thy ===== *)
theory Uploads
  imports Worker
begin

text \<open>
  What whole sequences of requests do: an upload arrives intact however the requests of
  other clients fall between its chunks, a cancelled request changes nothing but the
  bookkeeping, and an INSERT request stores exactly the rows of its batch.
\<close>

section \<open>Each client has a file of its own\<close>

lemma udec_inj: "udec a = udec b \<longleftrightarrow> a = b"
  by (metis digits_val_dec udec_def word_unat_eq_iff)

lemma length_udec: "length (udec w) \<le> 10"
  using length_dec [of "unat w" 9] unsigned_less [of w, where 'a = nat] by (simp add: udec_def)

lemma upload_path_inj: "upload_path a = upload_path b \<longleftrightarrow> a = b"
  using length_udec [of a] length_udec [of b] udec_inj [of a b]
  by (simp add: upload_path_def snprintf_fits)

lemma append_other_file:
  "append_upload_chunk e c p sz fs = (fs', good, msg) \<Longrightarrow> d \<noteq> c \<Longrightarrow> fs' (upload_path d) = fs (upload_path d)"
  by (auto simp: append_upload_chunk_def Let_def upload_path_inj split: option.splits file_error.splits if_splits)

lemma perform_other_file:
  assumes "perform_request L pg calls r (st, fs) = Ok ((st', fs'), rp)" "rq_client_id r \<noteq> c"
  shows "fs' (upload_path c) = fs (upload_path c)"
  using assms append_other_file [of "wc_append calls" "rq_client_id r" "rq_payload r" "rq_payload_size r" fs fs' _ _ c]
  by (auto simp: perform_request_def upload_begin_def upload_chunk_def upload_end_def generate_sql_request_def
      download_sql_request_def validate_insert_request_def Let_def upload_path_inj
      split: option.splits outcome.splits prod.splits sum.splits if_splits)

lemma finish_cancel_id: "finish_request calls r rp st = (st', msgs) \<Longrightarrow> cancel_client_id st' = cancel_client_id st"
  using finish_fields(8) [of calls r rp st] by simp

lemma process_cancel_id:
  assumes "process_request L pg calls r (st, fs) = Ok ((st', fs'), msgs)"
  shows "cancel_client_id st' = (if cancel_client_id st = sint (rq_client_id r) then 0 else cancel_client_id st)"
  using assms
proof (cases rule: process_request_cases)
  case (cancelled st1 rp)
  then show ?thesis using finish_cancel_id [OF cancelled(3)] by (auto simp: cancel_request_def)
next
  case (performed st1 rp)
  then show ?thesis
    using finish_cancel_id [OF performed(3)] perform_request_shape(2) [OF performed(2)] by (simp add: counters_def)
qed

lemma process_other_file:
  assumes "process_request L pg calls r (st, fs) = Ok ((st', fs'), msgs)" "rq_client_id r \<noteq> c"
  shows "fs' (upload_path c) = fs (upload_path c)"
  using assms(1)
proof (cases rule: process_request_cases)
  case (performed st1 rp)
  then show ?thesis using perform_other_file assms(2) by blast
qed simp

section \<open>Uploads\<close>

text \<open>A chunk whose write succeeds.\<close>

definition good_chunk :: "worker_calls \<times> Request \<Rightarrow> bool" where
  "good_chunk x \<longleftrightarrow> rq_op_id (snd x) = OP_UPLOAD_CHUNK \<and> wc_append (fst x) = None"

definition chunk_bytes :: "worker_calls \<times> Request \<Rightarrow> string" where
  "chunk_bytes x = payload_bytes (rq_payload (snd x))"

definition requests_of :: "32 word \<Rightarrow> (worker_calls \<times> Request) list \<Rightarrow> (worker_calls \<times> Request) list" where
  "requests_of c rs = filter (\<lambda>x. rq_client_id (snd x) = c) rs"

lemma process_chunk:
  assumes "process_request L pg calls r (st, fs) = Ok ((st', fs'), msgs)" "good_chunk (calls, r)"
    "cancel_client_id st \<noteq> sint (rq_client_id r)" "fs (upload_path (rq_client_id r)) = Some s"
  shows "fs' (upload_path (rq_client_id r)) = Some (s @ chunk_bytes (calls, r))"
  using assms(1)
proof (cases rule: process_request_cases)
  case (performed st1 rp)
  from performed(2) assms(2,4) show ?thesis
    by (auto simp: perform_request_def upload_chunk_def append_upload_chunk_def good_chunk_def chunk_bytes_def
        payload_bytes_def split: option.splits)
qed (use assms(3) in simp)

lemma process_begin:
  assumes "process_request L pg calls r (st, fs) = Ok ((st', fs'), msgs)" "rq_op_id r = OP_UPLOAD_BEGIN"
    "wc_upload_open calls = None" "cancel_client_id st \<noteq> sint (rq_client_id r)"
  shows "fs' (upload_path (rq_client_id r)) = Some []"
  using assms(1)
proof (cases rule: process_request_cases)
  case (performed st1 rp)
  from performed(2) assms(2,3) show ?thesis
    by (auto simp: perform_request_def upload_begin_def split: option.splits)
qed (use assms(4) in simp)

lemma run_Cons:
  assumes "run_requests L pg ((calls, r) # rs) (st, fs) = Ok ((st', fs'), msgs)"
  obtains st1 fs1 m1 m2 where "process_request L pg calls r (st, fs) = Ok ((st1, fs1), m1)"
    "run_requests L pg rs (st1, fs1) = Ok ((st', fs'), m2)" "msgs = m1 @ m2"
  using assms by (auto simp: obind_Ok_iff)

lemma cancel_id_stays:
  assumes "process_request L pg calls r (st, fs) = Ok ((st', fs'), msgs)" "cancel_client_id st \<noteq> sint c" "c \<noteq> 0"
  shows "cancel_client_id st' \<noteq> sint c"
  using process_cancel_id [OF assms(1)] assms(2,3) by (auto simp: signed_eq_0_iff split: if_splits)

text \<open>Chunks collect in the file, whatever other clients ask for in between.\<close>

lemma run_chunks:
  "run_requests L pg rs (st, fs) = Ok ((st', fs'), msgs) \<Longrightarrow> \<forall>x \<in> set (requests_of c rs). good_chunk x \<Longrightarrow>
   cancel_client_id st \<noteq> sint c \<Longrightarrow> c \<noteq> 0 \<Longrightarrow> fs (upload_path c) = Some s \<Longrightarrow>
   fs' (upload_path c) = Some (s @ concat (map chunk_bytes (requests_of c rs))) \<and> cancel_client_id st' \<noteq> sint c"
proof (induction rs arbitrary: st fs msgs s)
  case (Cons x rs)
  obtain calls r where x: "x = (calls, r)" by fastforce
  with Cons.prems(1) obtain st1 fs1 m1 m2 where
    p: "process_request L pg calls r (st, fs) = Ok ((st1, fs1), m1)"
    and rest: "run_requests L pg rs (st1, fs1) = Ok ((st', fs'), m2)"
    using run_Cons by metis
  note stays = cancel_id_stays [OF p Cons.prems(3,4)]
  show ?case
  proof (cases "rq_client_id r = c")
    case True
    with x Cons.prems(2) have "good_chunk (calls, r)" by (simp add: requests_of_def)
    with process_chunk [OF p] True Cons.prems(3,5)
    have "fs1 (upload_path c) = Some (s @ chunk_bytes x)" by (simp add: x)
    from Cons.IH [OF rest _ stays Cons.prems(4) this] Cons.prems(2) True show ?thesis
      by (simp add: x requests_of_def)
  next
    case False
    from process_other_file [OF p False] Cons.prems(5) have "fs1 (upload_path c) = Some s" by simp
    from Cons.IH [OF rest _ stays Cons.prems(4) this] Cons.prems(2) False show ?thesis
      by (simp add: x requests_of_def)
  qed
qed (simp add: requests_of_def)

text \<open>A whole upload up to its last chunk, from the first request of the client on.\<close>

lemma run_upload:
  "run_requests L pg rs (st, fs) = Ok ((st', fs'), msgs) \<Longrightarrow> requests_of c rs = (calls, r) # chunks \<Longrightarrow>
   rq_op_id r = OP_UPLOAD_BEGIN \<Longrightarrow> wc_upload_open calls = None \<Longrightarrow> \<forall>x \<in> set chunks. good_chunk x \<Longrightarrow>
   cancel_client_id st \<noteq> sint c \<Longrightarrow> c \<noteq> 0 \<Longrightarrow>
   fs' (upload_path c) = Some (concat (map chunk_bytes chunks)) \<and> cancel_client_id st' \<noteq> sint c"
proof (induction rs arbitrary: st fs msgs)
  case (Cons x rs)
  obtain k q where x: "x = (k, q)" by fastforce
  with Cons.prems(1) obtain st1 fs1 m1 m2 where
    p: "process_request L pg k q (st, fs) = Ok ((st1, fs1), m1)"
    and rest: "run_requests L pg rs (st1, fs1) = Ok ((st', fs'), m2)"
    using run_Cons by metis
  note stays = cancel_id_stays [OF p Cons.prems(6,7)]
  show ?case
  proof (cases "rq_client_id q = c")
    case True
    with x Cons.prems(2) have eq: "k = calls" "q = r" "requests_of c rs = chunks" by (auto simp: requests_of_def)
    have "fs1 (upload_path c) = Some []"
      using process_begin [OF p] True eq Cons.prems(3,4,6) by simp
    from run_chunks [OF rest _ stays Cons.prems(7) this] eq Cons.prems(5) show ?thesis by simp
  next
    case False
    with x Cons.prems(2) have "requests_of c rs = (calls, r) # chunks" by (simp add: requests_of_def)
    from Cons.IH [OF rest this Cons.prems(3-5) stays Cons.prems(7)] show ?thesis .
  qed
qed (simp add: requests_of_def)

lemma read_plain_file:
  "0 < length s \<Longrightarrow> length s \<le> MAX_ER_FILE_SIZE \<Longrightarrow> read_json_file (plain_file s) = Inr s"
  by (simp add: read_json_file_def plain_file_def)

text \<open>The text of the answer to a request, behind the job number where it has one.\<close>

definition answer_text :: "Request \<Rightarrow> string \<Rightarrow> string" where
  "answer_text r s = (if 0 < rq_job_id r then ''job='' @ sdec (rq_job_id r) @ [CHR 0x0A] @ s else s)"

lemma length_sdec: "0 \<le> j \<Longrightarrow> j < 2 ^ 31 \<Longrightarrow> length (sdec j) \<le> 10"
  using length_dec [of "nat j" 9] by (auto simp: sdec_def)

lemma wire_answer:
  assumes "length s < 2048" "rq_job_id r < 2 ^ 31"
  shows "wire_response r (answer opn s) = answer_text r s"
  using assms length_sdec [of "rq_job_id r"]
  by (auto simp: wire_response_def answer_text_def answer_def snprintf_fits)

lemma finish_unsent:
  "snd (finish_request calls r (answer opn s) st) =
   [respond_text (rq_fd r) (rq_client_id r) opn (wire_response r (answer opn s))]"
  by (simp add: finish_request_def Let_def answer_def final_reply_def)

lemma run_snoc:
  "run_requests L pg (rs @ [(calls, r)]) sv = Ok (sv', msgs) \<Longrightarrow>
   \<exists>sv1 m1 m2. run_requests L pg rs sv = Ok (sv1, m1) \<and> process_request L pg calls r sv1 = Ok (sv', m2) \<and>
     msgs = m1 @ m2"
proof (induction rs arbitrary: sv msgs)
  case (Cons x rs)
  obtain k q where x: "x = (k, q)" by fastforce
  with Cons.prems obtain sva ma mb where p: "process_request L pg k q sv = Ok (sva, ma)"
    and rest: "run_requests L pg (rs @ [(calls, r)]) sva = Ok (sv', mb)" and m: "msgs = ma @ mb"
    by (auto simp: obind_Ok_iff)
  from Cons.IH [OF rest] p m x show ?case by (force simp: obind_Ok_iff)
qed (auto simp: obind_Ok_iff)

text \<open>The requests of client c are an upload that starts and stores s without errors.\<close>

definition uploads :: "32 word \<Rightarrow> string \<Rightarrow> (worker_calls \<times> Request) list \<Rightarrow> bool" where
  "uploads c s rs \<longleftrightarrow> (case requests_of c rs of
      [] \<Rightarrow> False
    | (calls, r) # chunks \<Rightarrow> rq_op_id r = OP_UPLOAD_BEGIN \<and> wc_upload_open calls = None \<and>
        list_all good_chunk chunks \<and> s = concat (map chunk_bytes chunks))"

lemma process_end:
  assumes "process_request L pg k e (st, fs) = Ok ((st', fs'), msgs)" "rq_op_id e = OP_UPLOAD_END"
    and "cancel_client_id st \<noteq> sint (rq_client_id e)"
    and "load_er_json L (wc_reader k (fs (upload_path (rq_client_id e)))) (start_request (wc_now k) e st) =
      ((start_request (wc_now k) e st)\<lparr>tables := ts\<rparr>, Inr (length ts))"
    and "length ts \<le> MAX_TABLES" "rq_job_id e < 2 ^ 31"
  shows "tables st' = ts"
    "msgs = [respond_text (rq_fd e) (rq_client_id e) OP_OK
       (answer_text e (''OK: loaded '' @ dec (length ts) @ '' tables''))]"
proof -
  let ?s = "''OK: loaded '' @ dec (length ts) @ '' tables''"
  have len: "length (dec (length ts)) \<le> 2" using assms(5) length_dec [of "length ts" 1] by simp
  have "\<exists>st1. perform_request L pg k e (start_request (wc_now k) e st, fs) = Ok ((st1, fs), answer OP_OK ?s) \<and>
      tables st1 = ts"
    using assms(2,4) len by (simp add: perform_request_def upload_end_def load_message_def snprintf_fits)
  then obtain st1 where st1: "perform_request L pg k e (start_request (wc_now k) e st, fs) =
      Ok ((st1, fs), answer OP_OK ?s)" "tables st1 = ts" by blast
  have "wire_response e (answer OP_OK ?s) = answer_text e ?s"
    using len assms(6) by (intro wire_answer) simp_all
  with process_performed [OF assms(3) st1(1)] assms(1) st1(2)
  show "tables st' = ts" "msgs = [respond_text (rq_fd e) (rq_client_id e) OP_OK (answer_text e ?s)]"
    by (auto simp: finish_unsent)
qed

text \<open>
  C10: uploads of different clients do not mix.  Whatever other clients ask for between the
  chunks of an upload (uploads of their own, INSERTs, unknown operations), its last request
  loads the concatenation of exactly its own chunks: the schema its JSON describes replaces
  the one of the server, and the client is told the number of its tables.
\<close>

theorem upload_loads_schema:
  assumes "run_requests L pg (rs @ [(k, e)]) (st, fs) = Ok ((st', fs'), msgs)"
    and "uploads (rq_client_id e) s rs" and "rq_op_id e = OP_UPLOAD_END" and "rq_job_id e < 2 ^ 31"
    and "cancel_client_id st \<noteq> sint (rq_client_id e)" and "rq_client_id e \<noteq> 0"
    and "wc_reader k (Some s) = plain_file s" and "0 < length s" and "length s \<le> MAX_ER_FILE_SIZE"
    and "cj_parse L s = Some root" and "schema_node L root ts" and "fresh_tables ts"
  shows "tables st' = ts \<and> last msgs = respond_text (rq_fd e) (rq_client_id e) OP_OK
    (answer_text e (''OK: loaded '' @ dec (length ts) @ '' tables''))"
proof -
  obtain st1 fs1 m1 m2 where before: "run_requests L pg rs (st, fs) = Ok ((st1, fs1), m1)"
    and final: "process_request L pg k e (st1, fs1) = Ok ((st', fs'), m2)" and m: "msgs = m1 @ m2"
    using run_snoc [OF assms(1)] by force
  obtain calls r chunks where up: "requests_of (rq_client_id e) rs = (calls, r) # chunks"
    "rq_op_id r = OP_UPLOAD_BEGIN" "wc_upload_open calls = None" "\<forall>x \<in> set chunks. good_chunk x"
    "s = concat (map chunk_bytes chunks)"
    using assms(2) by (auto simp: uploads_def list_all_iff split: list.splits)
  have stored: "fs1 (upload_path (rq_client_id e)) = Some s" "cancel_client_id st1 \<noteq> sint (rq_client_id e)"
    using run_upload [OF before up(1-4) assms(5,6)] up(5) by auto
  have len: "length ts \<le> MAX_TABLES" using assms(12) by (simp add: fresh_tables_def wf_tables_def)
  have load: "load_er_json L (wc_reader k (fs1 (upload_path (rq_client_id e)))) st2 =
      (st2\<lparr>tables := ts\<rparr>, Inr (length ts))" for st2
    unfolding stored(1) assms(7) by (rule load_schema_node [OF read_plain_file [OF assms(8,9)] assms(10-12)])
  note ended = process_end [OF final assms(3) stored(2) load len assms(4)]
  show ?thesis
    unfolding m ended(2) using ended(1) by (simp only: last_snoc simp_thms)
qed

section \<open>Cancelled requests\<close>

text \<open>A request that finds the mark of its client is refused.\<close>

lemma cancelled_refused:
  assumes "cancel_client_id st = sint (rq_client_id r)" and "rq_job_id r < 2 ^ 31"
  shows "\<exists>st'. process_request L pg calls r (st, fs) = Ok ((st', fs),
      [respond_text (rq_fd r) (rq_client_id r) OP_ERROR (answer_text r ''command cancelled by admin'')]) \<and>
    tables st' = tables st \<and> insert_commands st' = insert_commands st \<and>
    cancelled_commands st' = cancelled_commands st + 1 \<and> cancel_client_id st' = 0"
proof -
  let ?st0 = "start_request (wc_now calls) r st"
  let ?rp = "answer OP_ERROR ''command cancelled by admin''"
  let ?st1 = "history_add ''command cancelled''
      (?st0\<lparr>cancelled_commands := cancelled_commands ?st0 + 1, cancel_client_id := 0\<rparr>)"
  have c: "cancel_request ?st0 = (?st1, ?rp)" by (simp add: cancel_request_def)
  have job: "insert_commands (job_update now j s t u) = insert_commands u"
    "cancelled_commands (job_update now j s t u) = cancelled_commands u" for now j s t u
    by (simp_all add: job_update_def split: option.splits)
  have st0: "insert_commands ?st0 = insert_commands st" "cancelled_commands ?st0 = cancelled_commands st"
    by (simp_all add: start_request_def Let_def job client_touch_def split: option.splits)
  have fin: "insert_commands (fst (finish_request calls r rp u)) = insert_commands u"
    "cancelled_commands (fst (finish_request calls r rp u)) = cancelled_commands u" for rp u
    by (simp_all add: finish_request_def Let_def job)
  have "wire_response r ?rp = answer_text r ''command cancelled by admin''"
    using assms(2) by (intro wire_answer) simp_all
  then show ?thesis
    unfolding process_cancelled [OF assms(1) c, of L pg fs] finish_unsent
    by (intro exI [of _ "fst (finish_request calls r ?rp ?st1)"])
       (simp add: fin st0 history_add_def del: OP_ERROR_def)
qed

text \<open>
  C26: a request of the client whose command the administrator cancelled is refused without
  any effect on the schema, the rows or the files; the mark is then cleared, so that exactly
  one request is cancelled.
\<close>

theorem cancelled_request_refused:
  assumes "cancel_client_id st = sint (rq_client_id r)" and "rq_job_id r < 2 ^ 31"
  shows "\<exists>st'. process_request L pg calls r (st, fs) = Ok ((st', fs),
      [respond_text (rq_fd r) (rq_client_id r) OP_ERROR (answer_text r ''command cancelled by admin'')]) \<and>
    tables st' = tables st \<and> insert_commands st' = insert_commands st \<and>
    cancelled_commands st' = cancelled_commands st + 1 \<and> cancel_client_id st' = 0"
  using assms by (rule cancelled_refused)

section \<open>INSERT requests\<close>

lemma validated_parses:
  "validate_insert_batch pg ts sql = Ok n \<Longrightarrow> \<exists>batch. parse_batch ts sql = Ok batch"
  using check_batch_Ok [of pg ts sql] by (auto simp: validate_insert_batch_def obind_Ok_iff split: if_splits)

lemma apply_tables_only:
  "apply_insert_batch pg (st\<lparr>insert_commands := k\<rparr>) sql =
   (let (st', res) = apply_insert_batch pg st sql in (st'\<lparr>insert_commands := k\<rparr>, res))"
  by (simp add: apply_insert_batch_def split: outcome.splits)

lemma dec_rows_short: "n \<le> 1023 \<Longrightarrow> length (dec n) \<le> 4"
  using length_dec [of n 3] by simp

text \<open>What the worker does with a batch that the child refuses or accepts.\<close>

lemma insert_refused:
  assumes "rq_payload r = Some bs" "wc_child calls = ChildAnswers" "validate_insert_batch pg (tables st) (cstr bs) = Err e"
  shows "validate_insert_request pg calls r (st, fs) =
    Ok ((history_add ''insert rejected'' (st\<lparr>insert_commands := insert_commands st + 1\<rparr>), fs),
      answer OP_ERROR (''ERROR: '' @ snprintf 1024 (insert_error_text e)))"
  using assms by (simp add: validate_insert_request_def child_validate_insert_eq validate_message_def)

lemma insert_accepted:
  assumes "rq_payload r = Some bs" "wc_child calls = ChildAnswers" "validate_insert_batch pg (tables st) (cstr bs) = Ok n"
    and "wf_tables (tables st)" "parse_batch (tables st) (cstr bs) = Ok batch"
  shows "n = length batch"
    "validate_insert_request pg calls r (st, fs) =
      (if fits_storage (tables st) batch
       then Ok ((history_add ''insert accepted'' (st\<lparr>tables := fold add_row batch (tables st),
          insert_commands := insert_commands st + 1\<rparr>), fs), answer OP_OK (''OK: inserted '' @ dec n @ '' row(s)''))
       else Fault RowStorageOverflow)"
proof -
  note app = validated_apply [OF assms(3-5)]
  then show n: "n = length batch" by simp
  have "length (dec n) \<le> 4"
    using parse_batch_rows_wf [OF assms(5,4)] n by (intro dec_rows_short) simp
  then have "snprintf 2048 (''OK: inserted '' @ dec n @ '' row(s)'') = ''OK: inserted '' @ dec n @ '' row(s)''"
    by (simp add: snprintf_fits)
  then show "validate_insert_request pg calls r (st, fs) =
      (if fits_storage (tables st) batch
       then Ok ((history_add ''insert accepted'' (st\<lparr>tables := fold add_row batch (tables st),
          insert_commands := insert_commands st + 1\<rparr>), fs), answer OP_OK (''OK: inserted '' @ dec n @ '' row(s)''))
       else Fault RowStorageOverflow)"
    using assms(1-3) app
    by (simp add: validate_insert_request_def child_validate_insert_eq apply_tables_only apply_message_def del: OP_OK_def)
qed

text \<open>
  C5: an INSERT request stores all rows of its batch or none.  When the child accepts the
  batch, its rows are added in order and the client is told their number, unless the batch
  overruns the array of rows; when the child refuses it, the client gets the reason and the
  tables stay as they are.
\<close>

theorem insert_request_exact:
  assumes "rq_op_id r = OP_VALIDATE_INSERT" and "rq_payload r = Some bs" and "wc_child calls = ChildAnswers"
    and "cancel_client_id st \<noteq> sint (rq_client_id r)" and "wf_tables (tables st)" and "rq_job_id r < 2 ^ 31"
  shows "case validate_insert_batch pg (tables st) (cstr bs) of
      Fault u \<Rightarrow> process_request L pg calls r (st, fs) = Fault u
    | Err e \<Rightarrow> \<exists>st'. process_request L pg calls r (st, fs) = Ok ((st', fs),
        [respond_text (rq_fd r) (rq_client_id r) OP_ERROR
          (answer_text r (''ERROR: '' @ snprintf 1024 (insert_error_text e)))]) \<and> tables st' = tables st
    | Ok n \<Rightarrow> \<exists>batch. parse_batch (tables st) (cstr bs) = Ok batch \<and> n = length batch \<and>
        (if fits_storage (tables st) batch
         then \<exists>st'. process_request L pg calls r (st, fs) = Ok ((st', fs),
            [respond_text (rq_fd r) (rq_client_id r) OP_OK
              (answer_text r (''OK: inserted '' @ dec n @ '' row(s)''))]) \<and>
            tables st' = fold add_row batch (tables st)
         else process_request L pg calls r (st, fs) = Fault RowStorageOverflow)"
proof -
  define st0 where "st0 = start_request (wc_now calls) r st"
  have t0: "tables st0 = tables st" by (simp add: st0_def)
  have P: "process_request L pg calls r (st, fs) =
      obind (validate_insert_request pg calls r (st0, fs))
        (\<lambda>((st, fs), rp). Ok ((fst (finish_request calls r rp st), fs), snd (finish_request calls r rp st)))"
    using assms(1,4) by (simp add: process_request_def perform_request_def st0_def Let_def case_prod_unfold)
  show ?thesis
  proof (cases "validate_insert_batch pg (tables st) (cstr bs)")
    case (Fault u)
    then show ?thesis
      using assms(2,3) by (simp add: P validate_insert_request_def child_validate_insert_eq t0)
  next
    case (Err e)
    let ?s = "''ERROR: '' @ snprintf 1024 (insert_error_text e)"
    have "wire_response r (answer OP_ERROR ?s) = answer_text r ?s"
      using assms(6) by (intro wire_answer) auto
    with insert_refused [OF assms(2,3), of pg st0 e fs] Err show ?thesis
      by (simp add: P finish_unsent t0 del: OP_ERROR_def)
  next
    case (Ok n)
    obtain batch where b: "parse_batch (tables st) (cstr bs) = Ok batch" using validated_parses [OF Ok] by blast
    let ?s = "''OK: inserted '' @ dec n @ '' row(s)''"
    note acc = insert_accepted [OF assms(2,3) Ok [folded t0] assms(5) [folded t0] b [folded t0]]
    have "length (dec n) \<le> 4"
      using parse_batch_rows_wf [OF b assms(5)] acc(1) by (intro dec_rows_short) simp
    then have "wire_response r (answer OP_OK ?s) = answer_text r ?s"
      using assms(6) by (intro wire_answer) simp_all
    with acc Ok b show ?thesis
      by (simp add: P finish_unsent t0 del: OP_OK_def)
  qed
qed

section \<open>Witnesses\<close>

text \<open>Only INSERT requests can leave the arrays of the program.\<close>

lemma process_no_fault:
  assumes "rq_op_id r \<noteq> OP_VALIDATE_INSERT"
  obtains st' fs' msgs where "process_request L pg calls r (st, fs) = Ok ((st', fs'), msgs)"
proof (cases "cancel_client_id st = sint (rq_client_id r)")
  case True
  obtain st1 rp where "cancel_request (start_request (wc_now calls) r st) = (st1, rp)" by fastforce
  from process_cancelled [OF True this] that show thesis by blast
next
  case False
  obtain st1 fs1 rp where
    "perform_request L pg calls r (start_request (wc_now calls) r st, fs) = Ok ((st1, fs1), rp)"
    using assms by (cases "upload_begin calls r (start_request (wc_now calls) r st, fs)";
        cases "upload_chunk calls r (start_request (wc_now calls) r st, fs)";
        cases "upload_end L calls r (start_request (wc_now calls) r st, fs)";
        cases "generate_sql_request (start_request (wc_now calls) r st, fs)";
        cases "download_sql_request calls r (start_request (wc_now calls) r st, fs)")
      (force simp: perform_request_def)
  from process_performed [OF False this] that show thesis by blast
qed

lemma run_no_fault:
  "\<forall>x \<in> set rs. rq_op_id (snd x) \<noteq> OP_VALIDATE_INSERT \<Longrightarrow>
   \<exists>st' fs' msgs. run_requests L pg rs (st, fs) = Ok ((st', fs'), msgs)"
proof (induction rs arbitrary: st fs)
  case (Cons x rs)
  obtain calls r where x: "x = (calls, r)" by fastforce
  with Cons.prems have "rq_op_id r \<noteq> OP_VALIDATE_INSERT" by simp
  then obtain st1 fs1 m1 where "process_request L pg calls r (st, fs) = Ok ((st1, fs1), m1)"
    by (rule process_no_fault)
  with Cons.IH [of st1 fs1] Cons.prems show ?case by (auto simp: x)
qed simp

text \<open>Two clients upload at the same time; the first one ends its upload.\<close>

definition two_uploads :: "(worker_calls \<times> Request) list" where
  "two_uploads = map (Pair calm)
     [(request_of OP_UPLOAD_BEGIN None)\<lparr>rq_client_id := 2\<rparr>, request_of OP_UPLOAD_BEGIN None,
      request_of OP_UPLOAD_CHUNK (Some ''{''), (request_of OP_UPLOAD_CHUNK (Some ''[]''))\<lparr>rq_client_id := 2\<rparr>,
      request_of OP_UPLOAD_CHUNK (Some ''}'')]"

lemma dec_2: "dec 2 = ''2''" "dec (Suc (Suc 0)) = ''2''"
  by (simp_all add: dec.simps digit_char_def)

theorem upload_loads_schema_witness:
  "\<exists>sv msgs. run_requests (json_lib (\<lambda>_. Some example_json)) Some
      (two_uploads @ [(calm, request_of OP_UPLOAD_END None)]) (state_init 0, \<lambda>_. None) = Ok (sv, msgs) \<and>
    tables (fst sv) = example_tables \<and> body (last msgs) = ''OK: loaded 2 tables''"
proof -
  let ?L = "json_lib (\<lambda>_. Some example_json)" and ?e = "request_of OP_UPLOAD_END None"
  obtain st' fs' msgs where
    run: "run_requests ?L Some (two_uploads @ [(calm, ?e)]) (state_init 0, \<lambda>_. None) = Ok ((st', fs'), msgs)"
    using run_no_fault [of "two_uploads @ [(calm, ?e)]"]
    by (fastforce simp: two_uploads_def request_of_def)
  have "uploads (rq_client_id ?e) ''{}'' two_uploads"
    by (simp add: uploads_def requests_of_def two_uploads_def request_of_def calm_def good_chunk_def
        chunk_bytes_def payload_bytes_def)
  note loaded = upload_loads_schema [OF run this, where root = example_json and ts = example_tables]
  have "tables st' = example_tables \<and> last msgs = respond_text (rq_fd ?e) (rq_client_id ?e) OP_OK
    (answer_text ?e (''OK: loaded '' @ dec (length example_tables) @ '' tables''))"
    using example_schema_node
    by (intro loaded) (simp_all add: request_of_def calm_def state_init_def json_lib_def)
  then show ?thesis
    using run by (simp add: respond_text_def answer_text_def request_of_def example_tables_def dec_2)
qed

theorem cancelled_request_refused_witness:
  "\<exists>st'. process_request (json_lib (\<lambda>_. None)) Some calm (request_of OP_GENERATE_SQL None)
      (state_init 0\<lparr>cancel_client_id := 1\<rparr>, \<lambda>_. None) =
    Ok ((st', \<lambda>_. None), [respond_text 5 1 OP_ERROR ''command cancelled by admin'']) \<and>
    cancelled_commands st' = 1"
proof -
  have "cancel_client_id (state_init 0\<lparr>cancel_client_id := 1\<rparr>) = sint (rq_client_id (request_of OP_GENERATE_SQL None))"
    "rq_job_id (request_of OP_GENERATE_SQL None) < 2 ^ 31"
    by (simp_all add: request_of_def)
  from cancelled_request_refused [OF this, of "json_lib (\<lambda>_. None)" Some calm "\<lambda>_. None"] show ?thesis
    by (auto simp: request_of_def answer_text_def state_init_def)
qed

theorem insert_request_exact_witness:
  "\<exists>st'. process_request (json_lib (\<lambda>_. None)) (\<lambda>_. None) calm
      (request_of OP_VALIDATE_INSERT (Some (insert_text two_logs))) (log_state 5, \<lambda>_. None) =
    Ok ((st', \<lambda>_. None), [respond_text 5 1 OP_OK ''OK: inserted 2 row(s)'']) \<and>
    tables st' = fold add_row [log_row ''a'', log_row ''b''] (tables (log_state 5))"
proof -
  let ?r = "request_of OP_VALIDATE_INSERT (Some (insert_text two_logs))"
  have plain: "cstr (insert_text two_logs) = insert_text two_logs"
    by (rule cstr_id) code_simp
  have fits: "fits_storage (tables (log_state 5)) [log_row ''a'', log_row ''b'']"
    by (simp add: fits_storage_def rows_for_def log_row_def log_state_def log_table_def)
  have parse: "parse_batch (tables (log_state 5)) (insert_text two_logs) = Ok [log_row ''a'', log_row ''b'']"
    by (simp add: log_state_tables parse_two_logs)
  have "case validate_insert_batch (\<lambda>_. None) (tables (log_state 5)) (cstr (insert_text two_logs)) of
      Fault u \<Rightarrow> process_request (json_lib (\<lambda>_. None)) (\<lambda>_. None) calm ?r (log_state 5, \<lambda>_. None) = Fault u
    | Err e \<Rightarrow> \<exists>st'. process_request (json_lib (\<lambda>_. None)) (\<lambda>_. None) calm ?r (log_state 5, \<lambda>_. None) =
        Ok ((st', \<lambda>_. None), [respond_text (rq_fd ?r) (rq_client_id ?r) OP_ERROR
          (answer_text ?r (''ERROR: '' @ snprintf 1024 (insert_error_text e)))]) \<and> tables st' = tables (log_state 5)
    | Ok n \<Rightarrow> \<exists>batch. parse_batch (tables (log_state 5)) (cstr (insert_text two_logs)) = Ok batch \<and> n = length batch \<and>
        (if fits_storage (tables (log_state 5)) batch
         then \<exists>st'. process_request (json_lib (\<lambda>_. None)) (\<lambda>_. None) calm ?r (log_state 5, \<lambda>_. None) =
            Ok ((st', \<lambda>_. None), [respond_text (rq_fd ?r) (rq_client_id ?r) OP_OK
              (answer_text ?r (''OK: inserted '' @ dec n @ '' row(s)''))]) \<and>
            tables st' = fold add_row batch (tables (log_state 5))
         else process_request (json_lib (\<lambda>_. None)) (\<lambda>_. None) calm ?r (log_state 5, \<lambda>_. None) = Fault RowStorageOverflow)"
    by (rule insert_request_exact)
       (simp_all add: request_of_def calm_def log_state_wf, simp_all add: log_state_def state_init_def)
  then show ?thesis
    using fits parse validate_logs [of 5]
    by (simp add: plain request_of_def answer_text_def dec_2)
qed

end
