(* ===== verification/Interface.thy ===== *)
theory Interface
  imports Worker
begin

text \<open>
  The ordinary interface thread of \<open>src/server.c\<close>: \<open>remove_pollfd\<close>, \<open>accept_client\<close> and
  \<open>ordinary_interface_main\<close> with its handling of one message and its pass over the
  descriptors that \<open>poll\<close> reports.  The global variables the threads share are one record;
  what is sent, closed or shut down is a list of effects.
\<close>

section \<open>Globals, descriptors, effects\<close>

definition MAX_FDS :: nat where [simp]: "MAX_FDS = 256"

record globals =
  g_state :: SharedState
  g_queue :: RequestQueue
  g_fd_addrs :: "FdAddress list"
  g_blocked_addrs :: "string list"
  g_files :: files

definition globals_init :: "int \<Rightarrow> globals" where
  "globals_init now = \<lparr>g_state = state_init now, g_queue = queue_init,
     g_fd_addrs = replicate MAX_ADDR_TRACK no_address, g_blocked_addrs = [], g_files = (\<lambda>_. None)\<rparr>"

definition with_state :: "(SharedState \<Rightarrow> SharedState) \<Rightarrow> globals \<Rightarrow> globals" where
  "with_state f g = g\<lparr>g_state := f (g_state g)\<rparr>"

text \<open>An entry of the array given to \<open>poll\<close>, and whether \<open>revents\<close> asks for attention.\<close>

record pollfd =
  pf_fd :: int
  pf_ready :: bool

datatype effect = Send sent | Close int | ShutDown int

definition remove_pollfd :: "nat \<Rightarrow> pollfd list \<times> globals \<Rightarrow> (pollfd list \<times> globals) \<times> effect list" where
  "remove_pollfd idx s =
     (let (fds, g) = s;
          fd = pf_fd (fds ! idx);
          g = with_state (client_remove_fd fd) g;
          g = g\<lparr>g_fd_addrs := fd_addr_remove fd (g_fd_addrs g)\<rparr>
      in ((take idx fds @ drop (Suc idx) fds, g), [Close fd]))"

text \<open>What \<open>accept\<close> returns: an error, or the new descriptor and what \<open>inet_ntop\<close> makes of the address.\<close>

type_synonym accepted = "(int \<times> string option) option"

definition accept_client :: "accepted \<Rightarrow> pollfd list \<times> globals \<Rightarrow> (pollfd list \<times> globals) \<times> effect list" where
  "accept_client acc s =
     (let (fds, g) = s in
      case acc of
        None \<Rightarrow> (s, [])
      | Some (fd, ip) \<Rightarrow>
          if MAX_FDS \<le> length fds then (s, [Close fd])
          else (case ip of
              None \<Rightarrow> (s, [Close fd])
            | Some ip \<Rightarrow>
                if addr_blocked ip (g_blocked_addrs g)
                then (s, [Send (respond_text fd 0 OP_ERROR ''access denied by admin blocklist''), Close fd])
                else ((fds @ [\<lparr>pf_fd = fd, pf_ready = False\<rparr>],
                       g\<lparr>g_fd_addrs := fd_addr_set fd ip (g_fd_addrs g)\<rparr>), [])))"

section \<open>One message\<close>

text \<open>The time, and where \<open>calloc\<close> puts the request (\<open>None\<close> where it fails).\<close>

record iface_calls =
  ic_now :: int
  ic_calloc :: "nat option"

definition handle_connect :: "iface_calls \<Rightarrow> int \<Rightarrow> globals \<Rightarrow> globals \<times> effect list" where
  "handle_connect k fd g =
     (let (st, cid) = connect_client (ic_now k) fd (fd_addr_get fd (g_fd_addrs g)) (g_state g)
      in (g\<lparr>g_state := history_add ''client connected'' st\<rparr>,
          [Send (respond_text fd cid OP_OK (snprintf 64 (udec cid)))]))"

definition enqueue_request :: "iface_calls \<Rightarrow> int \<Rightarrow> MsgHeader \<Rightarrow> string option \<Rightarrow> globals \<Rightarrow> globals \<times> effect list" where
  "enqueue_request k fd h payload g =
     (case ic_calloc k of
        None \<Rightarrow> (g, [Send (respond_text fd (mh_client_id h) OP_ERROR ''server out of memory'')])
      | Some p \<Rightarrow>
          (let (st, job) = (if is_processing_op (mh_op_id h)
                            then job_create (ic_now k) (mh_client_id h) (mh_op_id h) (g_state g)
                            else (g_state g, 0));
               req = \<lparr>rq_fd = fd, rq_client_id = mh_client_id h, rq_op_id = mh_op_id h, rq_job_id = job,
                      rq_payload = payload, rq_payload_size = msg_size h\<rparr>;
               (q, st) = queue_push p req (g_queue g, st)
           in (g\<lparr>g_queue := q, g_state := st\<rparr>, [])))"

text \<open>A message that neither connects nor says goodbye.\<close>

definition handle_request :: "iface_calls \<Rightarrow> int \<Rightarrow> MsgHeader \<Rightarrow> string option \<Rightarrow> globals \<Rightarrow> globals \<times> effect list" where
  "handle_request k fd h payload g =
     (if \<not> is_registered_client (mh_client_id h) (g_state g)
      then (g, [Send (respond_text fd (mh_client_id h) OP_ERROR ''client must CONNECT first'')])
      else if mh_op_id h = OP_JOB_STATUS \<or> mh_op_id h = OP_JOB_RESULT
      then (let (opn, s) = respond_job_info (g_state g) (mh_client_id h) (mh_op_id h) payload
            in (g, [Send (respond_text fd (mh_client_id h) opn s)]))
      else enqueue_request k fd h payload g)"

datatype fate = Stays | Removed | Hangs

text \<open>
  The descriptor at position i is ready: receive a message and handle it.  Where
  \<open>recv_message\<close> does not return, the thread hangs.
\<close>

definition ordinary_message ::
  "iface_calls \<Rightarrow> recv_result \<Rightarrow> nat \<Rightarrow> pollfd list \<times> globals \<Rightarrow> (pollfd list \<times> globals) \<times> effect list \<times> fate" where
  "ordinary_message k res i s =
     (let (fds, g) = s; fd = pf_fd (fds ! i) in
      case res of
        RecvBlocked \<Rightarrow> (s, [], Hangs)
      | Message h payload \<Rightarrow>
          if mh_op_id h = OP_CONNECT then (let (g, eff) = handle_connect k fd g in ((fds, g), eff, Stays))
          else if mh_op_id h = OP_BYE then
            (let (s, eff) = remove_pollfd i s
             in (s, Send (respond_text fd (mh_client_id h) OP_OK ''bye'') # eff, Removed))
          else (let (g, eff) = handle_request k fd h payload g in ((fds, g), eff, Stays))
      | _ \<Rightarrow> (let (s, eff) = remove_pollfd i s in (s, eff, Removed)))"

section \<open>One pass over the ready descriptors\<close>

text \<open>What a pass finds at the descriptors: the connection to accept, and what each delivers.\<close>

record arrivals =
  ar_accept :: accepted
  ar_recv :: "int \<Rightarrow> recv_result"
  ar_calls :: "int \<Rightarrow> iface_calls"

definition handle_ready ::
  "int \<Rightarrow> arrivals \<Rightarrow> nat \<Rightarrow> pollfd list \<times> globals \<Rightarrow> (pollfd list \<times> globals) \<times> effect list \<times> fate" where
  "handle_ready listen_fd ar i s =
     (let fd = pf_fd (fst s ! i) in
      if fd = listen_fd then (let (s, eff) = accept_client (ar_accept ar) s in (s, eff, Stays))
      else ordinary_message (ar_calls ar fd) (ar_recv ar fd) i s)"

definition ready_from :: "nat \<Rightarrow> pollfd list \<Rightarrow> nat" where
  "ready_from i fds = length (filter pf_ready (drop i fds))"

lemma ready_from_Suc: "i < length fds \<Longrightarrow> ready_from i fds = (if pf_ready (fds ! i) then 1 else 0) + ready_from (Suc i) fds"
  by (simp add: ready_from_def Cons_nth_drop_Suc [symmetric])

lemma ready_from_snoc: "ready_from i (fds @ [\<lparr>pf_fd = fd, pf_ready = False\<rparr>]) = ready_from i fds"
  by (cases "i - length fds") (simp_all add: ready_from_def)

lemma ready_from_removed:
  assumes "i < length fds"
  shows "ready_from i (take i fds @ drop (Suc i) fds) = ready_from (Suc i) fds"
proof -
  have "drop i (take i fds @ drop (Suc i) fds) = drop (Suc i) fds" using assms by simp
  then show ?thesis by (simp add: ready_from_def)
qed

text \<open>What handling a ready descriptor does to the array.\<close>

lemma handle_ready_fds:
  assumes "handle_ready listen_fd ar i (fds, g) = ((fds', g'), eff, fate)"
  shows "if fate = Removed then fds' = take i fds @ drop (Suc i) fds
    else fds' = fds \<or> (length fds < MAX_FDS \<and> (\<exists>fd ip. ar_accept ar = Some (fd, ip) \<and>
      fds' = fds @ [\<lparr>pf_fd = fd, pf_ready = False\<rparr>]))"
  using assms
  by (auto simp: handle_ready_def accept_client_def ordinary_message_def remove_pollfd_def Let_def
      split: if_splits option.splits prod.splits recv_result.splits)

text \<open>
  The loop \<open>for (int i = 0; i < nfds; i++)\<close> with its \<open>i--\<close> after a removal; the flag tells
  whether the pass comes to its end.
\<close>

function poll_pass ::
  "int \<Rightarrow> arrivals \<Rightarrow> nat \<Rightarrow> pollfd list \<times> globals \<Rightarrow> (pollfd list \<times> globals) \<times> effect list \<times> bool" where
  "poll_pass listen_fd ar i s =
     (if length (fst s) \<le> i then (s, [], True)
      else if \<not> pf_ready (fst s ! i) then poll_pass listen_fd ar (Suc i) s
      else (case handle_ready listen_fd ar i s of
          (s', eff, Stays) \<Rightarrow> (let (s'', eff', b) = poll_pass listen_fd ar (Suc i) s' in (s'', eff @ eff', b))
        | (s', eff, Removed) \<Rightarrow> (let (s'', eff', b) = poll_pass listen_fd ar i s' in (s'', eff @ eff', b))
        | (s', eff, Hangs) \<Rightarrow> (s', eff, False)))"
  by pat_completeness auto

text \<open>
  Each round handles a ready descriptor that is not looked at again, or moves on: a new
  entry is not ready, and a removal only shifts entries that have not been reached.
\<close>

lemma handle_ready_fewer:
  assumes "i < length (fst s)" "pf_ready (fst s ! i)" "handle_ready listen_fd ar i s = (s', eff, fate)"
  shows "ready_from (if fate = Removed then i else Suc i) (fst s') < ready_from i (fst s)"
proof -
  obtain fds g fds' g' where s: "s = (fds, g)" "s' = (fds', g')" by (cases s, cases s') auto
  have "ready_from (if fate = Removed then i else Suc i) fds' = ready_from (Suc i) fds"
    using handle_ready_fds [of listen_fd ar i fds g fds' g' eff fate] assms(1,3)
    by (auto simp: s ready_from_removed ready_from_snoc split: if_splits)
  then show ?thesis using ready_from_Suc [of i fds] assms(1,2) by (simp add: s)
qed

lemma ready_from_skip: "i < length fds \<Longrightarrow> \<not> pf_ready (fds ! i) \<Longrightarrow> ready_from (Suc i) fds = ready_from i fds"
  by (simp add: ready_from_Suc)

lemmas handle_ready_fewer_cases =
  handle_ready_fewer [where fate = Stays, simplified] handle_ready_fewer [where fate = Removed, simplified]

termination poll_pass
  by (relation "measures [\<lambda>(_, _, i, s). ready_from i (fst s), \<lambda>(_, _, i, s). length (fst s) - i]")
     (simp_all add: not_le ready_from_skip diff_less_mono2, (metis handle_ready_fewer_cases)+)

declare poll_pass.simps [simp del]

section \<open>A pass serves each ready descriptor once\<close>

text \<open>The reference: the descriptors that were ready when \<open>poll\<close> returned, looked up one by one.\<close>

fun serve_ready ::
  "int \<Rightarrow> arrivals \<Rightarrow> int list \<Rightarrow> pollfd list \<times> globals \<Rightarrow> (pollfd list \<times> globals) \<times> effect list \<times> bool" where
  "serve_ready listen_fd ar [] s = (s, [], True)"
| "serve_ready listen_fd ar (fd # ready) s =
     (case first_index (\<lambda>p. pf_fd p = fd) (fst s) of
        None \<Rightarrow> (s, [], False)
      | Some i \<Rightarrow>
          (case handle_ready listen_fd ar i s of
             (s', eff, Hangs) \<Rightarrow> (s', eff, False)
           | (s', eff, _) \<Rightarrow> (let (s'', eff', b) = serve_ready listen_fd ar ready s' in (s'', eff @ eff', b))))"

definition fds_of :: "pollfd list \<Rightarrow> int list" where
  "fds_of fds = map pf_fd fds"

definition ready_fds :: "pollfd list \<Rightarrow> int list" where
  "ready_fds fds = map pf_fd (filter pf_ready fds)"

text \<open>The descriptor that \<open>accept\<close> returns is not in use.\<close>

definition fresh_accept :: "arrivals \<Rightarrow> pollfd list \<Rightarrow> bool" where
  "fresh_accept ar fds \<longleftrightarrow> (\<forall>fd ip. ar_accept ar = Some (fd, ip) \<longrightarrow> 0 < fd \<and> fd \<notin> set (fds_of fds))"

lemma first_index_fd:
  assumes "distinct (fds_of fds)" "i < length fds"
  shows "first_index (\<lambda>p. pf_fd p = pf_fd (fds ! i)) fds = Some i"
proof -
  have "pf_fd (fds ! j) \<noteq> pf_fd (fds ! i)" if "j < i" for j
    using assms that nth_eq_iff_index_eq [of "fds_of fds" j i] by (simp add: fds_of_def)
  with assms(2) show ?thesis by (simp add: first_index_Some_iff)
qed

lemma ready_fds_drop:
  "i < length fds \<Longrightarrow> ready_fds (drop i fds) =
   (if pf_ready (fds ! i) then pf_fd (fds ! i) # ready_fds (drop (Suc i) fds) else ready_fds (drop (Suc i) fds))"
  by (simp add: ready_fds_def Cons_nth_drop_Suc [symmetric])

lemma ready_fds_snoc:
  "i \<le> length fds \<Longrightarrow> ready_fds (drop i (fds @ [\<lparr>pf_fd = fd, pf_ready = False\<rparr>])) = ready_fds (drop i fds)"
  by (simp add: ready_fds_def)

text \<open>
  What the loop keeps: distinct descriptors, and if the listening one is still ahead, the
  descriptor to be accepted is unused.
\<close>

definition pass_ok :: "int \<Rightarrow> arrivals \<Rightarrow> nat \<Rightarrow> pollfd list \<Rightarrow> bool" where
  "pass_ok listen_fd ar i fds \<longleftrightarrow> distinct (fds_of fds) \<and>
     (listen_fd \<in> set (fds_of (drop i fds)) \<longrightarrow> fresh_accept ar fds)"

lemma distinct_removed:
  "distinct (fds_of fds) \<Longrightarrow> distinct (fds_of (take i fds @ drop (Suc i) fds))"
  using distinct_take [of "fds_of fds" i] distinct_drop [of "fds_of fds" "Suc i"]
    set_take_disj_set_drop_if_distinct [of "fds_of fds" i "Suc i"]
  by (simp add: fds_of_def take_map drop_map)

lemma set_fds_removed: "set (fds_of (take i fds @ drop (Suc i) fds)) \<subseteq> set (fds_of fds)"
  by (auto simp: fds_of_def dest: in_set_takeD in_set_dropD)

lemma listen_never_removed:
  assumes "handle_ready listen_fd ar i (fds, g) = (s', eff, Removed)"
  shows "pf_fd (fds ! i) \<noteq> listen_fd"
  using assms by (auto simp: handle_ready_def split: if_splits prod.splits)

lemma others_do_not_accept:
  assumes "handle_ready listen_fd ar i (fds, g) = ((fds', g'), eff, fate)" "pf_fd (fds ! i) \<noteq> listen_fd"
  shows "fds' = (if fate = Removed then take i fds @ drop (Suc i) fds else fds)"
  using assms by (auto simp: handle_ready_def ordinary_message_def remove_pollfd_def Let_def
      split: if_splits prod.splits recv_result.splits)

lemma pass_ok_other:
  assumes "pass_ok listen_fd ar i fds" "i < length fds" "pf_fd (fds ! i) \<noteq> listen_fd"
    and "handle_ready listen_fd ar i (fds, g) = ((fds', g'), eff, fate)"
  shows "pass_ok listen_fd ar (if fate = Removed then i else Suc i) fds' \<and>
    ready_fds (drop (if fate = Removed then i else Suc i) fds') = ready_fds (drop (Suc i) fds)"
proof -
  have d: "distinct (fds_of fds)" using assms(1) by (simp add: pass_ok_def)
  have ahead: "set (fds_of (drop (Suc i) fds)) \<subseteq> set (fds_of (drop i fds))"
    using assms(2) by (auto simp: fds_of_def Cons_nth_drop_Suc [symmetric])
  note fds' = others_do_not_accept [OF assms(4,3)]
  show ?thesis
  proof (cases "fate = Removed")
    case True
    with fds' have f: "fds' = take i fds @ drop (Suc i) fds" by simp
    have dr: "drop i fds' = drop (Suc i) fds" using assms(2) f by simp
    have "fresh_accept ar fds \<Longrightarrow> fresh_accept ar fds'"
      using set_fds_removed [of i fds] by (auto simp: f fresh_accept_def)
    with True dr distinct_removed [OF d] ahead assms(1) show ?thesis
      by (auto simp: pass_ok_def f)
  next
    case False
    with fds' assms(1) ahead show ?thesis by (auto simp: pass_ok_def)
  qed
qed

lemma pass_ok_accept:
  assumes "pass_ok listen_fd ar i fds" "i < length fds" "pf_fd (fds ! i) = listen_fd"
    and "handle_ready listen_fd ar i (fds, g) = ((fds', g'), eff, fate)"
  shows "fate \<noteq> Removed \<and> pass_ok listen_fd ar (Suc i) fds' \<and> ready_fds (drop (Suc i) fds') = ready_fds (drop (Suc i) fds)"
proof -
  have d: "distinct (fds_of fds)" using assms(1) by (simp add: pass_ok_def)
  have nr: "fate \<noteq> Removed" using listen_never_removed assms(3,4) by blast
  have "listen_fd \<in> set (fds_of (drop i fds))"
    using assms(2,3) by (auto simp: fds_of_def Cons_nth_drop_Suc [symmetric])
  with assms(1) have fresh: "fresh_accept ar fds" by (simp add: pass_ok_def)
  have "distinct (fds_of (take i fds @ fds ! i # drop (Suc i) fds))"
    using d id_take_nth_drop [OF assms(2)] by simp
  then have gone: "listen_fd \<notin> set (fds_of (drop (Suc i) fds))"
    by (simp add: fds_of_def assms(3))
  have "fds' = fds \<or> (\<exists>fd ip. ar_accept ar = Some (fd, ip) \<and> fds' = fds @ [\<lparr>pf_fd = fd, pf_ready = False\<rparr>])"
    using handle_ready_fds [OF assms(4)] nr by auto
  then show ?thesis
  proof (elim disjE exE conjE)
    assume "fds' = fds"
    with d gone nr show ?thesis by (simp add: pass_ok_def)
  next
    fix fd ip assume new: "ar_accept ar = Some (fd, ip)" "fds' = fds @ [\<lparr>pf_fd = fd, pf_ready = False\<rparr>]"
    with fresh have "fd \<notin> set (fds_of fds)" by (auto simp: fresh_accept_def)
    moreover have "listen_fd \<in> set (fds_of fds)" using assms(2,3) by (auto simp: fds_of_def)
    moreover have "drop (Suc i) fds' = drop (Suc i) fds @ [\<lparr>pf_fd = fd, pf_ready = False\<rparr>]"
      using assms(2) new by simp
    ultimately show ?thesis
      using d gone nr new by (auto simp: pass_ok_def fds_of_def ready_fds_def)
  qed
qed

lemma pass_ok_step:
  assumes "pass_ok listen_fd ar i fds" "i < length fds"
    and "handle_ready listen_fd ar i (fds, g) = ((fds', g'), eff, fate)"
  shows "pass_ok listen_fd ar (if fate = Removed then i else Suc i) fds'"
    "ready_fds (drop (if fate = Removed then i else Suc i) fds') = ready_fds (drop (Suc i) fds)"
  using pass_ok_other [OF assms(1,2) _ assms(3)] pass_ok_accept [OF assms(1,2) _ assms(3)]
  by (cases "pf_fd (fds ! i) = listen_fd"; simp)+

lemma poll_pass_serve:
  "pass_ok listen_fd ar i (fst s) \<Longrightarrow>
   poll_pass listen_fd ar i s = serve_ready listen_fd ar (ready_fds (drop i (fst s))) s"
proof (induction listen_fd ar i s rule: poll_pass.induct)
  case (1 listen_fd ar i s)
  obtain fds g where s: "s = (fds, g)" by fastforce
  show ?case
  proof (cases "length fds \<le> i")
    case True
    then show ?thesis by (simp add: s poll_pass.simps [of listen_fd ar i] ready_fds_def)
  next
    case False
    then have i: "i < length fds" by simp
    show ?thesis
    proof (cases "pf_ready (fds ! i)")
      case unready: False
      have "pass_ok listen_fd ar (Suc i) fds"
        using "1.prems" i by (auto simp: s pass_ok_def fds_of_def Cons_nth_drop_Suc [symmetric])
      with "1.IH"(1) False unready i show ?thesis
        by (simp add: s poll_pass.simps [of listen_fd ar i] ready_fds_drop)
    next
      case True
      obtain fds' g' eff fate where h: "handle_ready listen_fd ar i (fds, g) = ((fds', g'), eff, fate)"
        by (metis prod.collapse)
      have ok: "pass_ok listen_fd ar i fds" using "1.prems" by (simp add: s)
      note step = pass_ok_step [OF ok i h]
      have d: "distinct (fds_of fds)" using ok by (simp add: pass_ok_def)
      have look: "first_index (\<lambda>p. pf_fd p = pf_fd (fds ! i)) fds = Some i" by (rule first_index_fd [OF d i])
      show ?thesis
      proof (cases fate)
        case Stays
        with "1.IH"(2) [OF _ _ h [folded s, symmetric] refl] False True step
        have "poll_pass listen_fd ar (Suc i) (fds', g') =
            serve_ready listen_fd ar (ready_fds (drop (Suc i) fds)) (fds', g')" by (simp add: s)
        with Stays False True h look i show ?thesis
          by (simp add: s poll_pass.simps [of listen_fd ar i] ready_fds_drop)
      next
        case Removed
        with "1.IH"(3) [OF _ _ h [folded s, symmetric] refl] False True step
        have "poll_pass listen_fd ar i (fds', g') =
            serve_ready listen_fd ar (ready_fds (drop (Suc i) fds)) (fds', g')" by (simp add: s)
        with Removed False True h look i show ?thesis
          by (simp add: s poll_pass.simps [of listen_fd ar i "(fds, g)"] ready_fds_drop)
      next
        case Hangs
        with False True h look i show ?thesis
          by (simp add: s poll_pass.simps [of listen_fd ar i] ready_fds_drop)
      qed
    qed
  qed
qed

lemma handle_ready_hangs:
  "handle_ready listen_fd ar i s = (s', eff, Hangs) \<Longrightarrow> s' = s \<and> eff = [] \<and> ar_recv ar (pf_fd (fst s ! i)) = RecvBlocked"
  by (auto simp: handle_ready_def ordinary_message_def Let_def split: if_splits prod.splits recv_result.splits)

lemma poll_pass_returns:
  "(\<And>fd. ar_recv ar fd \<noteq> RecvBlocked) \<Longrightarrow> snd (snd (poll_pass listen_fd ar i s))"
proof (induction listen_fd ar i s rule: poll_pass.induct)
  case (1 listen_fd ar i s)
  obtain s' eff fate where h: "handle_ready listen_fd ar i s = (s', eff, fate)" by (metis prod.collapse)
  have "fate \<noteq> Hangs" using handle_ready_hangs [of listen_fd ar i s s' eff] h "1.prems" by auto
  with 1 h show ?case
    by (cases fate) (auto simp: poll_pass.simps [of listen_fd ar i s] case_prod_unfold Let_def)
qed


section \<open>A connection that stops in the middle of a message\<close>

lemma recv_partial: "length bs < HEADER_SIZE \<Longrightarrow> recv_message [Segment bs] = (RecvBlocked, [])"
  by (simp add: recv_message_eq failed_read_def)

text \<open>
  C37: a connection that sends a part of a header and then stops keeps the interface thread
  in its receive: no descriptor behind it is served, no connection accepted.
\<close>

theorem partial_message_stops_interface:
  assumes "distinct (fds_of fds)" and "fresh_accept ar fds" and "ready_fds fds = fd # waiting"
    and "fd \<noteq> listen_fd" and "ar_recv ar fd = fst (recv_message [Segment bs])" and "length bs < HEADER_SIZE"
  shows "poll_pass listen_fd ar 0 (fds, g) = ((fds, g), [], False)"
proof -
  have "fd \<in> set (ready_fds fds)" using assms(3) by simp
  then obtain i where i: "i < length fds" "pf_fd (fds ! i) = fd" by (auto simp: ready_fds_def in_set_conv_nth) 
  have look: "first_index (\<lambda>p. pf_fd p = fd) fds = Some i" using first_index_fd [OF assms(1) i(1)] i(2) by simp
  have "poll_pass listen_fd ar 0 (fds, g) = serve_ready listen_fd ar (ready_fds fds) (fds, g)"
    using poll_pass_serve [of listen_fd ar 0 "(fds, g)"] assms(1,2) by (simp add: pass_ok_def)
  with look i(2) show ?thesis
    by (simp add: assms(3,5) recv_partial [OF assms(6)] handle_ready_def ordinary_message_def assms(4))
qed

section \<open>Witnesses\<close>

text \<open>
  The listening descriptor 3 with a connection to accept, an idle connection, one that was
  closed and one that says goodbye.
\<close>

definition four_fds :: "pollfd list" where
  "four_fds = [\<lparr>pf_fd = 3, pf_ready = True\<rparr>, \<lparr>pf_fd = 5, pf_ready = False\<rparr>, \<lparr>pf_fd = 6, pf_ready = True\<rparr>,
     \<lparr>pf_fd = 7, pf_ready = True\<rparr>]"

definition bye_header :: MsgHeader where
  "bye_header = \<lparr>msg_size = 0, mh_client_id = 1, mh_op_id = OP_BYE, flags = 0\<rparr>"

definition four_arrivals :: "recv_result \<Rightarrow> arrivals" where
  "four_arrivals res = \<lparr>ar_accept = Some (9, Some ''10.0.0.9''), ar_recv = (\<lambda>fd. if fd = 6 then res else Message bye_header None),
     ar_calls = (\<lambda>_. \<lparr>ic_now = 1, ic_calloc = Some 1\<rparr>)\<rparr>"

lemma four_fds_ok: "distinct (fds_of four_fds)" "fresh_accept (four_arrivals res) four_fds" "ready_fds four_fds = [3, 6, 7]"
  by (simp_all add: four_fds_def fds_of_def four_arrivals_def fresh_accept_def ready_fds_def)


text \<open>Here the listening descriptor is not among the ready ones.\<close>

theorem partial_message_stops_interface_witness:
  "poll_pass 3 (four_arrivals RecvBlocked) 0 (tl four_fds, globals_init 0) = ((tl four_fds, globals_init 0), [], False)"
  using partial_message_stops_interface [of "tl four_fds" "four_arrivals RecvBlocked" 6 "[7]" 3 "''ab''" "globals_init 0"]
  by (simp add: four_fds_def fds_of_def four_arrivals_def fresh_accept_def ready_fds_def recv_partial)

end
