(* ===== verification/Admin.thy ===== *)
theory Admin
  imports Interface Reports
begin

text \<open>
  The administrator's interface thread of \<open>src/server.c\<close>: \<open>accept_admin\<close>,
  \<open>handle_admin_message\<close>, and \<open>admin_interface_main\<close> with its timeout and its pass over
  the descriptors.  Its array holds two entries, \<open>struct pollfd fds[2]\<close>.
\<close>

section \<open>State and operations\<close>

text \<open>The local variables \<open>fds\<close>, \<open>admin_fd\<close> (-1 where there is none) and \<open>admin_last\<close>.\<close>

record admin_thread =
  ad_fds :: "pollfd list"
  ad_fd :: int
  ad_last :: int

definition admin_init :: "int \<Rightarrow> admin_thread" where
  "admin_init listen_fd = \<lparr>ad_fds = [\<lparr>pf_fd = listen_fd, pf_ready = False\<rparr>], ad_fd = - 1, ad_last = 0\<rparr>"

text \<open>\<open>accept_admin\<close>, with the descriptor \<open>accept\<close> returns and the time.\<close>

definition accept_admin ::
  "int option \<Rightarrow> int \<Rightarrow> admin_thread \<times> globals \<Rightarrow> (admin_thread \<times> globals) \<times> effect list" where
  "accept_admin acc now s =
     (let (a, g) = s in
      case acc of
        None \<Rightarrow> (s, [])
      | Some fd \<Rightarrow>
          if 0 < ad_fd a
          then (s, [Send (respond_text fd 0 OP_ERROR ''another admin client is already connected''), Close fd])
          else if MAX_FDS \<le> length (ad_fds a) then (s, [Close fd])
          else ((\<lparr>ad_fds = ad_fds a @ [\<lparr>pf_fd = fd, pf_ready = False\<rparr>], ad_fd = fd, ad_last = now\<rparr>,
                 with_state (admin_connected_update (\<lambda>_. True)) g), []))"

definition admin_reply :: "int \<Rightarrow> 32 word \<Rightarrow> string \<Rightarrow> effect" where
  "admin_reply fd opn s = Send (respond_text fd 0 opn s)"

definition admin_login :: "int \<Rightarrow> string option \<Rightarrow> effect list" where
  "admin_login fd payload =
     (if payload \<noteq> None \<and> cstr (the payload) = ''admin'' then [admin_reply fd OP_OK ''OK: admin logged in'']
      else [admin_reply fd OP_ERROR ''invalid admin token''])"

definition admin_disconnect :: "int \<Rightarrow> string option \<Rightarrow> globals \<Rightarrow> globals \<times> effect list" where
  "admin_disconnect fd payload g =
     (case parse_client_id_payload payload of
        None \<Rightarrow> (g, [admin_reply fd OP_ERROR ''invalid client id''])
      | Some client_id \<Rightarrow>
          (let client_fd = client_fd_by_id client_id (g_state g) in
           if client_fd < 0 then (g, [admin_reply fd OP_ERROR ''client not connected''])
           else (with_state (history_add ''admin disconnected client'') g,
                 [Send (respond_text client_fd (word_of_int client_id) OP_ERROR ''disconnected by admin''),
                  ShutDown client_fd, admin_reply fd OP_OK ''client disconnected''])))"

definition admin_cancel :: "int \<Rightarrow> string option \<Rightarrow> globals \<Rightarrow> globals \<times> effect list" where
  "admin_cancel fd payload g =
     (case parse_client_id_payload payload of
        None \<Rightarrow> (g, [admin_reply fd OP_ERROR ''invalid client id''])
      | Some client_id \<Rightarrow>
          if active_client_id (g_state g) = client_id \<or> 0 \<le> client_fd_by_id client_id (g_state g)
          then (with_state (\<lambda>st. history_add ''admin requested command cancel'' (st\<lparr>cancel_client_id := client_id\<rparr>)) g,
                [admin_reply fd OP_OK ''cancel requested''])
          else (g, [admin_reply fd OP_ERROR ''client not connected'']))"

definition admin_block :: "int \<Rightarrow> string option \<Rightarrow> globals \<Rightarrow> globals \<times> effect list" where
  "admin_block fd payload g =
     (let (blocked, good, result) = block_addr payload (g_blocked_addrs g) in
      if good
      then (with_state (history_add ''admin blocked address'') (g\<lparr>g_blocked_addrs := blocked\<rparr>),
            [admin_reply fd OP_OK result])
      else (g, [admin_reply fd OP_ERROR result]))"

text \<open>The first argument is the time.\<close>

definition handle_admin_message ::
  "int \<Rightarrow> int \<Rightarrow> MsgHeader \<Rightarrow> string option \<Rightarrow> admin_thread \<times> globals \<Rightarrow> (admin_thread \<times> globals) \<times> effect list" where
  "handle_admin_message now fd h payload s =
     (let (a, g) = s; a = a\<lparr>ad_last := now\<rparr>; opn = mh_op_id h in
      if opn = OP_ADMIN_BYE
      then ((a\<lparr>ad_fd := - 1\<rparr>, with_state (admin_connected_update (\<lambda>_. False)) g),
            [admin_reply fd OP_OK ''admin disconnected''])
      else if opn = OP_ADMIN_LOGIN then ((a, g), admin_login fd payload)
      else if opn = OP_ADMIN_REPORT
      then ((a, g), [admin_reply fd OP_OK
              (admin_report now (g_state g) (case payload of None \<Rightarrow> [] | Some bs \<Rightarrow> cstr bs) REPORT_SIZE)])
      else if opn = OP_ADMIN_DISCONNECT then (let (g, eff) = admin_disconnect fd payload g in ((a, g), eff))
      else if opn = OP_ADMIN_CANCEL then (let (g, eff) = admin_cancel fd payload g in ((a, g), eff))
      else if opn = OP_ADMIN_BLOCK then (let (g, eff) = admin_block fd payload g in ((a, g), eff))
      else ((a, g), [admin_reply fd OP_ERROR ''unknown admin operation'']))"

section \<open>The loop of the thread\<close>

definition drop_admin_fd :: "nat \<Rightarrow> admin_thread \<times> globals \<Rightarrow> (admin_thread \<times> globals) \<times> effect list" where
  "drop_admin_fd i s =
     (let (a, g) = s; ((fds, g), eff) = remove_pollfd i (ad_fds a, g) in ((a\<lparr>ad_fds := fds\<rparr>, g), eff))"

definition admin_gone :: "admin_thread \<times> globals \<Rightarrow> admin_thread \<times> globals" where
  "admin_gone s = (case s of (a, g) \<Rightarrow> (a\<lparr>ad_fd := - 1\<rparr>, with_state (admin_connected_update (\<lambda>_. False)) g))"

definition admin_timeout :: "int \<Rightarrow> int \<Rightarrow> admin_thread \<times> globals \<Rightarrow> (admin_thread \<times> globals) \<times> effect list" where
  "admin_timeout timeout now s =
     (let (a, g) = s in
      if 0 < ad_fd a \<and> timeout < now - ad_last a
      then (let (s, eff) = (case first_index (\<lambda>p. pf_fd p = ad_fd a) (ad_fds a) of
                              None \<Rightarrow> (s, []) | Some i \<Rightarrow> drop_admin_fd i s)
            in (admin_gone s, eff))
      else (s, []))"

text \<open>A ready descriptor that is not the listening one.\<close>

definition admin_message ::
  "int \<Rightarrow> recv_result \<Rightarrow> nat \<Rightarrow> admin_thread \<times> globals \<Rightarrow> (admin_thread \<times> globals) \<times> effect list \<times> fate" where
  "admin_message now res i s =
     (let fd = pf_fd (ad_fds (fst s) ! i) in
      case res of
        RecvBlocked \<Rightarrow> (s, [], Hangs)
      | Message h payload \<Rightarrow>
          (let (s, eff) = handle_admin_message now fd h payload s in
           if ad_fd (fst s) < 0 then (let (s, eff') = drop_admin_fd i s in (s, eff @ eff', Removed))
           else (s, eff, Stays))
      | _ \<Rightarrow>
          (let s = (if fd = ad_fd (fst s) then admin_gone s else s);
               (s, eff) = drop_admin_fd i s
           in (s, eff, Removed)))"

record admin_arrivals =
  aa_accept :: "int option"
  aa_recv :: "int \<Rightarrow> recv_result"
  aa_now :: "int \<Rightarrow> int"

definition admin_ready ::
  "int \<Rightarrow> admin_arrivals \<Rightarrow> nat \<Rightarrow> admin_thread \<times> globals \<Rightarrow> (admin_thread \<times> globals) \<times> effect list \<times> fate" where
  "admin_ready listen_fd ar i s =
     (let fd = pf_fd (ad_fds (fst s) ! i) in
      if fd = listen_fd then (let (s, eff) = accept_admin (aa_accept ar) (aa_now ar fd) s in (s, eff, Stays))
      else admin_message (aa_now ar fd) (aa_recv ar fd) i s)"

lemma admin_ready_fds:
  assumes "admin_ready listen_fd ar i (a, g) = ((a', g'), eff, fate)"
  shows "if fate = Removed then ad_fds a' = take i (ad_fds a) @ drop (Suc i) (ad_fds a)
    else ad_fds a' = ad_fds a \<or> (\<exists>fd. ad_fds a' = ad_fds a @ [\<lparr>pf_fd = fd, pf_ready = False\<rparr>])"
  using assms
  by (auto simp: admin_ready_def accept_admin_def admin_message_def handle_admin_message_def drop_admin_fd_def
      admin_gone_def remove_pollfd_def Let_def
      split: if_splits option.splits prod.splits recv_result.splits)

function admin_pass ::
  "int \<Rightarrow> admin_arrivals \<Rightarrow> nat \<Rightarrow> admin_thread \<times> globals \<Rightarrow> (admin_thread \<times> globals) \<times> effect list \<times> bool" where
  "admin_pass listen_fd ar i s =
     (if length (ad_fds (fst s)) \<le> i then (s, [], True)
      else if \<not> pf_ready (ad_fds (fst s) ! i) then admin_pass listen_fd ar (Suc i) s
      else (case admin_ready listen_fd ar i s of
          (s', eff, Stays) \<Rightarrow> (let (s'', eff', b) = admin_pass listen_fd ar (Suc i) s' in (s'', eff @ eff', b))
        | (s', eff, Removed) \<Rightarrow> (let (s'', eff', b) = admin_pass listen_fd ar i s' in (s'', eff @ eff', b))
        | (s', eff, Hangs) \<Rightarrow> (s', eff, False)))"
  by pat_completeness auto

lemma admin_ready_fewer:
  assumes "i < length (ad_fds (fst s))" "pf_ready (ad_fds (fst s) ! i)" "admin_ready listen_fd ar i s = (s', eff, fate)"
  shows "ready_from (if fate = Removed then i else Suc i) (ad_fds (fst s')) < ready_from i (ad_fds (fst s))"
proof -
  obtain a g a' g' where s: "s = (a, g)" "s' = (a', g')" by (cases s, cases s') auto
  have "ready_from (if fate = Removed then i else Suc i) (ad_fds a') = ready_from (Suc i) (ad_fds a)"
    using admin_ready_fds [of listen_fd ar i a g a' g' eff fate] assms(1,3)
    by (auto simp: s ready_from_removed ready_from_snoc split: if_splits)
  then show ?thesis using ready_from_Suc [of i "ad_fds a"] assms(1,2) by (simp add: s)
qed

lemmas admin_ready_fewer_cases =
  admin_ready_fewer [where fate = Stays, simplified] admin_ready_fewer [where fate = Removed, simplified]

termination admin_pass
  by (relation "measures [\<lambda>(_, _, i, s). ready_from i (ad_fds (fst s)), \<lambda>(_, _, i, s). length (ad_fds (fst s)) - i]")
     (simp_all add: not_le ready_from_skip diff_less_mono2, (metis admin_ready_fewer_cases)+)

declare admin_pass.simps [simp del]

text \<open>One round of \<open>while (g_running)\<close> after \<open>poll\<close>; the flags of the entries are its answer.\<close>

definition poll_answer :: "(int \<Rightarrow> bool) \<Rightarrow> pollfd list \<Rightarrow> pollfd list" where
  "poll_answer ready fds = map (\<lambda>p. p\<lparr>pf_ready := ready (pf_fd p)\<rparr>) fds"

definition admin_round ::
  "int \<Rightarrow> int \<Rightarrow> (int \<Rightarrow> bool) \<Rightarrow> int \<Rightarrow> admin_arrivals \<Rightarrow> admin_thread \<times> globals \<Rightarrow>
   (admin_thread \<times> globals) \<times> effect list \<times> bool" where
  "admin_round listen_fd timeout ready now ar s =
     (let (a, g) = s;
          (s, eff) = admin_timeout timeout now (a\<lparr>ad_fds := poll_answer ready (ad_fds a)\<rparr>, g);
          (s, eff', b) = admin_pass listen_fd ar 0 s
      in (s, eff @ eff', b))"

section \<open>At most one administrator\<close>

text \<open>
  The two shapes of the array: the listening descriptor alone, or with the administrator
  behind it; the flag in the shared state tells which.
\<close>

definition admin_ok :: "int \<Rightarrow> admin_thread \<times> globals \<Rightarrow> bool" where
  "admin_ok listen_fd s \<longleftrightarrow>
     (fds_of (ad_fds (fst s)) = [listen_fd] \<and> ad_fd (fst s) = - 1 \<and> \<not> admin_connected (g_state (snd s))) \<or>
     (fds_of (ad_fds (fst s)) = [listen_fd, ad_fd (fst s)] \<and> 0 < ad_fd (fst s) \<and> ad_fd (fst s) \<noteq> listen_fd \<and>
      admin_connected (g_state (snd s)))"

definition fresh_admin :: "int \<Rightarrow> admin_arrivals \<Rightarrow> bool" where
  "fresh_admin listen_fd ar \<longleftrightarrow> (\<forall>fd. aa_accept ar = Some fd \<longrightarrow> 0 < fd \<and> fd \<noteq> listen_fd)"

lemma admin_flag_keeps [simp]:
  "admin_connected (client_remove_fd fd st) = admin_connected st"
  "admin_connected (history_add l st) = admin_connected st"
  by (simp_all add: client_remove_fd_def history_add_def split: option.splits)

lemma with_state_simps [simp]:
  "g_state (with_state f g) = f (g_state g)" "g_queue (with_state f g) = g_queue g"
  "g_fd_addrs (with_state f g) = g_fd_addrs g" "g_blocked_addrs (with_state f g) = g_blocked_addrs g"
  "g_files (with_state f g) = g_files g"
  by (simp_all add: with_state_def)

lemma fds_of_two: "fds_of fds = [a, b] \<longleftrightarrow> (\<exists>p q. fds = [p, q] \<and> pf_fd p = a \<and> pf_fd q = b)"
  by (auto simp: fds_of_def map_eq_Cons_conv)

lemma fds_of_one: "fds_of fds = [a] \<longleftrightarrow> (\<exists>p. fds = [p] \<and> pf_fd p = a)"
  by (auto simp: fds_of_def map_eq_Cons_conv)

lemma accept_admin_ok:
  assumes "admin_ok listen_fd s" "\<forall>fd. acc = Some fd \<longrightarrow> 0 < fd \<and> fd \<noteq> listen_fd"
  shows "admin_ok listen_fd (fst (accept_admin acc now s))"
  using assms by (cases s) (auto simp: accept_admin_def admin_ok_def fds_of_def split: option.splits)

lemma handle_admin_message_flag:
  assumes "handle_admin_message now fd h payload (a, g) = ((a', g'), eff)"
  shows "ad_fds a' = ad_fds a"
    "ad_fd a' = (if mh_op_id h = OP_ADMIN_BYE then - 1 else ad_fd a)"
    "admin_connected (g_state g') = (mh_op_id h \<noteq> OP_ADMIN_BYE \<and> admin_connected (g_state g))"
  using assms
  by (auto simp: handle_admin_message_def Let_def admin_disconnect_def admin_cancel_def admin_block_def
      split: if_splits prod.splits option.splits)

lemma drop_second:
  assumes "fds_of (ad_fds a) = [listen_fd, fd]"
  shows "fds_of (ad_fds (fst (fst (drop_admin_fd (Suc 0) (a, g))))) = [listen_fd]"
    "ad_fd (fst (fst (drop_admin_fd (Suc 0) (a, g)))) = ad_fd a"
    "admin_connected (g_state (snd (fst (drop_admin_fd (Suc 0) (a, g))))) = admin_connected (g_state g)"
  using assms by (auto simp: drop_admin_fd_def remove_pollfd_def fds_of_def Let_def)

lemma admin_index:
  assumes "admin_ok listen_fd (a, g)" "i < length (ad_fds a)" "pf_fd (ad_fds a ! i) \<noteq> listen_fd"
  shows "i = Suc 0" "fds_of (ad_fds a) = [listen_fd, ad_fd a]" "pf_fd (ad_fds a ! i) = ad_fd a"
    "0 < ad_fd a" "ad_fd a \<noteq> listen_fd" "admin_connected (g_state g)"
  using assms by (auto simp: admin_ok_def fds_of_one fds_of_two less_Suc_eq)

lemma admin_message_ok:
  assumes "admin_ok listen_fd (a, g)" "i < length (ad_fds a)" "pf_fd (ad_fds a ! i) \<noteq> listen_fd"
  shows "admin_ok listen_fd (fst (admin_message now res i (a, g)))"
proof -
  note ix = admin_index [OF assms]
  show ?thesis
  proof (cases res)
    case (Message h payload)
    obtain a1 g1 eff where m: "handle_admin_message now (ad_fd a) h payload (a, g) = ((a1, g1), eff)"
      by (metis prod.collapse)
    note flag = handle_admin_message_flag [OF m]
    have two: "fds_of (ad_fds a1) = [listen_fd, ad_fd a]" using flag(1) ix(2) by simp
    show ?thesis
    proof (cases "mh_op_id h = OP_ADMIN_BYE")
      case True
      then show ?thesis
        using Message m flag ix drop_second [OF two, of g1] by (simp add: admin_message_def admin_ok_def case_prod_unfold Let_def)
    next
      case False
      then show ?thesis
        using Message m flag ix by (simp add: admin_message_def admin_ok_def Let_def)
    qed
  next
    case ConnectionClosed
    with ix drop_second [of "a\<lparr>ad_fd := - 1\<rparr>" listen_fd "ad_fd a"] show ?thesis
      by (simp add: admin_message_def admin_gone_def admin_ok_def case_prod_unfold Let_def)
  next
    case RecvFailed
    with ix drop_second [of "a\<lparr>ad_fd := - 1\<rparr>" listen_fd "ad_fd a"] show ?thesis
      by (simp add: admin_message_def admin_gone_def admin_ok_def case_prod_unfold Let_def)
  next
    case RecvBlocked
    with assms(1) show ?thesis by (simp add: admin_message_def)
  qed
qed

lemma admin_timeout_ok:
  assumes "admin_ok listen_fd (a, g)"
  shows "admin_ok listen_fd (fst (admin_timeout timeout now (a, g)))"
proof (cases "0 < ad_fd a \<and> timeout < now - ad_last a")
  case True
  with assms have two: "fds_of (ad_fds a) = [listen_fd, ad_fd a]" "ad_fd a \<noteq> listen_fd"
    by (auto simp: admin_ok_def)
  then have "first_index (\<lambda>p. pf_fd p = ad_fd a) (ad_fds a) = Some (Suc 0)" by (auto simp: fds_of_two)
  with True drop_second [OF two(1), of g] show ?thesis
    by (simp add: admin_timeout_def admin_gone_def admin_ok_def case_prod_unfold Let_def)
qed (use assms in \<open>auto simp: admin_timeout_def\<close>)

lemma admin_ready_ok:
  assumes "admin_ok listen_fd (a, g)" "i < length (ad_fds a)" "fresh_admin listen_fd ar"
    and "admin_ready listen_fd ar i (a, g) = (s', eff, fate)"
  shows "admin_ok listen_fd s'"
proof (cases "pf_fd (ad_fds a ! i) = listen_fd")
  case True
  with assms accept_admin_ok [OF assms(1), of "aa_accept ar" "aa_now ar listen_fd"] show ?thesis
    by (auto simp: admin_ready_def fresh_admin_def case_prod_unfold Let_def)
next
  case False
  from admin_message_ok [OF assms(1,2) False] assms(4) False show ?thesis
    by (simp add: admin_ready_def Let_def) (metis fst_conv)
qed

lemma admin_pass_ok:
  "admin_ok listen_fd s \<Longrightarrow> fresh_admin listen_fd ar \<Longrightarrow> admin_ok listen_fd (fst (admin_pass listen_fd ar i s))"
proof (induction listen_fd ar i s rule: admin_pass.induct)
  case (1 listen_fd ar i s)
  obtain a g where s: "s = (a, g)" by fastforce
  obtain s' eff fate where h: "admin_ready listen_fd ar i s = (s', eff, fate)" by (metis prod.collapse)
  show ?case
  proof (cases "length (ad_fds a) \<le> i \<or> \<not> pf_ready (ad_fds a ! i)")
    case True
    with 1 show ?thesis by (auto simp: admin_pass.simps [of listen_fd ar i "(a, g)"] s)
  next
    case False
    then have "admin_ok listen_fd s'" using admin_ready_ok [of listen_fd a g i ar s' eff fate] 1 h by (simp add: s)
    with False 1 h s show ?thesis
      by (cases fate) (simp_all add: admin_pass.simps [of listen_fd ar i "(a, g)"] case_prod_unfold Let_def)
  qed
qed

lemma poll_answer_ok: "admin_ok listen_fd (a\<lparr>ad_fds := poll_answer ready (ad_fds a)\<rparr>, g) = admin_ok listen_fd (a, g)"
  by (simp add: admin_ok_def poll_answer_def fds_of_def comp_def)

lemma admin_round_ok:
  assumes "admin_ok listen_fd s" "fresh_admin listen_fd ar"
  shows "admin_ok listen_fd (fst (admin_round listen_fd timeout ready now ar s))"
proof -
  obtain a g where s: "s = (a, g)" by fastforce
  let ?a = "a\<lparr>ad_fds := poll_answer ready (ad_fds a)\<rparr>"
  have "admin_ok listen_fd (fst (admin_timeout timeout now (?a, g)))"
    using assms(1) by (intro admin_timeout_ok) (simp add: s poll_answer_ok)
  from admin_pass_ok [OF this assms(2)] show ?thesis
    by (simp add: admin_round_def s case_prod_unfold Let_def)
qed

text \<open>What the administrator's thread does, round after round, from its start.\<close>

record admin_input =
  ai_ready :: "int \<Rightarrow> bool"
  ai_now :: int
  ai_arrivals :: admin_arrivals

definition admin_rounds :: "int \<Rightarrow> int \<Rightarrow> admin_input list \<Rightarrow> admin_thread \<times> globals \<Rightarrow> admin_thread \<times> globals" where
  "admin_rounds listen_fd timeout inputs s =
     fold (\<lambda>x s. fst (admin_round listen_fd timeout (ai_ready x) (ai_now x) (ai_arrivals x) s)) inputs s"

lemma admin_rounds_ok:
  "admin_ok listen_fd s \<Longrightarrow> \<forall>x \<in> set inputs. fresh_admin listen_fd (ai_arrivals x) \<Longrightarrow>
   admin_ok listen_fd (admin_rounds listen_fd timeout inputs s)"
  by (induction inputs arbitrary: s) (simp_all add: admin_rounds_def admin_round_ok)

lemma admin_init_ok: "admin_ok listen_fd (admin_init listen_fd, globals_init now)"
  by (simp add: admin_ok_def admin_init_def fds_of_def globals_init_def state_init_def)

text \<open>
  C20: there is at most one administrator.  However many connections arrive at the
  administrator's port, whatever they send and whenever they are timed out or go away, the
  thread never has more than the two entries its array \<open>fds[2]\<close> has room for (although
  \<open>accept_admin\<close> compares with \<open>MAX_FDS\<close>), and \<open>admin_connected\<close> tells exactly whether
  there is an administrator.
\<close>

theorem one_administrator:
  assumes "\<forall>x \<in> set inputs. fresh_admin listen_fd (ai_arrivals x)"
    and "admin_rounds listen_fd timeout inputs (admin_init listen_fd, globals_init now) = (a, g)"
  shows "length (ad_fds a) \<le> 2 \<and> (admin_connected (g_state g) \<longleftrightarrow> 0 < ad_fd a) \<and>
    length (ad_fds a) = (if 0 < ad_fd a then 2 else 1)"
proof -
  have "admin_ok listen_fd (a, g)"
    using admin_rounds_ok [OF admin_init_ok assms(1), of timeout now] assms(2) by simp
  then show ?thesis by (auto simp: admin_ok_def fds_of_one fds_of_two)
qed

section \<open>What the login is worth\<close>

text \<open>
  The login is not needed.  After a refused login, and without any login, the
  administrator's commands are carried out: here the disconnection of any client that is
  registered, which receives an error and has its descriptor shut down.
\<close>

theorem login_not_enforced:
  assumes "handle_admin_message now fd login wrong (a, g) = ((a1, g1), answers)"
    and "mh_op_id login = OP_ADMIN_LOGIN" and "mh_op_id h = OP_ADMIN_DISCONNECT"
    and "0 < cid" and "cid \<le> 1000000" and "0 < client_fd_by_id cid (g_state g)"
  shows "\<exists>a2 g2. handle_admin_message now' fd h (Some (sdec cid)) (a1, g1) = ((a2, g2),
      [Send (respond_text (client_fd_by_id cid (g_state g)) (word_of_int cid) OP_ERROR ''disconnected by admin''),
       ShutDown (client_fd_by_id cid (g_state g)), Send (respond_text fd 0 OP_OK ''client disconnected'')])"
proof -
  have "cstr (sdec cid) = sdec cid"
    using dec_digits isdigit_not_sign assms(4) by (intro cstr_id) (auto simp: sdec_def)
  then have "parse_client_id_payload (Some (sdec cid)) = Some cid"
    using assms(4,5) by (simp add: parse_client_id_payload_def strtol_sdec)
  moreover have "g1 = g" using assms(1,2) by (auto simp: handle_admin_message_def Let_def)
  ultimately show ?thesis
    using assms(3,6) by (simp add: handle_admin_message_def admin_disconnect_def admin_reply_def Let_def)
qed

section \<open>Witnesses\<close>

text \<open>Two connections at once: the second one is refused.\<close>

definition two_admins :: "admin_input list" where
  "two_admins = map (\<lambda>fd. \<lparr>ai_ready = (\<lambda>d. d = 4), ai_now = 0,
     ai_arrivals = \<lparr>aa_accept = Some fd, aa_recv = (\<lambda>_. ConnectionClosed), aa_now = (\<lambda>_. 1)\<rparr>\<rparr>) [5, 6]"

lemma admin_pass_rules:
  "length (ad_fds (fst s)) \<le> i \<Longrightarrow> admin_pass listen_fd ar i s = (s, [], True)"
  "i < length (ad_fds (fst s)) \<Longrightarrow> \<not> pf_ready (ad_fds (fst s) ! i) \<Longrightarrow>
   admin_pass listen_fd ar i s = admin_pass listen_fd ar (Suc i) s"
  "i < length (ad_fds (fst s)) \<Longrightarrow> pf_ready (ad_fds (fst s) ! i) \<Longrightarrow>
   admin_ready listen_fd ar i s = (s', eff, Stays) \<Longrightarrow>
   fst (admin_pass listen_fd ar i s) = fst (admin_pass listen_fd ar (Suc i) s')"
  by (simp_all add: admin_pass.simps [of listen_fd ar i s] case_prod_unfold Let_def)

lemma two_admins_run:
  "ad_fds (fst (admin_rounds 4 60 two_admins (admin_init 4, globals_init 0))) =
     [\<lparr>pf_fd = 4, pf_ready = True\<rparr>, \<lparr>pf_fd = 5, pf_ready = False\<rparr>]"
  by (simp add: admin_rounds_def two_admins_def admin_round_def admin_init_def poll_answer_def admin_timeout_def
      admin_pass_rules admin_ready_def accept_admin_def case_prod_unfold Let_def)

theorem one_administrator_witness:
  "length (ad_fds (fst (admin_rounds 4 60 two_admins (admin_init 4, globals_init 0)))) = 2 \<and>
   admin_connected (g_state (snd (admin_rounds 4 60 two_admins (admin_init 4, globals_init 0))))"
proof -
  have "\<forall>x \<in> set two_admins. fresh_admin 4 (ai_arrivals x)"
    by (simp add: two_admins_def fresh_admin_def)
  from one_administrator [OF this surjective_pairing, of 60 0] two_admins_run show ?thesis
    by (auto split: if_splits)
qed

definition admin_header :: "32 word \<Rightarrow> MsgHeader" where
  "admin_header opn = \<lparr>msg_size = 1, mh_client_id = 0, mh_op_id = opn, flags = 0\<rparr>"

text \<open>Client 1 on descriptor 7, and an administrator on descriptor 5 that guesses the token.\<close>

definition one_client :: globals where
  "one_client = with_state (\<lambda>st. fst (connect_client 3 7 ''10.0.0.1'' st)) (globals_init 0)"

lemma first_client:
  "clients (fst (connect_client now fd addr (state_init 0))) = new_client now fd addr 1 # replicate 127 zero_client"
proof -
  have "clients (state_init 0) = zero_client # replicate 127 zero_client"
    by (simp add: init_clients numeral_eq_Suc)
  then show ?thesis
    by (simp add: connect_client_def register_client_def Let_def init_clients(3) zero_client_def)
qed

theorem login_not_enforced_witness:
  "\<exists>s effects. handle_admin_message 9 5 (admin_header OP_ADMIN_DISCONNECT) (Some (sdec 1))
      (fst (handle_admin_message 8 5 (admin_header OP_ADMIN_LOGIN) (Some ''guess'') (admin_init 4, one_client))) =
    (s, effects) \<and> ShutDown 7 \<in> set effects"
proof -
  obtain a1 g1 answers where l: "handle_admin_message 8 5 (admin_header OP_ADMIN_LOGIN) (Some ''guess'')
      (admin_init 4, one_client) = ((a1, g1), answers)"
    by (metis prod.collapse)
  have "client_fd_by_id 1 (g_state one_client) = 7"
    by (simp add: one_client_def globals_init_def client_fd_by_id_def client_index_def first_client)
       (simp add: new_client_def)
  with login_not_enforced [OF l, of "admin_header OP_ADMIN_DISCONNECT" 1 9] l show ?thesis
    by (auto simp: admin_header_def)
qed

end
