(* ===== verification/System.thy ===== *)
theory System
  imports Uploads Admin
begin

text \<open>
  The whole server: the ordinary interface thread, the administrator's thread and the worker
  take steps in any order on the globals they share.  The worker's \<open>process_request\<close> is
  split where other threads can observe it: the request is taken from the queue, it is
  decided whether the command is cancelled, the command is performed, and it is finished.
  Each of these steps, and the handling of one message or one connection, is taken as one
  step of the system; interleavings inside a step are not part of the model.
\<close>

section \<open>The system and its steps\<close>

datatype phase = Idle | Taken nat Request | Decided nat Request bool | Performed nat Request reply

record system =
  sy_g :: globals
  sy_fds :: "pollfd list"
  sy_admin :: admin_thread
  sy_worker :: phase

definition system_init :: "int \<Rightarrow> int \<Rightarrow> int \<Rightarrow> system" where
  "system_init listen_fd admin_listen_fd now =
     \<lparr>sy_g = globals_init now, sy_fds = [\<lparr>pf_fd = listen_fd, pf_ready = False\<rparr>],
      sy_admin = admin_init admin_listen_fd, sy_worker = Idle\<rparr>"

text \<open>The descriptors of the server's sockets; \<open>accept\<close> returns one that is not among them.\<close>

definition sockets :: "system \<Rightarrow> int set" where
  "sockets s = set (fds_of (sy_fds s)) \<union> set (fds_of (ad_fds (sy_admin s)))"

text \<open>\<open>calloc\<close> returns memory that is not in use.\<close>

definition fresh_calloc :: "iface_calls \<Rightarrow> globals \<Rightarrow> bool" where
  "fresh_calloc k g \<longleftrightarrow> (\<forall>p. ic_calloc k = Some p \<longrightarrow> q_mem (g_queue g) p = None)"

definition set_worker_state :: "SharedState \<Rightarrow> files \<Rightarrow> phase \<Rightarrow> system \<Rightarrow> system" where
  "set_worker_state st fs ph s = s\<lparr>sy_g := (sy_g s)\<lparr>g_state := st, g_files := fs\<rparr>, sy_worker := ph\<rparr>"

inductive step ::
  "'j cjson \<Rightarrow> (string \<Rightarrow> string option) \<Rightarrow> int \<Rightarrow> int \<Rightarrow> int \<Rightarrow> system \<Rightarrow> effect list \<Rightarrow> system \<Rightarrow> bool"
  for L pg listen_fd admin_listen_fd timeout where
  accepting_client:
    "0 < fd \<Longrightarrow> fd \<notin> sockets s \<Longrightarrow> accept_client (Some (fd, ip)) (sy_fds s, sy_g s) = ((fds', g'), eff) \<Longrightarrow>
     step L pg listen_fd admin_listen_fd timeout s eff (s\<lparr>sy_fds := fds', sy_g := g'\<rparr>)"
| client_message:
    "i < length (sy_fds s) \<Longrightarrow> pf_fd (sy_fds s ! i) \<noteq> listen_fd \<Longrightarrow> fresh_calloc k (sy_g s) \<Longrightarrow>
     ordinary_message k res i (sy_fds s, sy_g s) = ((fds', g'), eff, fate) \<Longrightarrow>
     step L pg listen_fd admin_listen_fd timeout s eff (s\<lparr>sy_fds := fds', sy_g := g'\<rparr>)"
| accepting_admin:
    "0 < fd \<Longrightarrow> fd \<notin> sockets s \<Longrightarrow> accept_admin (Some fd) now (sy_admin s, sy_g s) = ((a', g'), eff) \<Longrightarrow>
     step L pg listen_fd admin_listen_fd timeout s eff (s\<lparr>sy_admin := a', sy_g := g'\<rparr>)"
| message_of_admin:
    "i < length (ad_fds (sy_admin s)) \<Longrightarrow> pf_fd (ad_fds (sy_admin s) ! i) \<noteq> admin_listen_fd \<Longrightarrow>
     admin_message now res i (sy_admin s, sy_g s) = ((a', g'), eff, fate) \<Longrightarrow>
     step L pg listen_fd admin_listen_fd timeout s eff (s\<lparr>sy_admin := a', sy_g := g'\<rparr>)"
| timing_out:
    "admin_timeout timeout now (sy_admin s, sy_g s) = ((a', g'), eff) \<Longrightarrow>
     step L pg listen_fd admin_listen_fd timeout s eff (s\<lparr>sy_admin := a', sy_g := g'\<rparr>)"
| taking:
    "sy_worker s = Idle \<Longrightarrow> queue_pop (g_queue (sy_g s), g_state (sy_g s)) = Some ((p, r), q', st') \<Longrightarrow>
     step L pg listen_fd admin_listen_fd timeout s []
       (s\<lparr>sy_g := (sy_g s)\<lparr>g_queue := q', g_state := st'\<rparr>, sy_worker := Taken p r\<rparr>)"
| deciding:
    "sy_worker s = Taken p r \<Longrightarrow> st' = start_request now r (g_state (sy_g s)) \<Longrightarrow>
     step L pg listen_fd admin_listen_fd timeout s []
       (set_worker_state st' (g_files (sy_g s)) (Decided p r (cancel_client_id st' = sint (rq_client_id r))) s)"
| refusing:
    "sy_worker s = Decided p r True \<Longrightarrow> cancel_request (g_state (sy_g s)) = (st', rp) \<Longrightarrow>
     step L pg listen_fd admin_listen_fd timeout s []
       (set_worker_state st' (g_files (sy_g s)) (Performed p r rp) s)"
| performing:
    "sy_worker s = Decided p r False \<Longrightarrow>
     perform_request L pg calls r (g_state (sy_g s), g_files (sy_g s)) = Ok ((st', fs'), rp) \<Longrightarrow>
     step L pg listen_fd admin_listen_fd timeout s [] (set_worker_state st' fs' (Performed p r rp) s)"
| finishing:
    "sy_worker s = Performed p r rp \<Longrightarrow> finish_request calls r rp (g_state (sy_g s)) = (st', msgs) \<Longrightarrow>
     step L pg listen_fd admin_listen_fd timeout s (map Send msgs)
       ((set_worker_state st' (g_files (sy_g s)) Idle s)
          \<lparr>sy_g := (sy_g s)\<lparr>g_state := st', g_queue := free_request p (g_queue (sy_g s))\<rparr>\<rparr>)"

inductive run ::
  "'j cjson \<Rightarrow> (string \<Rightarrow> string option) \<Rightarrow> int \<Rightarrow> int \<Rightarrow> int \<Rightarrow> system \<Rightarrow> effect list \<Rightarrow> system \<Rightarrow> bool"
  for L pg listen_fd admin_listen_fd timeout where
  start: "run L pg listen_fd admin_listen_fd timeout s [] s"
| more: "run L pg listen_fd admin_listen_fd timeout s effs s' \<Longrightarrow>
     step L pg listen_fd admin_listen_fd timeout s' eff s'' \<Longrightarrow>
     run L pg listen_fd admin_listen_fd timeout s (effs @ eff) s''"

section \<open>Invariants of the shared state\<close>

text \<open>The parts of the shared state that carry more than a number for the reports.\<close>

definition same_data :: "SharedState \<Rightarrow> SharedState \<Rightarrow> bool" where
  "same_data st st' \<longleftrightarrow> tables st' = tables st \<and> jobs st' = jobs st \<and> next_job_id st' = next_job_id st \<and>
     last_job_by_client st' = last_job_by_client st \<and> clients st' = clients st \<and> client_count st' = client_count st \<and>
     next_client_id st' = next_client_id st \<and> history st' = history st \<and> history_count st' = history_count st \<and>
     admin_connected st' = admin_connected st"

text \<open>
  What a property of the shared state needs to be kept by the ordinary thread and the worker:
  the operations of the components keep it.  Inside, the threads are shown to keep it.
\<close>

locale thread_invariant =
  fixes L :: "'j cjson" and pg :: "string \<Rightarrow> string option" and I :: "SharedState \<Rightarrow> bool"
  assumes keep_data: "I st \<Longrightarrow> same_data st st' \<Longrightarrow> I st'"
    and keep_history: "I st \<Longrightarrow> I (history_add line st)"
    and keep_connect: "I st \<Longrightarrow> 0 < fd \<Longrightarrow> I (fst (connect_client now fd addr st))"
    and keep_remove: "I st \<Longrightarrow> 0 < fd \<Longrightarrow> I (client_remove_fd fd st)"
    and keep_touch: "I st \<Longrightarrow> I (client_touch now c st)"
    and keep_create: "I st \<Longrightarrow> I (fst (job_create now c opn st))"
    and keep_update: "I st \<Longrightarrow> I (job_update now j status result st)"
    and keep_load: "I st \<Longrightarrow> I (fst (load_er_json L f st))"
    and keep_apply: "I st \<Longrightarrow> I (fst (apply_insert_batch pg st sql))"
begin

lemma keep_numbers:
  "I st \<Longrightarrow> I (st\<lparr>queue_depth := d\<rparr>)"
  "I st \<Longrightarrow> I (st\<lparr>insert_commands := n\<rparr>)" "I st \<Longrightarrow> I (st\<lparr>cancel_client_id := n\<rparr>)"
  by (auto elim!: keep_data simp: same_data_def)

lemma keep_remove_pollfd:
  "I (g_state g) \<Longrightarrow> 0 < pf_fd (fds ! i) \<Longrightarrow> I (g_state (snd (fst (remove_pollfd i (fds, g)))))"
  by (simp add: remove_pollfd_def keep_remove Let_def)

lemma keep_accept_client: "I (g_state g) \<Longrightarrow> I (g_state (snd (fst (accept_client acc (fds, g)))))"
  by (auto simp: accept_client_def split: option.splits)

lemma keep_push: "I st \<Longrightarrow> I (snd (queue_push p r (q, st)))"
  by (simp add: queue_push_def keep_numbers Let_def)

lemma keep_pop: "I st \<Longrightarrow> queue_pop (q, st) = Some (x, q', st') \<Longrightarrow> I st'"
  by (auto simp: queue_pop_def keep_numbers split: option.splits if_splits)

lemma keep_enqueue: "I (g_state g) \<Longrightarrow> I (g_state (fst (enqueue_request k fd h payload g)))"
  using keep_create [of "g_state g" "ic_now k" "mh_client_id h" "mh_op_id h"]
  by (auto simp: enqueue_request_def case_prod_unfold Let_def keep_push split: option.splits)

lemma keep_ordinary:
  assumes "I (g_state g)" "0 < pf_fd (fds ! i)"
  shows "I (g_state (snd (fst (ordinary_message k res i (fds, g)))))"
proof (cases res)
  case (Message h payload)
  have "I (g_state (fst (handle_connect k (pf_fd (fds ! i)) g)))"
    using keep_connect [OF assms(1,2)] by (simp add: handle_connect_def case_prod_unfold Let_def keep_history)
  moreover have "I (g_state (fst (handle_request k (pf_fd (fds ! i)) h payload g)))"
    using assms(1) keep_enqueue by (simp add: handle_request_def case_prod_unfold Let_def)
  ultimately show ?thesis
    using Message keep_remove_pollfd [OF assms]
    by (simp add: ordinary_message_def case_prod_unfold Let_def)
qed (use assms keep_remove_pollfd in \<open>simp_all add: ordinary_message_def case_prod_unfold Let_def\<close>)

lemma keep_start:
  assumes "I st"
  shows "I (start_request now r st)"
proof -
  have "I ((client_touch now (rq_client_id r) st)\<lparr>active_client_id := sint (rq_client_id r),
      active_op_id := sint (rq_op_id r), active_started_at := now\<rparr>)"
    by (rule keep_data [OF keep_touch [OF assms]]) (simp add: same_data_def)
  then show ?thesis by (simp add: start_request_def Let_def keep_update)
qed

lemma keep_cancel: "I st \<Longrightarrow> I (fst (cancel_request st))"
  unfolding cancel_request_def fst_conv
  by (rule keep_history) (auto elim!: keep_data simp: same_data_def)

lemma keep_finish: "I st \<Longrightarrow> I (fst (finish_request calls r rp st))"
proof -
  assume i: "I st"
  let ?st1 = "st\<lparr>total_commands := total_commands st + 1, total_exec_ms := total_exec_ms st + wc_elapsed calls\<rparr>"
  let ?st2 = "if resp_op rp = OP_ERROR then ?st1\<lparr>failed_commands := failed_commands ?st1 + 1\<rparr> else ?st1"
  let ?st3 = "if 0 < rq_job_id r
    then job_update (wc_finished calls) (rq_job_id r) (if resp_op rp = OP_OK then DONE else ERROR) (response rp) ?st2
    else ?st2"
  have "I ?st2" using i by (rule keep_data) (simp add: same_data_def)
  then have "I ?st3" using keep_update by simp
  then have "I (if active_client_id ?st3 = sint (rq_client_id r) \<and> active_op_id ?st3 = sint (rq_op_id r)
      then ?st3\<lparr>active_client_id := 0, active_op_id := 0, active_started_at := 0\<rparr> else ?st3)"
    by (rule keep_data) (simp add: same_data_def)
  then show ?thesis by (simp only: finish_request_def Let_def fst_conv)
qed

lemma keep_perform:
  assumes "perform_request L pg calls r (st, fs) = Ok ((st', fs'), rp)" "I st"
  shows "I st'"
proof -
  have ins: "validate_insert_request pg calls r (st, fs) = Ok ((st', fs'), rp) \<Longrightarrow> I st'"
    using keep_numbers(2) [OF assms(2)] keep_apply [OF keep_numbers(2) [OF assms(2)]]
    by (auto simp: validate_insert_request_def Let_def case_prod_unfold keep_history
        split: option.splits outcome.splits)
  have load: "upload_end L calls r (st, fs) = ((st', fs'), rp) \<Longrightarrow> I st'"
    using keep_load [OF assms(2)]
    by (auto simp: upload_end_def Let_def case_prod_unfold keep_history split: sum.splits)
  have rest: "upload_begin calls r (st, fs) = ((st', fs'), rp) \<Longrightarrow> I st'"
    "upload_chunk calls r (st, fs) = ((st', fs'), rp) \<Longrightarrow> I st'"
    "generate_sql_request (st, fs) = ((st', fs'), rp) \<Longrightarrow> I st'"
    "download_sql_request calls r (st, fs) = ((st', fs'), rp) \<Longrightarrow> I st'"
    using assms(2) keep_history [OF assms(2)]
    by (auto simp: upload_begin_def upload_chunk_def generate_sql_request_def download_sql_request_def Let_def
        split: option.splits prod.splits if_splits)
  from assms ins load rest show ?thesis
    by (auto simp: perform_request_def split: if_splits)
qed

end

text \<open>The administrator's thread also sets its flag.\<close>

locale state_invariant = thread_invariant +
  assumes keep_admin_flag: "I st \<Longrightarrow> I (st\<lparr>admin_connected := b\<rparr>)"
begin

lemma keep_accept_admin: "I (g_state g) \<Longrightarrow> I (g_state (snd (fst (accept_admin acc now (a, g)))))"
  by (auto simp: accept_admin_def keep_numbers keep_admin_flag split: option.splits)

lemma keep_handle_admin: "I (g_state g) \<Longrightarrow> I (g_state (snd (fst (handle_admin_message now fd h payload (a, g)))))"
  by (auto simp: handle_admin_message_def admin_disconnect_def admin_cancel_def admin_block_def Let_def
      keep_numbers keep_admin_flag keep_history case_prod_unfold split: option.splits)

lemma keep_drop_admin:
  "I (g_state g) \<Longrightarrow> 0 < pf_fd (ad_fds a ! i) \<Longrightarrow> I (g_state (snd (fst (drop_admin_fd i (a, g)))))"
  using keep_remove_pollfd [of g "ad_fds a" i] by (simp add: drop_admin_fd_def case_prod_unfold Let_def)

lemma keep_admin_message:
  assumes "I (g_state g)" "0 < pf_fd (ad_fds a ! i)"
  shows "I (g_state (snd (fst (admin_message now res i (a, g)))))"
proof (cases res)
  case (Message h payload)
  obtain a1 g1 eff where m: "handle_admin_message now (pf_fd (ad_fds a ! i)) h payload (a, g) = ((a1, g1), eff)"
    by (metis prod.collapse)
  have "I (g_state g1)" using keep_handle_admin [OF assms(1)] m by (metis fst_conv snd_conv)
  moreover have "ad_fds a1 = ad_fds a" by (rule handle_admin_message_flag(1) [OF m])
  ultimately show ?thesis
    using Message m assms(2) keep_drop_admin [of g1 a1 i]
    by (simp add: admin_message_def case_prod_unfold Let_def)
qed (use assms keep_drop_admin keep_admin_flag in \<open>auto simp: admin_message_def admin_gone_def case_prod_unfold Let_def\<close>)

lemma keep_admin_timeout:
  assumes "I (g_state g)"
  shows "I (g_state (snd (fst (admin_timeout timeout now (a, g)))))"
proof (cases "first_index (\<lambda>p. pf_fd p = ad_fd a) (ad_fds a)")
  case None
  then show ?thesis using assms by (simp add: admin_timeout_def admin_gone_def keep_numbers keep_admin_flag)
next
  case (Some i)
  have "0 < ad_fd a \<Longrightarrow> I (g_state (snd (fst (drop_admin_fd i (a, g)))))"
    using Some assms by (intro keep_drop_admin) (auto simp: first_index_Some_iff)
  with Some show ?thesis
    using assms by (simp add: admin_timeout_def admin_gone_def keep_numbers keep_admin_flag case_prod_unfold Let_def)
qed

end

section \<open>Descriptors and the administrator\<close>

definition net_ok :: "int \<Rightarrow> system \<Rightarrow> bool" where
  "net_ok admin_listen_fd s \<longleftrightarrow> distinct (fds_of (sy_fds s)) \<and> (\<forall>fd \<in> set (fds_of (sy_fds s)). 0 < fd) \<and>
     length (sy_fds s) \<le> MAX_FDS \<and> set (fds_of (sy_fds s)) \<inter> set (fds_of (ad_fds (sy_admin s))) = {} \<and>
     0 < admin_listen_fd \<and> admin_ok admin_listen_fd (sy_admin s, sy_g s)"

lemma job_admin [simp]:
  "admin_connected (fst (job_create now c opn st)) = admin_connected st"
  "admin_connected (job_update now j t u st) = admin_connected st"
  "admin_connected (client_touch now c st) = admin_connected st"
  "admin_connected (fst (connect_client now fd addr st)) = admin_connected st"
  by (simp_all add: job_create_def job_update_def client_touch_def connect_client_def register_client_def Let_def
      split: option.splits)

lemma tables_only_admin [simp]:
  "admin_connected (fst (load_er_json L f st)) = admin_connected st"
  "admin_connected (fst (apply_insert_batch pg st sql)) = admin_connected st"
  using load_only_tables [of L f st] apply_only_tables [of pg st sql] by (metis SharedState.ext_inject
      SharedState.surjective SharedState.update_convs(21) fst_conv surj_pair)+

interpretation admin_flag: thread_invariant L pg "\<lambda>st. admin_connected st = b" for L pg b
  by unfold_locales (simp_all add: same_data_def)

lemma admin_ok_flag:
  "admin_connected (g_state g') = admin_connected (g_state g) \<Longrightarrow> admin_ok l (a, g') = admin_ok l (a, g)"
  by (simp add: admin_ok_def)

lemma admin_fds_positive:
  "admin_ok l (a, g) \<Longrightarrow> 0 < l \<Longrightarrow> i < length (ad_fds a) \<Longrightarrow> 0 < pf_fd (ad_fds a ! i)"
  by (auto simp: admin_ok_def fds_of_one fds_of_two less_Suc_eq)

lemma accept_client_net:
  assumes "accept_client (Some (fd, ip)) (fds, g) = ((fds', g'), eff)"
  shows "fds' = fds \<or> (fds' = fds @ [\<lparr>pf_fd = fd, pf_ready = False\<rparr>] \<and> length fds < MAX_FDS)" "g_state g' = g_state g"
    "g_queue g' = g_queue g"
  using assms by (auto simp: accept_client_def split: if_splits option.splits)

lemma ordinary_message_net:
  assumes "ordinary_message k res i (fds, g) = ((fds', g'), eff, fate)"
  shows "fds' = fds \<or> fds' = take i fds @ drop (Suc i) fds"
  using assms by (auto simp: ordinary_message_def remove_pollfd_def case_prod_unfold Let_def
      split: recv_result.splits if_splits)

lemma accept_admin_sockets:
  assumes "accept_admin (Some fd) now (a, g) = ((a', g'), eff)"
  shows "set (fds_of (ad_fds a')) \<subseteq> insert fd (set (fds_of (ad_fds a)))"
  using assms by (auto simp: accept_admin_def fds_of_def split: if_splits)

lemma drop_admin_sockets: "set (fds_of (ad_fds (fst (fst (drop_admin_fd i (a, g)))))) \<subseteq> set (fds_of (ad_fds a))"
  using set_fds_removed [of i "ad_fds a"] by (simp add: drop_admin_fd_def remove_pollfd_def Let_def)

lemma admin_message_sockets:
  "set (fds_of (ad_fds (fst (fst (admin_message now res i (a, g)))))) \<subseteq> set (fds_of (ad_fds a))"
proof (cases res)
  case (Message h payload)
  obtain a1 g1 eff where m: "handle_admin_message now (pf_fd (ad_fds a ! i)) h payload (a, g) = ((a1, g1), eff)"
    by (metis prod.collapse)
  with Message handle_admin_message_flag(1) [OF m] drop_admin_sockets [of i a1 g1] show ?thesis
    by (simp add: admin_message_def case_prod_unfold Let_def)
next
  case RecvBlocked
  then show ?thesis by (simp add: admin_message_def)
qed (use drop_admin_sockets [of i "a\<lparr>ad_fd := - 1\<rparr>"] drop_admin_sockets [of i a] in
    \<open>simp_all add: admin_message_def admin_gone_def case_prod_unfold Let_def\<close>)

lemma admin_timeout_sockets:
  "set (fds_of (ad_fds (fst (fst (admin_timeout timeout now (a, g)))))) \<subseteq> set (fds_of (ad_fds a))"
  using drop_admin_sockets [of _ a g]
  by (auto simp: admin_timeout_def admin_gone_def case_prod_unfold Let_def split: option.splits)

lemma fds_of_snoc: "fds_of (fds @ [\<lparr>pf_fd = fd, pf_ready = b\<rparr>]) = fds_of fds @ [fd]"
  by (simp add: fds_of_def)

text \<open>What the steps of each thread do to the descriptors.\<close>

lemma net_ok_flag:
  assumes "net_ok l s" "sy_fds s' = sy_fds s" "sy_admin s' = sy_admin s"
    "admin_connected (g_state (sy_g s')) = admin_connected (g_state (sy_g s))"
  shows "net_ok l s'"
  using assms admin_ok_flag [OF assms(4), of l "sy_admin s"] by (simp add: net_ok_def)

lemma net_ok_admin:
  assumes "net_ok l s" "admin_ok l (a', g')" "set (fds_of (ad_fds a')) \<subseteq> set (fds_of (ad_fds (sy_admin s)))"
  shows "net_ok l (s\<lparr>sy_admin := a', sy_g := g'\<rparr>)"
  using assms by (auto simp: net_ok_def)

lemma net_ok_message:
  assumes "net_ok l s" "i < length (sy_fds s)" "ordinary_message k res i (sy_fds s, sy_g s) = ((fds', g'), eff, fate)"
  shows "net_ok l (s\<lparr>sy_fds := fds', sy_g := g'\<rparr>)"
proof -
  have "0 < pf_fd (sy_fds s ! i)" using assms(1,2) by (auto simp: net_ok_def fds_of_def)
  then have "admin_connected (g_state g') = admin_connected (g_state (sy_g s))"
    using admin_flag.keep_ordinary [of "sy_g s" _ "sy_fds s" i k res] assms(3) by simp
  note flag = admin_ok_flag [OF this]
  have d: "distinct (fds_of (sy_fds s))" using assms(1) by (simp add: net_ok_def)
  from ordinary_message_net [OF assms(3)] show ?thesis
  proof
    assume "fds' = sy_fds s"
    with flag assms(1) show ?thesis by (simp add: net_ok_def)
  next
    assume f: "fds' = take i (sy_fds s) @ drop (Suc i) (sy_fds s)"
    then have "length fds' \<le> length (sy_fds s)" "set (fds_of fds') \<subseteq> set (fds_of (sy_fds s))"
      using set_fds_removed by auto
    with flag assms(1) distinct_removed [OF d, of i] f show ?thesis by (auto simp: net_ok_def)
  qed
qed

lemma net_ok_new_admin:
  assumes "net_ok l s" "0 < fd" "fd \<notin> sockets s" "accept_admin (Some fd) now (sy_admin s, sy_g s) = ((a', g'), eff)"
  shows "net_ok l (s\<lparr>sy_admin := a', sy_g := g'\<rparr>)"
proof -
  have fd: "fd \<noteq> l" "fd \<notin> set (fds_of (sy_fds s))" using assms(1,3) by (auto simp: sockets_def net_ok_def admin_ok_def)
  then have "admin_ok l (a', g')"
    using accept_admin_ok [of l "(sy_admin s, sy_g s)" "Some fd" now] assms by (simp add: net_ok_def)
  with fd accept_admin_sockets [OF assms(4)] assms(1) show ?thesis by (auto simp: net_ok_def)
qed

lemma net_ok_step:
  assumes "step L pg listen_fd admin_listen_fd timeout s eff s'" "net_ok admin_listen_fd s"
  shows "net_ok admin_listen_fd s'"
  using assms(1)
proof cases
  case (accepting_client fd ip fds' g')
  note net = accept_client_net [OF accepting_client(4)]
  have "admin_ok admin_listen_fd (sy_admin s, g') = admin_ok admin_listen_fd (sy_admin s, sy_g s)"
    by (rule admin_ok_flag) (simp add: net(2))
  with net(1) accepting_client(1-3) assms(2) show ?thesis
    by (auto simp: net_ok_def sockets_def fds_of_snoc)
next
  case (client_message i k res fds' g' fate)
  with net_ok_message [OF assms(2)] show ?thesis by blast
next
  case (accepting_admin fd now a' g')
  with net_ok_new_admin [OF assms(2)] show ?thesis by blast
next
  case (message_of_admin i now res a' g' fate)
  then have "admin_ok admin_listen_fd (a', g')"
    using admin_message_ok [OF _ message_of_admin(2,3), of "sy_g s" now res] assms(2) by (simp add: net_ok_def)
  then show ?thesis
    using admin_message_sockets [of now res i "sy_admin s" "sy_g s"] message_of_admin(4) net_ok_admin [OF assms(2)]
    by (simp add: message_of_admin(1))
next
  case (timing_out now a' g')
  then have "admin_ok admin_listen_fd (a', g')"
    using admin_timeout_ok [of admin_listen_fd "sy_admin s" "sy_g s" timeout now] assms(2) by (simp add: net_ok_def)
  then show ?thesis
    using admin_timeout_sockets [of timeout now "sy_admin s" "sy_g s"] timing_out(2) net_ok_admin [OF assms(2)]
    by (simp add: timing_out(1))
next
  case (taking p r q' st')
  with admin_flag.keep_pop [OF refl taking(4)] show ?thesis by (intro net_ok_flag [OF assms(2)]) simp_all
next
  case (deciding p r st' now)
  with admin_flag.keep_start [OF refl, of now r "g_state (sy_g s)"] show ?thesis
    by (intro net_ok_flag [OF assms(2)]) (simp_all add: set_worker_state_def)
next
  case (refusing p r st' rp)
  with admin_flag.keep_cancel [OF refl, of "g_state (sy_g s)"] show ?thesis
    by (intro net_ok_flag [OF assms(2)]) (simp_all add: set_worker_state_def)
next
  case (performing p r calls st' fs' rp)
  with admin_flag.keep_perform [OF performing(4) refl] show ?thesis
    by (intro net_ok_flag [OF assms(2)]) (simp_all add: set_worker_state_def)
next
  case (finishing p r rp calls st' msgs)
  with admin_flag.keep_finish [OF refl, of calls r rp "g_state (sy_g s)"] show ?thesis
    by (intro net_ok_flag [OF assms(2)]) (simp_all add: set_worker_state_def)
qed

context state_invariant begin

lemma keep_step:
  assumes "step L pg listen_fd admin_listen_fd timeout s eff s'" "net_ok admin_listen_fd s" "I (g_state (sy_g s))"
  shows "I (g_state (sy_g s'))"
  using assms(1)
proof cases
  case (accepting_client fd ip fds' g')
  then show ?thesis using accept_client_net(2) [OF accepting_client(4)] assms(3) by simp
next
  case (client_message i k res fds' g' fate)
  have "0 < pf_fd (sy_fds s ! i)" using assms(2) client_message(2) by (auto simp: net_ok_def fds_of_def)
  then show ?thesis using keep_ordinary [OF assms(3), of "sy_fds s" i k res] client_message by simp
next
  case (accepting_admin fd now a' g')
  then show ?thesis using keep_accept_admin [OF assms(3), of "Some fd" now "sy_admin s"] by simp
next
  case (message_of_admin i now res a' g' fate)
  have "0 < pf_fd (ad_fds (sy_admin s) ! i)"
    using admin_fds_positive assms(2) message_of_admin(2) by (auto simp: net_ok_def)
  then show ?thesis using keep_admin_message [OF assms(3), of "sy_admin s" i now res] message_of_admin by simp
next
  case (timing_out now a' g')
  then show ?thesis using keep_admin_timeout [OF assms(3), of timeout now "sy_admin s"] by simp
next
  case (taking p r q' st')
  then show ?thesis using keep_pop [OF assms(3)] by simp
next
  case (deciding p r st' now)
  then show ?thesis using keep_start [OF assms(3)] by (simp add: set_worker_state_def)
next
  case (refusing p r st' rp)
  then show ?thesis using keep_cancel [OF assms(3)] by (simp add: set_worker_state_def)
next
  case (performing p r calls st' fs' rp)
  then show ?thesis using keep_perform [OF performing(4) assms(3)] by (simp add: set_worker_state_def)
next
  case (finishing p r rp calls st' msgs)
  then show ?thesis using keep_finish [OF assms(3), of calls r rp] by (simp add: set_worker_state_def)
qed

lemma keep_run:
  "run L pg listen_fd admin_listen_fd timeout s effs s' \<Longrightarrow> net_ok admin_listen_fd s \<Longrightarrow> I (g_state (sy_g s)) \<Longrightarrow>
   net_ok admin_listen_fd s' \<and> I (g_state (sy_g s'))"
  by (induction rule: run.induct) (use net_ok_step keep_step in blast)+

end

section \<open>The data of the server is sound\<close>

lemma connect_data [simp]:
  "tables (fst (connect_client now fd addr st)) = tables st" "jobs (fst (connect_client now fd addr st)) = jobs st"
  "next_job_id (fst (connect_client now fd addr st)) = next_job_id st"
  "last_job_by_client (fst (connect_client now fd addr st)) = last_job_by_client st"
  "history (fst (connect_client now fd addr st)) = history st"
  "history_count (fst (connect_client now fd addr st)) = history_count st"
  "queue_depth (fst (connect_client now fd addr st)) = queue_depth st"
  "next_client_id (fst (connect_client now fd addr st)) = next_client_id st + 1"
  by (simp_all add: connect_client_def register_client_def Let_def split: option.splits)

lemma remove_data [simp]:
  "tables (client_remove_fd fd st) = tables st" "jobs (client_remove_fd fd st) = jobs st"
  "next_job_id (client_remove_fd fd st) = next_job_id st"
  "last_job_by_client (client_remove_fd fd st) = last_job_by_client st"
  "history (client_remove_fd fd st) = history st" "history_count (client_remove_fd fd st) = history_count st"
  "queue_depth (client_remove_fd fd st) = queue_depth st" "next_client_id (client_remove_fd fd st) = next_client_id st"
  by (simp_all add: client_remove_fd_def split: option.splits)

lemma touch_data [simp]:
  "history (client_touch now c st) = history st" "history_count (client_touch now c st) = history_count st"
  "client_count (client_touch now c st) = client_count st" "next_client_id (client_touch now c st) = next_client_id st"
  by (simp_all add: client_touch_def split: option.splits)

lemma create_data [simp]:
  "tables (fst (job_create now c opn st)) = tables st" "clients (fst (job_create now c opn st)) = clients st"
  "client_count (fst (job_create now c opn st)) = client_count st"
  "next_client_id (fst (job_create now c opn st)) = next_client_id st"
  "history (fst (job_create now c opn st)) = history st" "history_count (fst (job_create now c opn st)) = history_count st"
  "queue_depth (fst (job_create now c opn st)) = queue_depth st"
  by (simp_all add: job_create_def Let_def)

lemma update_data [simp]:
  "history (job_update now j t u st) = history st" "history_count (job_update now j t u st) = history_count st"
  by (simp_all add: job_update_def split: option.splits)

lemma load_data: "\<exists>ts. fst (load_er_json L f st) = st\<lparr>tables := ts\<rparr>"
  by (cases "load_er_json L f st") (auto dest: load_only_tables)

lemma apply_data: "\<exists>ts. fst (apply_insert_batch pg st sql) = st\<lparr>tables := ts\<rparr>"
  by (cases "apply_insert_batch pg st sql") (auto dest: apply_only_tables)

lemma jobs_ok_keep:
  "jobs_ok st \<Longrightarrow> jobs st' = jobs st \<Longrightarrow> next_job_id st' = next_job_id st \<Longrightarrow>
   last_job_by_client st' = last_job_by_client st \<Longrightarrow> jobs_ok st'"
  by (simp add: jobs_ok_iff)

interpretation integrity_inv: state_invariant L pg "\<lambda>st. sound_tables (tables st)" for L pg
  by unfold_locales (simp_all add: same_data_def load_sound apply_sound)

lemma load_fields [simp]:
  "jobs (fst (load_er_json L f st)) = jobs st"
  "next_job_id (fst (load_er_json L f st)) = next_job_id st"
  "last_job_by_client (fst (load_er_json L f st)) = last_job_by_client st"
  "clients (fst (load_er_json L f st)) = clients st"
  "client_count (fst (load_er_json L f st)) = client_count st"
  "next_client_id (fst (load_er_json L f st)) = next_client_id st"
  "history (fst (load_er_json L f st)) = history st"
  "history_count (fst (load_er_json L f st)) = history_count st"
  "queue_depth (fst (load_er_json L f st)) = queue_depth st"
  using load_data [of L f st] by auto

lemma apply_fields [simp]:
  "jobs (fst (apply_insert_batch pg st sql)) = jobs st"
  "next_job_id (fst (apply_insert_batch pg st sql)) = next_job_id st"
  "last_job_by_client (fst (apply_insert_batch pg st sql)) = last_job_by_client st"
  "clients (fst (apply_insert_batch pg st sql)) = clients st"
  "client_count (fst (apply_insert_batch pg st sql)) = client_count st"
  "next_client_id (fst (apply_insert_batch pg st sql)) = next_client_id st"
  "history (fst (apply_insert_batch pg st sql)) = history st"
  "history_count (fst (apply_insert_batch pg st sql)) = history_count st"
  "queue_depth (fst (apply_insert_batch pg st sql)) = queue_depth st"
  using apply_data [of pg st sql] by auto

interpretation jobs_inv: state_invariant L pg jobs_ok for L pg
proof
  fix st st' assume "jobs_ok st" "same_data st st'"
  then show "jobs_ok st'" using jobs_ok_keep [of st st'] by (simp add: same_data_def)
qed (simp_all add: jobs_ok_create, (erule jobs_ok_keep; simp)+)

text \<open>Ids are 32 bits: the client table is sound as long as they have not run out.\<close>

definition clients_sound :: "SharedState \<Rightarrow> bool" where
  "clients_sound st \<longleftrightarrow> next_client_id st \<le> 2 ^ 31 \<longrightarrow> clients_ok st"

lemma clients_sound_keep:
  "clients_sound st \<Longrightarrow> clients st' = clients st \<Longrightarrow> client_count st' = client_count st \<Longrightarrow>
   next_client_id st' = next_client_id st \<Longrightarrow> clients_sound st'"
  by (simp add: clients_sound_def clients_ok_def)

interpretation clients_inv: state_invariant L pg clients_sound for L pg
proof
  fix st st' assume "clients_sound st" "same_data st st'"
  then show "clients_sound st'" using clients_sound_keep [of st st'] by (simp add: same_data_def)
next
  fix st :: SharedState and fd now :: int and addr :: string
  assume "clients_sound st" "0 < fd"
  then show "clients_sound (fst (connect_client now fd addr st))"
    using clients_ok_connect [of st fd now addr] by (auto simp: clients_sound_def)
next
  fix st :: SharedState and fd :: int
  assume "clients_sound st" "0 < fd"
  then show "clients_sound (client_remove_fd fd st)"
    using clients_ok_remove [of st fd] by (auto simp: clients_sound_def)
next
  fix st :: SharedState and now :: int and c :: "32 word"
  assume "clients_sound st"
  then show "clients_sound (client_touch now c st)"
    using clients_ok_touch [of st now c] by (auto simp: clients_sound_def)
qed (erule clients_sound_keep; simp)+

section \<open>Every array keeps its size\<close>

definition fits_model :: "SharedState \<Rightarrow> bool" where
  "fits_model st \<longleftrightarrow> wf_tables (tables st) \<and> length (clients st) = MAX_CLIENTS \<and>
     (\<forall>e \<in> set (clients st). length (ci_addr e) < ADDR_SIZE) \<and> length (jobs st) = MAX_JOBS \<and>
     (\<forall>j \<in> set (jobs st). length (ji_result j) < MAX_JOB_RESULT) \<and> length (last_job_by_client st) = MAX_CLIENTS \<and>
     length (history st) = MAX_HISTORY \<and> (\<forall>l \<in> set (history st). length l < MAX_COMMAND)"

lemma set_list_update: "\<forall>x \<in> set xs. P x \<Longrightarrow> P y \<Longrightarrow> \<forall>x \<in> set (xs[i := y]). P x"
  using set_update_subset_insert [of xs i y] by blast

lemma new_job_fits: "length (ji_result (new_job now j c opn)) < MAX_JOB_RESULT"
  by (simp add: new_job_def)

lemma fits_keep:
  "fits_model st \<Longrightarrow> wf_tables (tables st') \<Longrightarrow> clients st' = clients st \<Longrightarrow> jobs st' = jobs st \<Longrightarrow>
   last_job_by_client st' = last_job_by_client st \<Longrightarrow> history st' = history st \<Longrightarrow> fits_model st'"
  by (simp add: fits_model_def)

lemma fits_history: "fits_model st \<Longrightarrow> fits_model (history_add l st)"
  unfolding fits_model_def by (auto simp: history_add_def intro: set_list_update [THEN bspec, rotated -1])

lemma fits_connect: "fits_model st \<Longrightarrow> fits_model (fst (connect_client now fd addr st))"
  unfolding fits_model_def
  by (auto simp: connect_client_def register_client_def new_client_def Let_def split: option.splits
      dest!: set_update_subset_insert [THEN subsetD])

lemma fits_remove: "fits_model st \<Longrightarrow> fits_model (client_remove_fd fd st)"
  unfolding fits_model_def
  by (auto simp: client_remove_fd_def split: option.splits dest!: set_update_subset_insert [THEN subsetD] first_index_SomeD(1))

lemma fits_touch: "fits_model st \<Longrightarrow> fits_model (client_touch now c st)"
  unfolding fits_model_def
  by (auto simp: client_touch_def client_index_def split: option.splits
      dest!: set_update_subset_insert [THEN subsetD] first_index_SomeD(1))

lemma fits_create: "fits_model st \<Longrightarrow> fits_model (fst (job_create now c opn st))"
  unfolding fits_model_def
  by (auto simp: job_create_def new_job_def Let_def dest!: set_update_subset_insert [THEN subsetD])

lemma fits_update: "fits_model st \<Longrightarrow> fits_model (job_update now j t u st)"
  unfolding fits_model_def
  by (auto simp: job_update_def split: option.splits dest!: set_update_subset_insert [THEN subsetD])

interpretation sizes_inv: state_invariant L pg "\<lambda>st. sound_tables (tables st) \<and> fits_model st" for L pg
proof
  fix st st' assume "sound_tables (tables st) \<and> fits_model st" "same_data st st'"
  then show "sound_tables (tables st') \<and> fits_model st'"
    using fits_keep [of st st'] by (simp add: same_data_def sound_tables_def)
next
  fix st and f
  assume "sound_tables (tables st) \<and> fits_model st"
  then show "sound_tables (tables (fst (load_er_json L f st))) \<and> fits_model (fst (load_er_json L f st))"
    using load_sound [of st L f] fits_keep [of st] by (simp add: sound_tables_def)
next
  fix st and sql
  assume "sound_tables (tables st) \<and> fits_model st"
  then show "sound_tables (tables (fst (apply_insert_batch pg st sql))) \<and> fits_model (fst (apply_insert_batch pg st sql))"
    using apply_sound [of st pg sql] fits_keep [of st] by (simp add: sound_tables_def)
next
  fix st :: SharedState and b
  assume "sound_tables (tables st) \<and> fits_model st"
  then show "sound_tables (tables (st\<lparr>admin_connected := b\<rparr>)) \<and> fits_model (st\<lparr>admin_connected := b\<rparr>)"
    using fits_keep [of st] by (simp add: sound_tables_def)
qed (simp_all add: fits_history fits_connect fits_remove fits_touch fits_create fits_update)

lemma init_state: "g_state (sy_g (system_init l al now)) = state_init now"
  by (simp add: system_init_def globals_init_def)

lemma init_net:
  assumes "0 < listen_fd" "0 < admin_listen_fd" "listen_fd \<noteq> admin_listen_fd"
  shows "net_ok admin_listen_fd (system_init listen_fd admin_listen_fd now)"
  using assms by (simp add: net_ok_def system_init_def admin_init_def fds_of_def admin_ok_def globals_init_def state_init_def)

lemma init_sound: "sound_tables (tables (state_init now))"
  by (simp add: state_init_def sound_tables_def wf_tables_def integrity_def)

lemma init_fits: "fits_model (state_init now)"
  by (auto simp: fits_model_def state_init_def wf_tables_def zero_client_def zero_job_def)

text \<open>
  Whatever the clients and the administrator send and however the three threads take
  turns: the stored rows satisfy every constraint of the loaded schema, a job is found under
  its id while fewer than 128 later jobs exist, the client table counts its clients and
  gives no id twice (as long as the 31 bits of an id last), and there is at most one
  administrator.
\<close>

theorem server_keeps_invariants:
  assumes "run L pg listen_fd admin_listen_fd timeout (system_init listen_fd admin_listen_fd now) effs s"
    and "0 < listen_fd" and "0 < admin_listen_fd" and "listen_fd \<noteq> admin_listen_fd"
  shows "integrity (tables (g_state (sy_g s))) \<and> jobs_ok (g_state (sy_g s)) \<and>
    (next_client_id (g_state (sy_g s)) \<le> 2 ^ 31 \<longrightarrow> clients_ok (g_state (sy_g s))) \<and>
    admin_ok admin_listen_fd (sy_admin s, sy_g s)"
proof -
  note net = init_net [OF assms(2-4), of now]
  have "sound_tables (tables (g_state (sy_g s)))" "jobs_ok (g_state (sy_g s))" "clients_sound (g_state (sy_g s))"
    using integrity_inv.keep_run [OF assms(1) net] jobs_inv.keep_run [OF assms(1) net]
      clients_inv.keep_run [OF assms(1) net]
    by (simp_all add: init_state init_sound jobs_ok_init clients_ok_init clients_sound_def)
  moreover have "net_ok admin_listen_fd s"
    using integrity_inv.keep_run [OF assms(1) net] by (simp add: init_state init_sound)
  ultimately show ?thesis by (simp add: sound_tables_def clients_sound_def net_ok_def)
qed

text \<open>
  The shared memory keeps the types of \<open>model.h\<close>.  In every state the server reaches,
  each array has its size, each text fits its array with the terminating NUL, and each count
  is within the array it counts; and the interface threads stay inside \<open>fds[256]\<close> and
  \<open>fds[2]\<close>.
\<close>

theorem server_fits_model:
  assumes "run L pg listen_fd admin_listen_fd timeout (system_init listen_fd admin_listen_fd now) effs s"
    and "0 < listen_fd" and "0 < admin_listen_fd" and "listen_fd \<noteq> admin_listen_fd"
  shows "fits_model (g_state (sy_g s)) \<and> length (sy_fds s) \<le> MAX_FDS \<and> length (ad_fds (sy_admin s)) \<le> 2"
proof -
  note net = init_net [OF assms(2-4), of now]
  have "net_ok admin_listen_fd s \<and> fits_model (g_state (sy_g s))"
    using sizes_inv.keep_run [OF assms(1) net] by (simp add: init_state init_sound init_fits)
  then show ?thesis by (auto simp: net_ok_def admin_ok_def fds_of_one fds_of_two)
qed

section \<open>The queue between the threads\<close>

definition worker_request :: "phase \<Rightarrow> (nat \<times> Request) option" where
  "worker_request ph = (case ph of Idle \<Rightarrow> None | Taken p r \<Rightarrow> Some (p, r) | Decided p r _ \<Rightarrow> Some (p, r)
     | Performed p r _ \<Rightarrow> Some (p, r))"

definition waiting :: "system \<Rightarrow> (nat \<times> Request) list" where
  "waiting s = queued (g_queue (sy_g s), g_state (sy_g s))"

text \<open>The queue is sound, and the request in work is allocated and no longer in it.\<close>

definition queue_sound :: "system \<Rightarrow> bool" where
  "queue_sound s \<longleftrightarrow> queue_ok (g_queue (sy_g s), g_state (sy_g s)) \<and>
     (\<forall>p r. worker_request (sy_worker s) = Some (p, r) \<longrightarrow>
        q_mem (g_queue (sy_g s)) p \<noteq> None \<and> p \<notin> fst ` set (waiting s))"

lemma queue_depth_only:
  "queue_depth st' = queue_depth st \<Longrightarrow> queue_ok (q, st') = queue_ok (q, st) \<and> queued (q, st') = queued (q, st)"
  by (simp add: queue_ok_def queued_def)

definition same_queue :: "globals \<Rightarrow> globals \<Rightarrow> bool" where
  "same_queue g g' \<longleftrightarrow> g_queue g' = g_queue g \<and> queue_depth (g_state g') = queue_depth (g_state g)"

lemma same_queue_sound:
  "same_queue (sy_g s) (sy_g s') \<Longrightarrow> worker_request (sy_worker s') = worker_request (sy_worker s) \<Longrightarrow>
   queue_sound s \<Longrightarrow> queue_sound s' \<and> waiting s' = waiting s"
  using queue_depth_only [of "g_state (sy_g s')" "g_state (sy_g s)" "g_queue (sy_g s)"]
  by (simp add: same_queue_def queue_sound_def waiting_def)

lemma same_queue_with_state [simp]: "queue_depth (f (g_state g)) = queue_depth (g_state g) \<Longrightarrow> same_queue g (with_state f g)"
  by (simp add: same_queue_def)

lemma same_queue_trans: "same_queue g g1 \<Longrightarrow> same_queue g1 g2 \<Longrightarrow> same_queue g g2"
  by (simp add: same_queue_def)

lemma remove_same_queue: "same_queue g (snd (fst (remove_pollfd i (fds, g))))"
  by (simp add: remove_pollfd_def Let_def same_queue_def)

lemma admin_same_queue:
  "same_queue g (snd (fst (accept_admin acc now (a, g))))"
  "same_queue g (snd (fst (handle_admin_message now fd h payload (a, g))))"
  "same_queue g (snd (fst (drop_admin_fd i (a, g))))"
  by (auto simp: accept_admin_def handle_admin_message_def admin_disconnect_def admin_cancel_def admin_block_def
      drop_admin_fd_def remove_pollfd_def case_prod_unfold Let_def same_queue_def split: option.splits)

lemma gone_same_queue: "same_queue g (snd (admin_gone (a, g)))"
  by (simp add: admin_gone_def same_queue_def)

lemma admin_message_same_queue: "same_queue g (snd (fst (admin_message now res i (a, g))))"
proof (cases res)
  case (Message h payload)
  obtain a1 g1 eff where m: "handle_admin_message now (pf_fd (ad_fds a ! i)) h payload (a, g) = ((a1, g1), eff)"
    by (metis prod.collapse)
  have "same_queue g g1" using admin_same_queue(2) [of g now _ h payload a] m by (metis fst_conv snd_conv)
  with Message m same_queue_trans [OF _ admin_same_queue(3)] show ?thesis
    by (simp add: admin_message_def case_prod_unfold Let_def)
next
  case RecvBlocked
  then show ?thesis by (simp add: admin_message_def same_queue_def)
qed (use admin_same_queue(3) in \<open>auto simp: admin_message_def admin_gone_def case_prod_unfold Let_def same_queue_def\<close>)

lemma admin_timeout_same_queue: "same_queue g (snd (fst (admin_timeout timeout now (a, g))))"
  using admin_same_queue(3) [of g _ a]
  by (auto simp: admin_timeout_def admin_gone_def case_prod_unfold Let_def same_queue_def split: option.splits)

lemma push_mem: "q_mem q x \<noteq> None \<Longrightarrow> q_mem (fst (queue_push p r (q, st))) x \<noteq> None"
  by (auto simp: queue_push_def Let_def set_next_def split: option.splits)

lemma enqueue_cases:
  obtains (same) "same_queue g (fst (enqueue_request k fd h payload g))"
    | (pushed) p r st where "ic_calloc k = Some p" "queue_depth st = queue_depth (g_state g)"
      "(g_queue (fst (enqueue_request k fd h payload g)), g_state (fst (enqueue_request k fd h payload g))) =
        queue_push p r (g_queue g, st)" "rq_fd r = fd" "rq_client_id r = mh_client_id h" "rq_op_id r = mh_op_id h"
proof (cases "ic_calloc k")
  case None
  then show thesis by (intro same) (simp add: enqueue_request_def same_queue_def)
next
  case (Some p)
  let ?st = "if is_processing_op (mh_op_id h) then fst (job_create (ic_now k) (mh_client_id h) (mh_op_id h) (g_state g))
    else g_state g"
  let ?job = "if is_processing_op (mh_op_id h) then snd (job_create (ic_now k) (mh_client_id h) (mh_op_id h) (g_state g))
    else 0"
  let ?r = "\<lparr>rq_fd = fd, rq_client_id = mh_client_id h, rq_op_id = mh_op_id h, rq_job_id = ?job,
    rq_payload = payload, rq_payload_size = msg_size h\<rparr>"
  show thesis
    by (rule pushed [of p ?st ?r]) (simp_all add: Some enqueue_request_def case_prod_unfold Let_def)
qed

text \<open>A message changes the queue only by appending one request, at fresh memory.\<close>

lemma ordinary_message_queue:
  assumes "ordinary_message k res i (fds, g) = ((fds', g'), eff, fate)"
  obtains (same) "same_queue g g'"
    | (pushed) p r st where "ic_calloc k = Some p" "queue_depth st = queue_depth (g_state g)"
      "(g_queue g', g_state g') = queue_push p r (g_queue g, st)" "rq_fd r = pf_fd (fds ! i)"
proof (cases res)
  case (Message h payload)
  note msg = this
  consider "mh_op_id h = OP_CONNECT" | "mh_op_id h = OP_BYE" | "mh_op_id h \<noteq> OP_CONNECT" "mh_op_id h \<noteq> OP_BYE" by blast
  then show thesis
  proof cases
    case 1
    with assms msg show thesis
      by (intro same) (auto simp: ordinary_message_def handle_connect_def case_prod_unfold Let_def same_queue_def)
  next
    case 2
    with assms msg have "g' = snd (fst (remove_pollfd i (fds, g)))"
      by (auto simp: ordinary_message_def case_prod_unfold Let_def)
    then show thesis using remove_same_queue by (intro same) simp
  next
    case 3
    with assms msg have g': "g' = fst (handle_request k (pf_fd (fds ! i)) h payload g)"
      by (auto simp: ordinary_message_def case_prod_unfold Let_def)
    show thesis
    proof (cases "is_registered_client (mh_client_id h) (g_state g) \<and>
        mh_op_id h \<noteq> OP_JOB_STATUS \<and> mh_op_id h \<noteq> OP_JOB_RESULT")
      case True
      then have g'': "g' = fst (enqueue_request k (pf_fd (fds ! i)) h payload g)"
        by (simp add: g' handle_request_def)
      show thesis
        by (rule enqueue_cases [of g k "pf_fd (fds ! i)" h payload, folded g'']) (use same pushed in blast)+
    next
      case False
      then have "g' = g" by (auto simp: g' handle_request_def case_prod_unfold Let_def)
      then show thesis by (intro same) (simp add: same_queue_def)
    qed
  qed
qed (use assms remove_same_queue [of g i fds] same in
    \<open>auto simp: ordinary_message_def case_prod_unfold Let_def same_queue_def\<close>)

definition queue_moves :: "system \<Rightarrow> system \<Rightarrow> bool" where
  "queue_moves s s' \<longleftrightarrow> waiting s' = waiting s \<or> (\<exists>x. waiting s' = waiting s @ [x]) \<or>
     (\<exists>x. waiting s = x # waiting s' \<and> worker_request (sy_worker s') = Some x)"

lemma perform_depth:
  "perform_request L pg calls r (st, fs) = Ok ((st', fs'), rp) \<Longrightarrow> queue_depth st' = queue_depth st"
  using perform_request_shape(2) [of L pg calls r st fs st' fs' rp] by (simp add: counters_def)

lemma cancel_depth: "cancel_request st = (st', rp) \<Longrightarrow> queue_depth st' = queue_depth st"
  by (auto simp: cancel_request_def)

lemma queue_step_same:
  "same_queue (sy_g s) (sy_g s') \<Longrightarrow> worker_request (sy_worker s') = worker_request (sy_worker s) \<Longrightarrow>
   queue_sound s \<Longrightarrow> queue_sound s' \<and> queue_moves s s'"
  using same_queue_sound [of s s'] by (simp add: queue_moves_def)

lemma pop_allocated:
  assumes "queue_pop (q, st) = Some ((p, r), q', st')"
  shows "q_mem q p \<noteq> None" "q_mem q' = q_mem q"
  using assms by (auto simp: queue_pop_def split: option.splits)

text \<open>A request that is queued, and one that is finished.\<close>

lemma queue_step_pushed:
  assumes "queue_sound s" "fresh_calloc k (sy_g s)" "ic_calloc k = Some p"
    and "queue_depth st = queue_depth (g_state (sy_g s))"
    and "queue_push p r (g_queue (sy_g s), st) = (g_queue (sy_g s'), g_state (sy_g s'))"
    and "sy_worker s' = sy_worker s"
  shows "queue_sound s' \<and> queue_moves s s'"
proof -
  have none: "q_mem (g_queue (sy_g s)) p = None" using assms(2,3) by (simp add: fresh_calloc_def)
  have q: "queue_ok (g_queue (sy_g s), st)" "queued (g_queue (sy_g s), st) = waiting s"
    using queue_depth_only [OF assms(4)] assms(1) by (simp_all add: queue_sound_def waiting_def)
  have fresh: "queue_fresh (p, r) (g_queue (sy_g s), st)" using none by (simp add: queue_fresh_def)
  have w: "waiting s' = waiting s @ [(p, r)]" and qo: "queue_ok (g_queue (sy_g s'), g_state (sy_g s'))"
    using queue_push_ok [OF q(1) fresh] q(2) assms(5) by (simp_all add: waiting_def)
  have "q_mem (g_queue (sy_g s')) p' \<noteq> None \<and> p' \<notin> fst ` set (waiting s')"
    if "worker_request (sy_worker s) = Some (p', r')" for p' r'
  proof -
    have "q_mem (g_queue (sy_g s)) p' \<noteq> None" "p' \<notin> fst ` set (waiting s)"
      using assms(1) that by (auto simp: queue_sound_def)
    with none push_mem [of "g_queue (sy_g s)" p' p r st] assms(5) show ?thesis
      unfolding w by (cases "p' = p") simp_all
  qed
  with qo w assms(6) show ?thesis by (auto simp: queue_sound_def queue_moves_def)
qed

lemma queue_step_finished:
  assumes "queue_sound s" "worker_request (sy_worker s) = Some (p, r)"
    and "queue_depth st' = queue_depth (g_state (sy_g s))"
    and "g_queue (sy_g s') = free_request p (g_queue (sy_g s))" "g_state (sy_g s') = st'" "sy_worker s' = Idle"
  shows "queue_sound s' \<and> queue_moves s s'"
proof -
  have "queue_ok (g_queue (sy_g s), st')" "queued (g_queue (sy_g s), st') = waiting s"
    using queue_depth_only [OF assms(3)] assms(1) by (simp_all add: queue_sound_def waiting_def)
  moreover have "p \<notin> set (map fst (waiting s))" using assms(1,2) by (auto simp: queue_sound_def)
  ultimately show ?thesis
    using free_request_ok [of "g_queue (sy_g s)" st' p] assms(4-6)
    by (simp add: queue_sound_def queue_moves_def waiting_def worker_request_def)
qed

lemma queue_step:
  assumes "step L pg listen_fd admin_listen_fd timeout s eff s'" "queue_sound s"
  shows "queue_sound s' \<and> queue_moves s s'"
  using assms(1)
proof cases
  case (accepting_client fd ip fds' g')
  then show ?thesis
    using accept_client_net(2,3) [OF accepting_client(4)] assms(2) by (intro queue_step_same) (simp_all add: same_queue_def)
next
  case (client_message i k res fds' g' fate)
  from client_message(5) show ?thesis
  proof (cases rule: ordinary_message_queue)
    case same
    with client_message(1) assms(2) show ?thesis by (intro queue_step_same) simp_all
  next
    case (pushed p r st)
    then show ?thesis
      by (intro queue_step_pushed [OF assms(2) client_message(4) pushed(1,2)]) (simp_all add: client_message(1))
  qed
next
  case (accepting_admin fd now a' g')
  then show ?thesis
    using admin_same_queue(1) [of "sy_g s" "Some fd" now "sy_admin s"] assms(2) by (intro queue_step_same) simp_all
next
  case (message_of_admin i now res a' g' fate)
  then show ?thesis
    using admin_message_same_queue [of "sy_g s" now res i "sy_admin s"] assms(2) by (intro queue_step_same) simp_all
next
  case (timing_out now a' g')
  then show ?thesis
    using admin_timeout_same_queue [of "sy_g s" timeout now "sy_admin s"] assms(2) by (intro queue_step_same) simp_all
next
  case (taking p r q' st')
  have ok: "queue_ok (g_queue (sy_g s), g_state (sy_g s))" using assms(2) by (simp add: queue_sound_def)
  from requests.pop_SomeD [OF ok taking(4)] have q': "waiting s = (p, r) # queued (q', st')" "queue_ok (q', st')"
    by (simp_all add: waiting_def)
  have "distinct (map fst (waiting s))" using ok by (simp add: queue_ok_def waiting_def)
  then have "p \<notin> fst ` set (queued (q', st'))" by (simp add: q'(1))
  with q' pop_allocated [OF taking(4)] show ?thesis
    by (auto simp: taking(2) queue_sound_def queue_moves_def waiting_def worker_request_def)
next
  case (deciding p r st' now)
  then show ?thesis
    using assms(2) by (intro queue_step_same) (simp_all add: same_queue_def set_worker_state_def worker_request_def)
next
  case (refusing p r st' rp)
  then show ?thesis
    using assms(2) cancel_depth [OF refusing(4)]
    by (intro queue_step_same) (simp_all add: same_queue_def set_worker_state_def worker_request_def)
next
  case (performing p r calls st' fs' rp)
  then show ?thesis
    using assms(2) perform_depth [OF performing(4)]
    by (intro queue_step_same) (simp_all add: same_queue_def set_worker_state_def worker_request_def)
next
  case (finishing p r rp calls st' msgs)
  then have "queue_depth st' = queue_depth (g_state (sy_g s))"
    using finish_fields(5) [of calls r rp "g_state (sy_g s)"] by simp
  with finishing show ?thesis
    by (intro queue_step_finished [OF assms(2)]) (simp_all add: set_worker_state_def worker_request_def)
qed

text \<open>
  The requests that wait are taken from the front, in the order in which they arrived,
  and none disappears in another way, whatever the three threads do in the meantime; and
  \<open>queue_depth\<close> counts them.
\<close>

theorem waiting_requests_advance:
  assumes "run L pg listen_fd admin_listen_fd timeout s effs s'" and "queue_sound s"
  shows "queue_sound s' \<and> queue_depth (g_state (sy_g s')) = int (length (waiting s')) \<and>
    (\<exists>k \<le> length (waiting s). \<exists>later. waiting s' = drop k (waiting s) @ later)"
proof -
  have "queue_sound s' \<and> (\<exists>k \<le> length (waiting s). \<exists>later. waiting s' = drop k (waiting s) @ later)"
    using assms
  proof (induction rule: run.induct)
    case (start s)
    then show ?case by (intro conjI exI [of _ 0]) auto
  next
    case (more s effs s' eff s'')
    then obtain k later where k: "k \<le> length (waiting s)" "waiting s' = drop k (waiting s) @ later"
      and q: "queue_sound s'" by blast
    from queue_step [OF more.hyps(2) q] have q': "queue_sound s''" and mv: "queue_moves s' s''" by blast+
    from mv consider "waiting s'' = waiting s'" | x where "waiting s'' = waiting s' @ [x]"
      | x where "waiting s' = x # waiting s''"
      by (auto simp: queue_moves_def)
    then have "\<exists>k \<le> length (waiting s). \<exists>later. waiting s'' = drop k (waiting s) @ later"
    proof cases
      case 1
      with k show ?thesis by auto
    next
      case (2 x)
      with k show ?thesis by (intro exI [of _ k] conjI exI [of _ "later @ [x]"]) simp_all
    next
      case (3 x)
      show ?thesis
      proof (cases "k < length (waiting s)")
        case True
        with 3 k have "waiting s'' = drop (Suc k) (waiting s) @ later"
          by (simp add: Cons_nth_drop_Suc [symmetric])
        with True show ?thesis by (intro exI [of _ "Suc k"]) auto
      next
        case False
        with k have "waiting s' = later" by simp
        then show ?thesis by (intro exI [of _ "length (waiting s)"]) simp
      qed
    qed
    with q' show ?case by blast
  qed
  then show ?thesis by (auto simp: queue_sound_def queue_ok_def waiting_def)
qed

section \<open>The command that a cancellation hits\<close>

lemma cancel_active:
  assumes "parse_client_id_payload payload = Some (sint c)" "active_client_id (g_state g) = sint c"
  shows "admin_cancel fd payload g = (with_state (\<lambda>st. history_add ''admin requested command cancel''
      (st\<lparr>cancel_client_id := sint c\<rparr>)) g, [admin_reply fd OP_OK ''cancel requested''])"
  using assms by (simp add: admin_cancel_def)

text \<open>
  C38: a cancellation misses the command it is meant for.  Requested while the command of a
  client is active, it is confirmed to the administrator; but the active command runs to its
  end, and the next request of the client, whatever it is, is refused in its place.
\<close>

theorem cancel_hits_next_request:
  assumes "parse_client_id_payload payload = Some (sint (rq_client_id r))"
    and "active_client_id (g_state g) = sint (rq_client_id r)"
    and "admin_cancel fd payload g = (g1, answers)"
    and "perform_request L pg calls r (g_state g1, fs) = Ok ((st2, fs2), rp)"
    and "finish_request calls r rp st2 = (st3, msgs)"
    and "rq_client_id later = rq_client_id r" and "rq_job_id later < 2 ^ 31"
  shows "answers = [admin_reply fd OP_OK ''cancel requested''] \<and>
    (\<exists>st4. process_request L pg calls' later (st3, fs2) = Ok ((st4, fs2),
      [respond_text (rq_fd later) (rq_client_id later) OP_ERROR (answer_text later ''command cancelled by admin'')]) \<and>
      tables st4 = tables st3)"
proof -
  have "cancel_client_id (g_state g1) = sint (rq_client_id r)" "answers = [admin_reply fd OP_OK ''cancel requested'']"
    using cancel_active [OF assms(1,2), of fd] assms(3) by auto
  moreover from this have "cancel_client_id st3 = sint (rq_client_id later)"
    using perform_request_shape(2) [OF assms(4)] finish_cancel_id [OF assms(5)] assms(6)
    by (simp add: counters_def)
  ultimately show ?thesis
    using cancelled_refused [of st3 later L pg calls' fs2] assms(7) by blast
qed

section \<open>Answers and connections\<close>

text \<open>
  C39: an answer can reach the wrong client.  When a connection is closed while its request
  waits and a new connection gets the same descriptor, the request is still in the queue and
  its answer is sent to that descriptor, now that of the other client.
\<close>

theorem answer_to_reused_descriptor:
  assumes "queue_sound s" and "(p, r) \<in> set (waiting s)" and "i < length (sy_fds s)"
    and "pf_fd (sy_fds s ! i) = rq_fd r" and "length (sy_fds s) \<le> MAX_FDS"
    and "ordinary_message k ConnectionClosed i (sy_fds s, sy_g s) = ((fds1, g1), eff1, fate)"
    and "accept_client (Some (rq_fd r, Some ip)) (fds1, g1) = ((fds2, g2), eff2)"
    and "\<not> addr_blocked ip (g_blocked_addrs (sy_g s))"
    and "shape_ok r rp" and "finish_request calls r rp st = (st', msgs)"
  shows "Close (rq_fd r) \<in> set eff1 \<and> rq_fd r \<in> set (fds_of fds2) \<and>
    (p, r) \<in> set (queued (g_queue g2, g_state g2)) \<and> msgs \<noteq> [] \<and> (\<forall>m \<in> set msgs. to_fd m = rq_fd r)"
proof -
  have rem: "((fds1, g1), eff1, fate) = (let (s', eff) = remove_pollfd i (sy_fds s, sy_g s) in (s', eff, Removed))"
    using assms(6) by (simp add: ordinary_message_def)
  then have r1: "fds1 = take i (sy_fds s) @ drop (Suc i) (sy_fds s)" "eff1 = [Close (rq_fd r)]"
    "g1 = snd (fst (remove_pollfd i (sy_fds s, sy_g s)))" "g_blocked_addrs g1 = g_blocked_addrs (sy_g s)"
    using assms(4) by (auto simp: remove_pollfd_def Let_def)
  have "length fds1 < MAX_FDS" using r1(1) assms(3,5) by simp
  then have r2: "fds2 = fds1 @ [\<lparr>pf_fd = rq_fd r, pf_ready = False\<rparr>]" "g_queue g2 = g_queue g1" "g_state g2 = g_state g1"
    using assms(7,8) r1(4) by (auto simp: accept_client_def)
  have "same_queue (sy_g s) g2"
    using remove_same_queue [of "sy_g s" i "sy_fds s"] r1(3) r2 by (simp add: same_queue_def)
  then have "queued (g_queue g2, g_state g2) = waiting s"
    using queue_depth_only [of "g_state g2" "g_state (sy_g s)" "g_queue (sy_g s)"]
    by (simp add: same_queue_def waiting_def)
  with assms(2) r1(2) r2(1) finish_answers(1) [OF assms(9,10)] show ?thesis
    by (simp add: fds_of_snoc well_answered_def)
qed

section \<open>Witnesses\<close>

text \<open>A client connects on descriptor 5, and an administrator on descriptor 6.\<close>

lemma two_arrive:
  obtains s where "run (json_lib (\<lambda>_. None)) Some 3 4 60 (system_init 3 4 0) [] s"
    "fds_of (sy_fds s) = [3, 5]" "fds_of (ad_fds (sy_admin s)) = [4, 6]"
proof -
  let ?L = "json_lib (\<lambda>_. None) :: json cjson"
  let ?s = "system_init 3 4 0"
  obtain fds1 g1 where acc: "accept_client (Some (5, Some ''10.0.0.5'')) (sy_fds ?s, sy_g ?s) = ((fds1, g1), [])"
    and fds1: "fds_of fds1 = [3, 5]"
    by (auto simp: accept_client_def system_init_def globals_init_def addr_blocked_def fds_of_def)
  define s1 where "s1 = ?s\<lparr>sy_fds := fds1, sy_g := g1\<rparr>"
  have sock: "sockets ?s = {3, 4}" "sockets s1 = {3, 5, 4}"
    by (auto simp: sockets_def s1_def fds1) (auto simp: system_init_def admin_init_def fds_of_def)
  have 1: "step ?L Some 3 4 60 ?s [] s1"
    unfolding s1_def by (rule step.accepting_client [OF _ _ acc]) (simp_all add: sock)
  obtain a2 g2 where adm: "accept_admin (Some 6) 1 (sy_admin s1, sy_g s1) = ((a2, g2), [])"
    and a2: "fds_of (ad_fds a2) = [4, 6]"
    by (auto simp: accept_admin_def s1_def system_init_def admin_init_def fds_of_def)
  have 2: "step ?L Some 3 4 60 s1 [] (s1\<lparr>sy_admin := a2, sy_g := g2\<rparr>)"
    by (rule step.accepting_admin [OF _ _ adm]) (simp_all add: sock)
  have "run ?L Some 3 4 60 ?s [] (s1\<lparr>sy_admin := a2, sy_g := g2\<rparr>)"
    using run.more [OF run.more [OF run.start 1] 2] by simp
  then show thesis by (rule that) (simp_all add: s1_def fds1 a2)
qed

theorem server_keeps_invariants_witness:
  "\<exists>s. run (json_lib (\<lambda>_. None)) Some 3 4 60 (system_init 3 4 0) [] s \<and> fds_of (sy_fds s) = [3, 5] \<and>
    jobs_ok (g_state (sy_g s)) \<and> admin_ok 4 (sy_admin s, sy_g s)"
proof -
  obtain s where "run (json_lib (\<lambda>_. None)) Some 3 4 60 (system_init 3 4 0) [] s" "fds_of (sy_fds s) = [3, 5]"
    by (rule two_arrive)
  with server_keeps_invariants [OF this(1)] show ?thesis by auto
qed

theorem server_fits_model_witness:
  "\<exists>s. run (json_lib (\<lambda>_. None)) Some 3 4 60 (system_init 3 4 0) [] s \<and> length (ad_fds (sy_admin s)) = 2 \<and>
    fits_model (g_state (sy_g s))"
proof -
  obtain s where s: "run (json_lib (\<lambda>_. None)) Some 3 4 60 (system_init 3 4 0) [] s"
    "fds_of (ad_fds (sy_admin s)) = [4, 6]" by (rule two_arrive)
  have "length (ad_fds (sy_admin s)) = 2" using arg_cong [OF s(2), of length] by (simp add: fds_of_def)
  with s server_fits_model [OF s(1)] show ?thesis by auto
qed

text \<open>Two requests wait, of the connections 5 and 6.\<close>

definition two_waiting :: system where
  "two_waiting = (system_init 3 4 0)\<lparr>
     sy_fds := map (\<lambda>fd. \<lparr>pf_fd = fd, pf_ready = False\<rparr>) [3, 5, 6],
     sy_g := (let (q, st) = queue_push 9 (a_request 6) (queue_push 7 (a_request 5) (queue_init, state_init 0))
              in (globals_init 0)\<lparr>g_queue := q, g_state := st\<rparr>)\<rparr>"

lemma two_waiting_sound: "queue_sound two_waiting" "waiting two_waiting = [(7, a_request 5), (9, a_request 6)]"
proof -
  obtain q1 st1 where p1: "queue_push 7 (a_request 5) (queue_init, state_init 0) = (q1, st1)" by fastforce
  obtain q2 st2 where p2: "queue_push 9 (a_request 6) (q1, st1) = (q2, st2)" by fastforce
  have f: "queue_fresh (7, a_request 5) (queue_init, state_init 0)" "queue_fresh (9, a_request 6) (q1, st1)"
    using p1 by (auto simp: queue_fresh_def queue_init_def queue_push_def Let_def)
  have "queue_ok (q1, st1)" "queued (q1, st1) = [(7, a_request 5)]"
    using queue_push_ok [OF queue_ok_init(1) f(1)] queue_ok_init(2) p1 by simp_all
  with queue_push_ok [OF _ f(2)] p2 have "queue_ok (q2, st2)" "queued (q2, st2) = [(7, a_request 5), (9, a_request 6)]"
    by simp_all
  then show "queue_sound two_waiting" "waiting two_waiting = [(7, a_request 5), (9, a_request 6)]"
    by (simp_all add: queue_sound_def waiting_def two_waiting_def p1 p2 system_init_def worker_request_def)
qed

theorem waiting_requests_advance_witness:
  "\<exists>s. run (json_lib (\<lambda>_. None)) Some 3 4 60 two_waiting [] s \<and> waiting s = [(9, a_request 6)] \<and>
    queue_depth (g_state (sy_g s)) = 1"
proof -
  let ?s = two_waiting
  have idle: "sy_worker ?s = Idle" by (simp add: two_waiting_def system_init_def)
  have "queue_ok (g_queue (sy_g ?s), g_state (sy_g ?s))" using two_waiting_sound(1) by (simp add: queue_sound_def)
  from queue_pop_ok(2) [OF this] two_waiting_sound(2) obtain q st where
    pop: "queue_pop (g_queue (sy_g ?s), g_state (sy_g ?s)) = Some ((7, a_request 5), q, st)"
    and rest: "queued (q, st) = [(9, a_request 6)]" by (fastforce simp: waiting_def)
  have run: "run (json_lib (\<lambda>_. None)) Some 3 4 60 ?s []
      (?s\<lparr>sy_g := (sy_g ?s)\<lparr>g_queue := q, g_state := st\<rparr>, sy_worker := Taken 7 (a_request 5)\<rparr>)"
    using run.more [OF run.start step.taking [OF idle pop]] by simp
  from waiting_requests_advance [OF run two_waiting_sound(1)] run rest show ?thesis
    by (intro exI [of _ "?s\<lparr>sy_g := (sy_g ?s)\<lparr>g_queue := q, g_state := st\<rparr>, sy_worker := Taken 7 (a_request 5)\<rparr>"])
       (simp add: waiting_def)
qed

theorem answer_to_reused_descriptor_witness:
  "\<exists>st' msgs. finish_request calm (a_request 5) (answer OP_OK ''OK: upload started'') (state_init 0) = (st', msgs) \<and>
    msgs \<noteq> [] \<and> (\<forall>m \<in> set msgs. to_fd m = 5)"
proof -
  let ?k = "\<lparr>ic_now = 1, ic_calloc = None\<rparr>"
  have i: "(7, a_request 5) \<in> set (waiting two_waiting)" "1 < length (sy_fds two_waiting)"
    "pf_fd (sy_fds two_waiting ! 1) = rq_fd (a_request 5)" "length (sy_fds two_waiting) \<le> MAX_FDS"
    by (simp_all add: two_waiting_sound(2), simp_all add: two_waiting_def a_request_def)
  obtain fds1 g1 eff1 fate where m:
    "ordinary_message ?k ConnectionClosed 1 (sy_fds two_waiting, sy_g two_waiting) = ((fds1, g1), eff1, fate)"
    by (metis prod.collapse)
  obtain fds2 g2 eff2 where a:
    "accept_client (Some (rq_fd (a_request 5), Some ''10.0.0.9'')) (fds1, g1) = ((fds2, g2), eff2)"
    by (metis prod.collapse)
  have b: "\<not> addr_blocked ''10.0.0.9'' (g_blocked_addrs (sy_g two_waiting))"
    by (simp add: two_waiting_def case_prod_unfold Let_def globals_init_def addr_blocked_def)
  obtain st' msgs where f:
    "finish_request calm (a_request 5) (answer OP_OK ''OK: upload started'') (state_init 0) = (st', msgs)"
    by fastforce
  have "shape_ok (a_request 5) (answer OP_OK ''OK: upload started'')" by (rule shape_answer) simp
  from answer_to_reused_descriptor [OF two_waiting_sound(1) i m a b this f] f show ?thesis
    by (simp add: a_request_def)
qed

text \<open>The administrator cancels client 1 while its command is active.\<close>

definition busy :: globals where
  "busy = with_state (\<lambda>st. st\<lparr>active_client_id := 1, active_op_id := 20\<rparr>) (globals_init 0)"

theorem cancel_hits_next_request_witness:
  "\<exists>g1 answers st2 fs2 rp st3 msgs st4.
    admin_cancel 6 (Some ''1'') busy = (g1, answers) \<and>
    perform_request (json_lib (\<lambda>_. None)) Some calm (request_of OP_GENERATE_SQL None) (g_state g1, \<lambda>_. None) =
      Ok ((st2, fs2), rp) \<and> resp_op rp = OP_OK \<and>
    finish_request calm (request_of OP_GENERATE_SQL None) rp st2 = (st3, msgs) \<and>
    process_request (json_lib (\<lambda>_. None)) Some calm (request_of OP_VALIDATE_INSERT (Some ''x'')) (st3, fs2) =
      Ok ((st4, fs2), [respond_text 5 1 OP_ERROR ''command cancelled by admin''])"
proof -
  let ?L = "json_lib (\<lambda>_. None) :: json cjson"
  let ?r = "request_of OP_GENERATE_SQL None" and ?later = "request_of OP_VALIDATE_INSERT (Some ''x'')"
  obtain g1 answers where c: "admin_cancel 6 (Some ''1'') busy = (g1, answers)" by fastforce
  obtain st2 rp where p: "perform_request ?L Some calm ?r (g_state g1, \<lambda>_. None) = Ok ((st2, \<lambda>_. None), rp)"
    and rp: "resp_op rp = OP_OK"
    by (simp add: perform_request_def request_of_def generate_sql_request_def answer_def)
  obtain st3 msgs where f: "finish_request calm ?r rp st2 = (st3, msgs)" by fastforce
  have "sdec 1 = ''1''" by (simp add: sdec_def ctext_simps)
  then have "strtol ''1'' = Some (1, [], False)" using strtol_sdec [of 1] by simp
  then have id: "parse_client_id_payload (Some ''1'') = Some (sint (rq_client_id ?r))"
    by (simp add: parse_client_id_payload_def cstr_def request_of_def)
  have "active_client_id (g_state busy) = sint (rq_client_id ?r)" by (simp add: busy_def request_of_def)
  note hit = cancel_hits_next_request [OF id this c p f, of ?later calm]
  have "rq_client_id ?later = rq_client_id ?r" "rq_job_id ?later < 2 ^ 31" by (simp_all add: request_of_def)
  from hit [OF this] obtain st4 where "process_request ?L Some calm ?later (st3, \<lambda>_. None) = Ok ((st4, \<lambda>_. None),
      [respond_text (rq_fd ?later) (rq_client_id ?later) OP_ERROR (answer_text ?later ''command cancelled by admin'')])"
    by blast
  then have "process_request ?L Some calm ?later (st3, \<lambda>_. None) = Ok ((st4, \<lambda>_. None),
      [respond_text 5 1 OP_ERROR ''command cancelled by admin''])"
    by (simp add: request_of_def answer_text_def)
  with c p rp f show ?thesis by blast
qed

end
