(* ===== verification/Lifecycle.thy ===== *)
theory Lifecycle
  imports System Config
begin

text \<open>
  The life of the server: the start in \<open>main\<close>, the loops of \<open>ordinary_interface_main\<close>,
  \<open>admin_interface_main\<close> and \<open>worker_main\<close> with the flag \<open>g_running\<close> they watch, the handler
  \<open>handle_stop_signal\<close> that clears it, and the end of \<open>main\<close>, which joins the threads.  One
  step is one decision of one thread: the head of a loop, one descriptor of a pass, one
  phase of a request, one wait or wake-up.
\<close>

section \<open>The start\<close>

text \<open>What the calls of \<open>main\<close> do before the threads run; \<open>mkdir\<close> may find the directory there.\<close>

datatype mkdir_call = Created | AlreadyThere | NotCreated

record start_calls =
  sc_signal :: bool
  sc_mkdir_data :: mkdir_call
  sc_mkdir_logs :: mkdir_call
  sc_log_fd :: int
  sc_mmap :: bool
  sc_listen :: "16 word \<Rightarrow> listen_calls"
  sc_listen_admin :: "16 word \<Rightarrow> listen_calls"
  sc_worker :: bool
  sc_ordinary :: bool
  sc_admin :: bool
  sc_now :: int

text \<open>
  Where an interface thread is: at the head of its loop, in the pass over its descriptors,
  inside a call that does not return, or at its end.  The worker also has the wait on the
  condition variable, and the access outside an array that C gives no meaning.
\<close>

datatype position = AtLoop | InPass nat | Stuck | Returned

datatype worker_position = WLoop | WPop | WWait | WWork | WFault | WReturned

datatype main_position = MSleep | MJoinOrdinary | MJoinAdmin | MJoinWorker | MExit int

record server =
  sv_sys :: system
  sv_running :: bool
  sv_ordinary :: position
  sv_admin :: position
  sv_worker :: worker_position
  sv_main :: main_position

definition server_init :: "int \<Rightarrow> int \<Rightarrow> int \<Rightarrow> server" where
  "server_init listen_fd admin_listen_fd now =
     \<lparr>sv_sys = system_init listen_fd admin_listen_fd now, sv_running = True, sv_ordinary = AtLoop,
      sv_admin = AtLoop, sv_worker = WLoop, sv_main = MSleep\<rparr>"

text \<open>The process ends with a code, or it serves: the configuration, the two sockets, the state.\<close>

datatype start_result = Exits int | Serves RuntimeConfig int int server

definition server_start ::
  "(RuntimeConfig \<Rightarrow> RuntimeConfig) \<Rightarrow> (string \<Rightarrow> string option) \<Rightarrow> string list \<Rightarrow> start_calls \<Rightarrow> start_result" where
  "server_start load_file getenv args k =
     (if \<not> sc_signal k then Exits 1
      else
        (let (cfg, status) = cfg_load load_file getenv args in
         if 0 < status then Exits 0
         else if status < 0 then Exits 1
         else if sc_mkdir_data k = NotCreated then Exits 1
         else if sc_mkdir_logs k = NotCreated then Exits 1
         else if sc_log_fd k < 0 then Exits 1
         else if \<not> sc_mmap k then Exits 1
         else
           (let listen_fd = fst (listen_tcp (sc_listen k (server_port cfg)));
                admin_listen_fd = fst (listen_tcp (sc_listen_admin k (admin_port cfg)))
            in if listen_fd < 0 \<or> admin_listen_fd < 0 then Exits 1
               else if \<not> sc_worker k then Exits 1
               else if \<not> sc_ordinary k then Exits 1
               else if \<not> sc_admin k then Exits 1
               else Serves cfg listen_fd admin_listen_fd (server_init listen_fd admin_listen_fd (sc_now k)))))"

section \<open>The loops of the threads\<close>

text \<open>What \<open>poll\<close> returns: -1 with \<open>EINTR\<close>, another error, or which descriptors are ready.\<close>

datatype poll_result = PollInterrupted | PollFails | PollReady "int \<Rightarrow> bool"

definition close_all :: "pollfd list \<Rightarrow> effect list" where
  "close_all fds = map (\<lambda>p. Close (pf_fd p)) fds"

text \<open>The loop behind \<open>while (g_running)\<close>, which closes every descriptor of the thread.\<close>

definition ordinary_return :: "server \<Rightarrow> server \<times> effect list" where
  "ordinary_return s =
     (s\<lparr>sv_sys := (sv_sys s)\<lparr>sy_fds := []\<rparr>, sv_ordinary := Returned\<rparr>, close_all (sy_fds (sv_sys s)))"

definition ordinary_loop :: "poll_result \<Rightarrow> server \<Rightarrow> server \<times> effect list" where
  "ordinary_loop res s =
     (if \<not> sv_running s then ordinary_return s
      else (case res of
          PollInterrupted \<Rightarrow> (s, [])
        | PollFails \<Rightarrow> ordinary_return s
        | PollReady ready \<Rightarrow>
            (s\<lparr>sv_sys := (sv_sys s)\<lparr>sy_fds := poll_answer ready (sy_fds (sv_sys s))\<rparr>, sv_ordinary := InPass 0\<rparr>, [])))"

definition next_position :: "nat \<Rightarrow> fate \<Rightarrow> position" where
  "next_position i f = (case f of Stays \<Rightarrow> InPass (Suc i) | Removed \<Rightarrow> InPass i | Hangs \<Rightarrow> Stuck)"

text \<open>\<open>queue_push\<close> wakes the worker: \<open>pthread_cond_signal\<close> beside \<open>queue_depth++\<close>.\<close>

definition signalled :: "globals \<Rightarrow> globals \<Rightarrow> worker_position \<Rightarrow> worker_position" where
  "signalled g g' w =
     (if w = WWait \<and> queue_depth (g_state g) < queue_depth (g_state g') then WPop else w)"

text \<open>One iteration of the loop over the descriptors.\<close>

definition ordinary_iteration :: "int \<Rightarrow> arrivals \<Rightarrow> nat \<Rightarrow> server \<Rightarrow> server \<times> effect list" where
  "ordinary_iteration listen_fd ar i s =
     (let sys = sv_sys s in
      if length (sy_fds sys) \<le> i then (s\<lparr>sv_ordinary := AtLoop\<rparr>, [])
      else if \<not> pf_ready (sy_fds sys ! i) then (s\<lparr>sv_ordinary := InPass (Suc i)\<rparr>, [])
      else (let ((fds, g), eff, f) = handle_ready listen_fd ar i (sy_fds sys, sy_g sys)
            in (s\<lparr>sv_sys := sys\<lparr>sy_fds := fds, sy_g := g\<rparr>, sv_ordinary := next_position i f,
                  sv_worker := signalled (sy_g sys) g (sv_worker s)\<rparr>, eff)))"

definition set_admin :: "admin_thread \<times> globals \<Rightarrow> server \<Rightarrow> server" where
  "set_admin ag s = s\<lparr>sv_sys := (sv_sys s)\<lparr>sy_admin := fst ag, sy_g := snd ag\<rparr>\<rparr>"

definition admin_return :: "server \<Rightarrow> server \<times> effect list" where
  "admin_return s =
     (s\<lparr>sv_sys := (sv_sys s)\<lparr>sy_admin := (sy_admin (sv_sys s))\<lparr>ad_fds := []\<rparr>\<rparr>, sv_admin := Returned\<rparr>,
      close_all (ad_fds (sy_admin (sv_sys s))))"

definition admin_loop :: "int \<Rightarrow> int \<Rightarrow> poll_result \<Rightarrow> server \<Rightarrow> server \<times> effect list" where
  "admin_loop timeout now res s =
     (if \<not> sv_running s then admin_return s
      else (case res of
          PollInterrupted \<Rightarrow> (s, [])
        | PollFails \<Rightarrow> admin_return s
        | PollReady ready \<Rightarrow>
            (let a = sy_admin (sv_sys s);
                 (ag, eff) = admin_timeout timeout now (a\<lparr>ad_fds := poll_answer ready (ad_fds a)\<rparr>, sy_g (sv_sys s))
             in ((set_admin ag s)\<lparr>sv_admin := InPass 0\<rparr>, eff))))"

definition admin_iteration :: "int \<Rightarrow> admin_arrivals \<Rightarrow> nat \<Rightarrow> server \<Rightarrow> server \<times> effect list" where
  "admin_iteration admin_listen_fd ar i s =
     (let a = sy_admin (sv_sys s) in
      if length (ad_fds a) \<le> i then (s\<lparr>sv_admin := AtLoop\<rparr>, [])
      else if \<not> pf_ready (ad_fds a ! i) then (s\<lparr>sv_admin := InPass (Suc i)\<rparr>, [])
      else (let (ag, eff, f) = admin_ready admin_listen_fd ar i (a, sy_g (sv_sys s))
            in ((set_admin ag s)\<lparr>sv_admin := next_position i f\<rparr>, eff)))"

text \<open>
  \<open>queue_pop\<close> as the worker runs it: with the mutex held it takes the first request, or
  waits while the server runs, or returns NULL, which ends \<open>worker_main\<close>.
\<close>

definition worker_pop :: "server \<Rightarrow> server" where
  "worker_pop s =
     (let sys = sv_sys s in
      case queue_pop (g_queue (sy_g sys), g_state (sy_g sys)) of
        Some ((p, r), q, st) \<Rightarrow>
          s\<lparr>sv_sys := sys\<lparr>sy_g := (sy_g sys)\<lparr>g_queue := q, g_state := st\<rparr>, sy_worker := Taken p r\<rparr>,
            sv_worker := WWork\<rparr>
      | None \<Rightarrow> s\<lparr>sv_worker := (if sv_running s then WWait else WReturned)\<rparr>)"

text \<open>The phases of \<open>process_request\<close>, and \<open>free\<close> behind the last; \<open>None\<close> where the code faults.\<close>

definition worker_phase ::
  "'j cjson \<Rightarrow> (string \<Rightarrow> string option) \<Rightarrow> worker_calls \<Rightarrow> system \<Rightarrow> (system \<times> effect list) option" where
  "worker_phase L pg calls s =
     (let st = g_state (sy_g s); fs = g_files (sy_g s) in
      case sy_worker s of
        Idle \<Rightarrow> Some (s, [])
      | Taken p r \<Rightarrow>
          (let st' = start_request (wc_now calls) r st
           in Some (set_worker_state st' fs (Decided p r (cancel_client_id st' = sint (rq_client_id r))) s, []))
      | Decided p r True \<Rightarrow>
          (let (st', rp) = cancel_request st in Some (set_worker_state st' fs (Performed p r rp) s, []))
      | Decided p r False \<Rightarrow>
          (case perform_request L pg calls r (st, fs) of
             Ok ((st', fs'), rp) \<Rightarrow> Some (set_worker_state st' fs' (Performed p r rp) s, [])
           | _ \<Rightarrow> None)
      | Performed p r rp \<Rightarrow>
          (let (st', msgs) = finish_request calls r rp st
           in Some ((set_worker_state st' fs Idle s)
                 \<lparr>sy_g := (sy_g s)\<lparr>g_state := st', g_queue := free_request p (g_queue (sy_g s))\<rparr>\<rparr>, map Send msgs)))"

definition worker_work ::
  "'j cjson \<Rightarrow> (string \<Rightarrow> string option) \<Rightarrow> worker_calls \<Rightarrow> server \<Rightarrow> server \<times> effect list" where
  "worker_work L pg calls s =
     (case worker_phase L pg calls (sv_sys s) of
        None \<Rightarrow> (s\<lparr>sv_worker := WFault\<rparr>, [])
      | Some (sys, eff) \<Rightarrow>
          (s\<lparr>sv_sys := sys, sv_worker := (if sy_worker sys = Idle then WLoop else WWork)\<rparr>, eff))"

text \<open>
  The end of \<open>main\<close>: it sleeps while the server runs, joins the two interface threads,
  wakes the worker by \<open>pthread_cond_broadcast\<close>, joins it and returns 0.
\<close>

definition main_step :: "server \<Rightarrow> server" where
  "main_step s =
     (case sv_main s of
        MSleep \<Rightarrow> if sv_running s then s else s\<lparr>sv_main := MJoinOrdinary\<rparr>
      | MJoinOrdinary \<Rightarrow> if sv_ordinary s = Returned then s\<lparr>sv_main := MJoinAdmin\<rparr> else s
      | MJoinAdmin \<Rightarrow>
          if sv_admin s = Returned
          then s\<lparr>sv_main := MJoinWorker, sv_worker := (if sv_worker s = WWait then WPop else sv_worker s)\<rparr>
          else s
      | MJoinWorker \<Rightarrow> if sv_worker s = WReturned then s\<lparr>sv_main := MExit 0\<rparr> else s
      | MExit n \<Rightarrow> s)"

section \<open>The steps of the server\<close>

text \<open>The kernel's and the allocator's part: new descriptors and memory are not in use.\<close>

definition fresh_socket :: "int \<Rightarrow> system \<Rightarrow> bool" where
  "fresh_socket fd s \<longleftrightarrow> 0 < fd \<and> fd \<notin> sockets s"

definition fair_arrivals :: "arrivals \<Rightarrow> system \<Rightarrow> bool" where
  "fair_arrivals ar s \<longleftrightarrow> (\<forall>fd ip. ar_accept ar = Some (fd, ip) \<longrightarrow> fresh_socket fd s) \<and>
     (\<forall>fd. fresh_calloc (ar_calls ar fd) (sy_g s))"

definition fair_admin :: "admin_arrivals \<Rightarrow> system \<Rightarrow> bool" where
  "fair_admin ar s \<longleftrightarrow> (\<forall>fd. aa_accept ar = Some fd \<longrightarrow> fresh_socket fd s)"

text \<open>Reading a file gives what was written to it, or a part of it when the reading fails.\<close>

definition fair_files :: "worker_calls \<Rightarrow> bool" where
  "fair_files calls \<longleftrightarrow> (\<forall>f s. s = (case f of None \<Rightarrow> [] | Some t \<Rightarrow> t) \<longrightarrow>
     (\<forall>n. fs_tell (wc_reader calls f) = Inr n \<longrightarrow> n = length s) \<and>
     fs_read (wc_reader calls f) = take (length (fs_read (wc_reader calls f))) s)"

definition handle_stop_signal :: "server \<Rightarrow> server" where
  [simp]: "handle_stop_signal s = s\<lparr>sv_running := False\<rparr>"

inductive server_step ::
  "'j cjson \<Rightarrow> (string \<Rightarrow> string option) \<Rightarrow> int \<Rightarrow> int \<Rightarrow> int \<Rightarrow> server \<Rightarrow> effect list \<Rightarrow> server \<Rightarrow> bool"
  for L pg listen_fd admin_listen_fd timeout where
  stop_signal:
    "sv_running s \<Longrightarrow> server_step L pg listen_fd admin_listen_fd timeout s [] (handle_stop_signal s)"
| ordinary_at_loop:
    "sv_ordinary s = AtLoop \<Longrightarrow> ordinary_loop res s = (s', eff) \<Longrightarrow>
     server_step L pg listen_fd admin_listen_fd timeout s eff s'"
| ordinary_in_pass:
    "sv_ordinary s = InPass i \<Longrightarrow> fair_arrivals ar (sv_sys s) \<Longrightarrow> ordinary_iteration listen_fd ar i s = (s', eff) \<Longrightarrow>
     server_step L pg listen_fd admin_listen_fd timeout s eff s'"
| admin_at_loop:
    "sv_admin s = AtLoop \<Longrightarrow> admin_loop timeout now res s = (s', eff) \<Longrightarrow>
     server_step L pg listen_fd admin_listen_fd timeout s eff s'"
| admin_in_pass:
    "sv_admin s = InPass i \<Longrightarrow> fair_admin ar (sv_sys s) \<Longrightarrow> admin_iteration admin_listen_fd ar i s = (s', eff) \<Longrightarrow>
     server_step L pg listen_fd admin_listen_fd timeout s eff s'"
| worker_at_loop:
    "sv_worker s = WLoop \<Longrightarrow>
     server_step L pg listen_fd admin_listen_fd timeout s [] (s\<lparr>sv_worker := (if sv_running s then WPop else WReturned)\<rparr>)"
| worker_popping:
    "sv_worker s = WPop \<Longrightarrow> server_step L pg listen_fd admin_listen_fd timeout s [] (worker_pop s)"
| worker_woken:
    "sv_worker s = WWait \<Longrightarrow> server_step L pg listen_fd admin_listen_fd timeout s [] (s\<lparr>sv_worker := WPop\<rparr>)"
| worker_working:
    "sv_worker s = WWork \<Longrightarrow> worker_work L pg calls s = (s', eff) \<Longrightarrow> fair_files calls \<Longrightarrow>
     server_step L pg listen_fd admin_listen_fd timeout s eff s'"
| main_goes_on:
    "main_step s = s' \<Longrightarrow> s' \<noteq> s \<Longrightarrow> server_step L pg listen_fd admin_listen_fd timeout s [] s'"

inductive server_run ::
  "'j cjson \<Rightarrow> (string \<Rightarrow> string option) \<Rightarrow> int \<Rightarrow> int \<Rightarrow> int \<Rightarrow> server \<Rightarrow> effect list \<Rightarrow> server \<Rightarrow> bool"
  for L pg listen_fd admin_listen_fd timeout where
  begins: "server_run L pg listen_fd admin_listen_fd timeout s [] s"
| goes_on: "server_run L pg listen_fd admin_listen_fd timeout s effs s' \<Longrightarrow>
     server_step L pg listen_fd admin_listen_fd timeout s' eff s'' \<Longrightarrow>
     server_run L pg listen_fd admin_listen_fd timeout s (effs @ eff) s''"

section \<open>After a stop every thread comes to its end\<close>

text \<open>How far each thread is from its end once \<open>g_running\<close> is cleared.\<close>

fun main_rank :: "main_position \<Rightarrow> nat" where
  "main_rank MSleep = 4" | "main_rank MJoinOrdinary = 3" | "main_rank MJoinAdmin = 2" | "main_rank MJoinWorker = 1"
| "main_rank (MExit n) = 0"

fun loop_rank :: "position \<Rightarrow> nat" where
  "loop_rank (InPass i) = 2" | "loop_rank AtLoop = 1" | "loop_rank _ = 0"

fun ready_rank :: "position \<Rightarrow> pollfd list \<Rightarrow> nat" where
  "ready_rank (InPass i) fds = ready_from i fds" | "ready_rank _ fds = 0"

fun left_rank :: "position \<Rightarrow> pollfd list \<Rightarrow> nat" where
  "left_rank (InPass i) fds = length fds - i" | "left_rank _ fds = 0"

fun phase_rank :: "phase \<Rightarrow> nat" where
  "phase_rank (Taken p r) = 5" | "phase_rank (Decided p r b) = 4" | "phase_rank (Performed p r rp) = 3"
| "phase_rank Idle = 2"

fun worker_rank :: "worker_position \<Rightarrow> phase \<Rightarrow> nat" where
  "worker_rank WWait ph = 7" | "worker_rank WPop ph = 6" | "worker_rank WWork ph = phase_rank ph"
| "worker_rank WLoop ph = 1" | "worker_rank _ ph = 0"

definition stop_order :: "(server \<times> server) set" where
  "stop_order = measures
     [\<lambda>s. main_rank (sv_main s),
      \<lambda>s. loop_rank (sv_ordinary s), \<lambda>s. ready_rank (sv_ordinary s) (sy_fds (sv_sys s)),
      \<lambda>s. left_rank (sv_ordinary s) (sy_fds (sv_sys s)),
      \<lambda>s. loop_rank (sv_admin s), \<lambda>s. ready_rank (sv_admin s) (ad_fds (sy_admin (sv_sys s))),
      \<lambda>s. left_rank (sv_admin s) (ad_fds (sy_admin (sv_sys s))),
      \<lambda>s. worker_rank (sv_worker s) (sy_worker (sv_sys s))]"

lemma wf_stop_order: "wf stop_order"
  by (simp add: stop_order_def)

lemma next_position_cases:
  "next_position i f = InPass (if f = Removed then i else Suc i) \<and> f \<noteq> Hangs \<or> next_position i f = Stuck \<and> f = Hangs"
  by (cases f) (simp_all add: next_position_def)

text \<open>An iteration passes over the entry, or handles the descriptor that is ready.\<close>

lemma ordinary_iteration_cases:
  assumes "ordinary_iteration listen_fd ar i s = (s', eff)"
  obtains (passed) p where "s' = s\<lparr>sv_ordinary := p\<rparr>" "eff = []"
      "p = AtLoop \<or> p = InPass (Suc i) \<and> i < length (sy_fds (sv_sys s)) \<and> \<not> pf_ready (sy_fds (sv_sys s) ! i)"
    | (handled) fds g f where "i < length (sy_fds (sv_sys s))" "pf_ready (sy_fds (sv_sys s) ! i)"
      "handle_ready listen_fd ar i (sy_fds (sv_sys s), sy_g (sv_sys s)) = ((fds, g), eff, f)"
      "s' = s\<lparr>sv_sys := (sv_sys s)\<lparr>sy_fds := fds, sy_g := g\<rparr>, sv_ordinary := next_position i f,
        sv_worker := signalled (sy_g (sv_sys s)) g (sv_worker s)\<rparr>"
proof (cases "i < length (sy_fds (sv_sys s)) \<and> pf_ready (sy_fds (sv_sys s) ! i)")
  case True
  obtain fds g eff' f where h: "handle_ready listen_fd ar i (sy_fds (sv_sys s), sy_g (sv_sys s)) = ((fds, g), eff', f)"
    by (metis prod.collapse)
  with True assms show thesis by (intro handled [of fds g f]) (auto simp: ordinary_iteration_def Let_def)
qed (use assms passed in \<open>auto simp: ordinary_iteration_def Let_def split: if_splits\<close>)

lemma admin_iteration_cases:
  assumes "admin_iteration admin_listen_fd ar i s = (s', eff)"
  obtains (passed) p where "s' = s\<lparr>sv_admin := p\<rparr>" "eff = []"
      "p = AtLoop \<or> p = InPass (Suc i) \<and> i < length (ad_fds (sy_admin (sv_sys s))) \<and>
        \<not> pf_ready (ad_fds (sy_admin (sv_sys s)) ! i)"
    | (handled) ag f where "i < length (ad_fds (sy_admin (sv_sys s)))" "pf_ready (ad_fds (sy_admin (sv_sys s)) ! i)"
      "admin_ready admin_listen_fd ar i (sy_admin (sv_sys s), sy_g (sv_sys s)) = (ag, eff, f)"
      "s' = (set_admin ag s)\<lparr>sv_admin := next_position i f\<rparr>"
proof (cases "i < length (ad_fds (sy_admin (sv_sys s))) \<and> pf_ready (ad_fds (sy_admin (sv_sys s)) ! i)")
  case True
  obtain ag eff' f where h: "admin_ready admin_listen_fd ar i (sy_admin (sv_sys s), sy_g (sv_sys s)) = (ag, eff', f)"
    by (metis prod.collapse)
  with True assms show thesis by (intro handled [of ag f]) (auto simp: admin_iteration_def Let_def)
qed (use assms passed in \<open>auto simp: admin_iteration_def Let_def split: if_splits\<close>)

text \<open>An iteration moves its own thread on and leaves main and the other interface thread alone.\<close>

lemma ordinary_iteration_rank:
  assumes "sv_ordinary s = InPass i" "ordinary_iteration listen_fd ar i s = (s', eff)"
  shows "(s', s) \<in> stop_order \<and> sv_running s' = sv_running s"
proof -
  let ?sys = "sv_sys s"
  consider "length (sy_fds ?sys) \<le> i" | "i < length (sy_fds ?sys)" "\<not> pf_ready (sy_fds ?sys ! i)"
    | "i < length (sy_fds ?sys)" "pf_ready (sy_fds ?sys ! i)" by linarith
  then show ?thesis
  proof cases
    case 3
    obtain fds g eff' f where h: "handle_ready listen_fd ar i (sy_fds ?sys, sy_g ?sys) = ((fds, g), eff', f)"
      by (metis prod.collapse)
    have "ready_from (if f = Removed then i else Suc i) fds < ready_from i (sy_fds ?sys)"
      using handle_ready_fewer [of i "(sy_fds ?sys, sy_g ?sys)" listen_fd ar "(fds, g)" eff' f] 3 h by simp
    with assms 3 h next_position_cases [of i f] show ?thesis
      by (auto simp: ordinary_iteration_def stop_order_def Let_def)
  qed (use assms in \<open>auto simp: ordinary_iteration_def stop_order_def Let_def ready_from_skip\<close>)
qed

lemma set_admin_fields [simp]:
  "sv_running (set_admin ag s) = sv_running s" "sv_ordinary (set_admin ag s) = sv_ordinary s"
  "sv_worker (set_admin ag s) = sv_worker s" "sv_main (set_admin ag s) = sv_main s"
  "sv_admin (set_admin ag s) = sv_admin s" "sy_fds (sv_sys (set_admin ag s)) = sy_fds (sv_sys s)"
  "sy_worker (sv_sys (set_admin ag s)) = sy_worker (sv_sys s)" "sy_admin (sv_sys (set_admin ag s)) = fst ag"
  "sy_g (sv_sys (set_admin ag s)) = snd ag"
  by (simp_all add: set_admin_def)

lemma admin_iteration_rank:
  assumes "sv_admin s = InPass i" "admin_iteration listen_fd ar i s = (s', eff)"
  shows "(s', s) \<in> stop_order \<and> sv_running s' = sv_running s"
proof -
  let ?a = "sy_admin (sv_sys s)"
  consider "length (ad_fds ?a) \<le> i" | "i < length (ad_fds ?a)" "\<not> pf_ready (ad_fds ?a ! i)"
    | "i < length (ad_fds ?a)" "pf_ready (ad_fds ?a ! i)" by linarith
  then show ?thesis
  proof cases
    case 3
    obtain ag eff' f where h: "admin_ready listen_fd ar i (?a, sy_g (sv_sys s)) = (ag, eff', f)"
      by (metis prod.collapse)
    have "ready_from (if f = Removed then i else Suc i) (ad_fds (fst ag)) < ready_from i (ad_fds ?a)"
      using admin_ready_fewer [of i "(?a, sy_g (sv_sys s))" listen_fd ar ag eff' f] 3 h by simp
    with assms 3 h next_position_cases [of i f] show ?thesis
      by (auto simp: admin_iteration_def stop_order_def Let_def)
  qed (use assms in \<open>auto simp: admin_iteration_def stop_order_def Let_def ready_from_skip\<close>)
qed

text \<open>A phase of a request is a step of the worker in the model of the threads.\<close>

lemma worker_phase_step:
  assumes "worker_phase L pg calls s = Some (s', eff)" "sy_worker s \<noteq> Idle"
  shows "step L pg listen_fd admin_listen_fd timeout s eff s' \<and> phase_rank (sy_worker s') < phase_rank (sy_worker s) \<and>
    sy_fds s' = sy_fds s \<and> sy_admin s' = sy_admin s"
proof (cases "sy_worker s")
  case (Taken p r)
  define st' where "st' = start_request (wc_now calls) r (g_state (sy_g s))"
  from assms(1) Taken have s': "s' = set_worker_state st' (g_files (sy_g s))
      (Decided p r (cancel_client_id st' = sint (rq_client_id r))) s" "eff = []"
    by (simp_all add: worker_phase_def st'_def Let_def)
  show ?thesis
    using Taken step.deciding [OF Taken st'_def] unfolding s' by (simp add: set_worker_state_def)
next
  case (Decided p r b)
  show ?thesis
  proof (cases b)
    case True
    obtain st' rp where c: "cancel_request (g_state (sy_g s)) = (st', rp)" by fastforce
    from assms(1) Decided True c have s': "s' = set_worker_state st' (g_files (sy_g s)) (Performed p r rp) s" "eff = []"
      by (simp_all add: worker_phase_def Let_def)
    show ?thesis
      using Decided True step.refusing [of s p r, OF _ c] unfolding s'
      by (simp add: set_worker_state_def)
  next
    case False
    from assms(1) Decided False obtain st' fs' rp where
      p: "perform_request L pg calls r (g_state (sy_g s), g_files (sy_g s)) = Ok ((st', fs'), rp)"
      and s': "s' = set_worker_state st' fs' (Performed p r rp) s" "eff = []"
      by (auto simp: worker_phase_def Let_def split: outcome.splits)
    show ?thesis
      using Decided False step.performing [OF _ p] unfolding s' by (simp add: set_worker_state_def)
  qed
next
  case (Performed p r rp)
  obtain st' msgs where f: "finish_request calls r rp (g_state (sy_g s)) = (st', msgs)" by fastforce
  from assms(1) Performed f have s': "s' = (set_worker_state st' (g_files (sy_g s)) Idle s)
      \<lparr>sy_g := (sy_g s)\<lparr>g_state := st', g_queue := free_request p (g_queue (sy_g s))\<rparr>\<rparr>" "eff = map Send msgs"
    by (simp_all add: worker_phase_def Let_def)
  show ?thesis
    using Performed step.finishing [OF Performed f] unfolding s' by (simp add: set_worker_state_def)
qed (use assms(2) in simp)

text \<open>What the worker does with a request: it faults, or it goes on with the request, or it is done.\<close>

lemma worker_work_cases:
  assumes "worker_work L pg calls s = (s', eff)"
  obtains (fault) "s' = s\<lparr>sv_worker := WFault\<rparr>" "eff = []"
    | (idle) "sy_worker (sv_sys s) = Idle" "s' = s\<lparr>sv_worker := WLoop\<rparr>" "eff = []"
    | (works) sys where "sy_worker (sv_sys s) \<noteq> Idle" "worker_phase L pg calls (sv_sys s) = Some (sys, eff)"
      "s' = s\<lparr>sv_sys := sys, sv_worker := (if sy_worker sys = Idle then WLoop else WWork)\<rparr>"
proof (cases "worker_phase L pg calls (sv_sys s)")
  case None
  with assms fault show thesis by (simp add: worker_work_def)
next
  case (Some x)
  obtain sys eff' where x: "x = (sys, eff')" by fastforce
  show thesis
  proof (cases "sy_worker (sv_sys s) = Idle")
    case True
    with Some x have "sys = sv_sys s" "eff' = []" by (simp_all add: worker_phase_def)
    with True Some x assms show thesis by (intro idle) (simp_all add: worker_work_def)
  next
    case False
    with Some x assms show thesis by (intro works) (auto simp: worker_work_def)
  qed
qed

lemma worker_work_rank:
  assumes "sv_worker s = WWork" "worker_work L pg calls s = (s', eff)"
  shows "(s', s) \<in> stop_order \<and> sv_running s' = sv_running s"
  using assms(2)
proof (cases rule: worker_work_cases)
  case (works sys)
  have "1 < phase_rank ph" for ph by (cases ph) simp_all
  with works(3) worker_phase_step [OF works(2,1)] assms(1) show ?thesis
    by (simp add: stop_order_def)
next
  case fault
  with assms(1) show ?thesis by (cases "sy_worker (sv_sys s)") (simp_all add: stop_order_def)
qed (use assms(1) in \<open>simp add: stop_order_def\<close>)

lemma main_step_rank:
  assumes "main_step s \<noteq> s"
  shows "(main_step s, s) \<in> stop_order \<and> sv_running (main_step s) = sv_running s"
proof -
  have "main_rank (sv_main (main_step s)) < main_rank (sv_main s)" "sv_running (main_step s) = sv_running s"
    using assms by (cases "sv_main s"; simp add: main_step_def split: if_splits)+
  then show ?thesis by (simp add: stop_order_def)
qed

lemma stopped_step:
  assumes "server_step L pg listen_fd admin_listen_fd timeout s eff s'" "\<not> sv_running s"
  shows "(s', s) \<in> stop_order \<and> \<not> sv_running s'"
  using assms(1)
proof cases
  case (ordinary_at_loop res)
  with assms(2) show ?thesis by (auto simp: ordinary_loop_def ordinary_return_def stop_order_def)
next
  case (ordinary_in_pass i ar)
  with ordinary_iteration_rank assms(2) show ?thesis by blast
next
  case (admin_at_loop now res)
  with assms(2) show ?thesis by (auto simp: admin_loop_def admin_return_def stop_order_def)
next
  case (admin_in_pass i ar)
  with admin_iteration_rank assms(2) show ?thesis by blast
next
  case worker_popping
  with assms(2) show ?thesis
    by (auto simp: worker_pop_def stop_order_def Let_def split: option.splits)
next
  case (worker_working calls)
  with worker_work_rank assms(2) show ?thesis by blast
next
  case main_goes_on
  with main_step_rank assms(2) show ?thesis by auto
qed (use assms(2) in \<open>auto simp: stop_order_def\<close>)

lemma no_endless_stop:
  assumes "\<not> sv_running (f 0)"
  shows "\<exists>n. \<forall>eff. \<not> server_step L pg listen_fd admin_listen_fd timeout (f n) eff (f (Suc n))"
proof (rule ccontr)
  assume "\<not> ?thesis"
  then have step: "\<exists>eff. server_step L pg listen_fd admin_listen_fd timeout (f n) eff (f (Suc n))" for n by blast
  have "\<not> sv_running (f n)" for n
    by (induction n) (use assms step stopped_step in blast)+
  with step have "(f (Suc n), f n) \<in> stop_order" for n using stopped_step by blast
  with wf_stop_order show False by (auto simp: wf_iff_no_infinite_down_chain)
qed

section \<open>Where the threads are\<close>

text \<open>
  The order of the end: \<open>main\<close> joins after the flag is cleared, each thread it has joined
  stays at its end, the worker does not wait behind the broadcast; and the worker works
  exactly while it has a request.
\<close>

definition joined_ok :: "server \<Rightarrow> bool" where
  "joined_ok s \<longleftrightarrow> (sv_main s \<noteq> MSleep \<longrightarrow> \<not> sv_running s) \<and>
     (sv_main s \<noteq> MSleep \<and> sv_main s \<noteq> MJoinOrdinary \<longrightarrow> sv_ordinary s = Returned) \<and>
     (sv_main s = MJoinWorker \<longrightarrow> sv_admin s = Returned \<and> sv_worker s \<noteq> WWait) \<and>
     (\<forall>n. sv_main s = MExit n \<longrightarrow> n = 0 \<and> sv_admin s = Returned \<and> sv_worker s = WReturned) \<and>
     (sv_running s \<longrightarrow> sv_worker s \<noteq> WReturned)"

definition worker_ok :: "server \<Rightarrow> bool" where
  "worker_ok s \<longleftrightarrow> (sv_worker s = WWork \<longrightarrow> sy_worker (sv_sys s) \<noteq> Idle) \<and>
     (sv_worker s \<noteq> WWork \<and> sv_worker s \<noteq> WFault \<longrightarrow> sy_worker (sv_sys s) = Idle)"

text \<open>What the functions of a thread leave alone of the others.\<close>

lemma ordinary_loop_fields:
  assumes "ordinary_loop res s = (s', eff)"
  shows "sv_running s' = sv_running s" "sv_admin s' = sv_admin s" "sv_worker s' = sv_worker s" "sv_main s' = sv_main s"
    "sy_worker (sv_sys s') = sy_worker (sv_sys s)" "sy_admin (sv_sys s') = sy_admin (sv_sys s)"
    "sy_g (sv_sys s') = sy_g (sv_sys s)"
    "sy_fds (sv_sys s') = [] \<or> (\<exists>ready. sy_fds (sv_sys s') = poll_answer ready (sy_fds (sv_sys s))) \<or> s' = s"
  using assms
  by (auto simp: ordinary_loop_def ordinary_return_def split: if_splits poll_result.splits)

lemma ordinary_iteration_fields:
  assumes "ordinary_iteration listen_fd ar i s = (s', eff)"
  shows "sv_running s' = sv_running s" "sv_admin s' = sv_admin s" "sv_main s' = sv_main s"
    "sv_worker s' = signalled (sy_g (sv_sys s)) (sy_g (sv_sys s')) (sv_worker s)"
    "sy_worker (sv_sys s') = sy_worker (sv_sys s)" "sy_admin (sv_sys s') = sy_admin (sv_sys s)"
  using assms
  by (auto simp: ordinary_iteration_def signalled_def Let_def split: if_splits prod.splits)

lemma admin_loop_fields:
  assumes "admin_loop timeout now res s = (s', eff)"
  shows "sv_running s' = sv_running s" "sv_ordinary s' = sv_ordinary s" "sv_worker s' = sv_worker s"
    "sv_main s' = sv_main s" "sy_worker (sv_sys s') = sy_worker (sv_sys s)" "sy_fds (sv_sys s') = sy_fds (sv_sys s)"
  using assms
  by (auto simp: admin_loop_def admin_return_def Let_def split: if_splits poll_result.splits prod.splits)

lemma admin_iteration_fields:
  assumes "admin_iteration listen_fd ar i s = (s', eff)"
  shows "sv_running s' = sv_running s" "sv_ordinary s' = sv_ordinary s" "sv_worker s' = sv_worker s"
    "sv_main s' = sv_main s" "sy_worker (sv_sys s') = sy_worker (sv_sys s)" "sy_fds (sv_sys s') = sy_fds (sv_sys s)"
  using assms
  by (auto simp: admin_iteration_def Let_def split: if_splits prod.splits)

lemma worker_work_fields:
  assumes "worker_work L pg calls s = (s', eff)"
  shows "sv_running s' = sv_running s \<and> sv_ordinary s' = sv_ordinary s \<and> sv_admin s' = sv_admin s \<and>
    sv_main s' = sv_main s \<and> sy_fds (sv_sys s') = sy_fds (sv_sys s) \<and> sy_admin (sv_sys s') = sy_admin (sv_sys s) \<and>
    (sv_worker s' = WFault \<or> sv_worker s' = (if sy_worker (sv_sys s') = Idle then WLoop else WWork))"
  using assms
proof (cases rule: worker_work_cases)
  case (works sys)
  with worker_phase_step [OF works(2,1)] show ?thesis by auto
qed simp_all

lemma worker_pop_fields:
  "sv_running (worker_pop s) = sv_running s" "sv_ordinary (worker_pop s) = sv_ordinary s"
  "sv_admin (worker_pop s) = sv_admin s" "sv_main (worker_pop s) = sv_main s"
  "sy_fds (sv_sys (worker_pop s)) = sy_fds (sv_sys s)" "sy_admin (sv_sys (worker_pop s)) = sy_admin (sv_sys s)"
  "sv_worker (worker_pop s) = WWork \<and> sy_worker (sv_sys (worker_pop s)) \<noteq> Idle \<or>
   sv_worker (worker_pop s) = (if sv_running s then WWait else WReturned) \<and> sv_sys (worker_pop s) = sv_sys s"
  by (auto simp: worker_pop_def Let_def split: option.splits)

lemma main_step_fields:
  "sv_sys (main_step s) = sv_sys s" "sv_running (main_step s) = sv_running s"
  "sv_ordinary (main_step s) = sv_ordinary s" "sv_admin (main_step s) = sv_admin s"
  "sv_worker (main_step s) = sv_worker s \<or> sv_worker s = WWait \<and> sv_worker (main_step s) = WPop"
  by (cases "sv_main s"; simp add: main_step_def)+

lemma worker_ok_step:
  assumes "server_step L pg listen_fd admin_listen_fd timeout s eff s'" "worker_ok s"
  shows "worker_ok s'"
  using assms(1)
proof cases
  case (ordinary_at_loop res)
  with ordinary_loop_fields [OF ordinary_at_loop(2)] assms(2) show ?thesis by (simp add: worker_ok_def)
next
  case (ordinary_in_pass i ar)
  with ordinary_iteration_fields [OF ordinary_in_pass(3)] assms(2) show ?thesis
    by (auto simp: worker_ok_def signalled_def)
next
  case (admin_at_loop now res)
  with admin_loop_fields [OF admin_at_loop(2)] assms(2) show ?thesis by (simp add: worker_ok_def)
next
  case (admin_in_pass i ar)
  with admin_iteration_fields [OF admin_in_pass(3)] assms(2) show ?thesis by (simp add: worker_ok_def)
next
  case worker_popping
  with worker_pop_fields(7) [of s] assms(2) show ?thesis by (auto simp: worker_ok_def split: if_splits)
next
  case (worker_working calls)
  with worker_work_fields [OF worker_working(2)] assms(2) show ?thesis by (auto simp: worker_ok_def split: if_splits)
next
  case main_goes_on
  then have "sv_sys s' = sv_sys s" "sv_worker s' = sv_worker s \<or> sv_worker s = WWait \<and> sv_worker s' = WPop"
    using main_step_fields [of s] by auto
  with assms(2) show ?thesis by (auto simp: worker_ok_def)
qed (use assms(2) in \<open>auto simp: worker_ok_def\<close>)

lemma joined_ok_step:
  assumes "server_step L pg listen_fd admin_listen_fd timeout s eff s'" "joined_ok s"
  shows "joined_ok s'"
  using assms(1)
proof cases
  case (ordinary_at_loop res)
  with ordinary_loop_fields [OF ordinary_at_loop(2)] assms(2) show ?thesis by (auto simp: joined_ok_def)
next
  case (ordinary_in_pass i ar)
  with ordinary_iteration_fields [OF ordinary_in_pass(3)] assms(2) show ?thesis
    by (auto simp: joined_ok_def signalled_def)
next
  case (admin_at_loop now res)
  with admin_loop_fields [OF admin_at_loop(2)] assms(2) show ?thesis by (auto simp: joined_ok_def)
next
  case (admin_in_pass i ar)
  with admin_iteration_fields [OF admin_in_pass(3)] assms(2) show ?thesis by (auto simp: joined_ok_def)
next
  case worker_popping
  with worker_pop_fields [of s] assms(2) show ?thesis by (auto simp: joined_ok_def)
next
  case (worker_working calls)
  with worker_work_fields [OF worker_working(2)] assms(2) show ?thesis by (auto simp: joined_ok_def split: if_splits)
next
  case main_goes_on
  with assms(2) show ?thesis
    by (cases "sv_main s") (auto simp: main_step_def joined_ok_def split: if_splits)
qed (use assms(2) in \<open>auto simp: joined_ok_def\<close>)

lemma positions_run:
  "server_run L pg listen_fd admin_listen_fd timeout s effs s' \<Longrightarrow> joined_ok s \<and> worker_ok s \<Longrightarrow>
   joined_ok s' \<and> worker_ok s'"
  by (induction rule: server_run.induct) (use joined_ok_step worker_ok_step in blast)+

lemma positions_init: "joined_ok (server_init l al now) \<and> worker_ok (server_init l al now)"
  by (simp add: joined_ok_def worker_ok_def server_init_def system_init_def)

text \<open>Nothing can happen any more, but for a wake-up of the worker that has no cause.\<close>

definition at_rest ::
  "'j cjson \<Rightarrow> (string \<Rightarrow> string option) \<Rightarrow> int \<Rightarrow> int \<Rightarrow> int \<Rightarrow> server \<Rightarrow> bool" where
  "at_rest L pg listen_fd admin_listen_fd timeout s \<longleftrightarrow>
     (\<forall>eff s'. server_step L pg listen_fd admin_listen_fd timeout s eff s' \<longrightarrow>
        sv_worker s = WWait \<and> s' = s\<lparr>sv_worker := WPop\<rparr>)"

lemma at_restD:
  "at_rest L pg listen_fd admin_listen_fd timeout s \<Longrightarrow> server_step L pg listen_fd admin_listen_fd timeout s eff s' \<Longrightarrow>
   sv_worker s = WWait \<and> s' = s\<lparr>sv_worker := WPop\<rparr>"
  by (simp add: at_rest_def)

lemma rest_ordinary:
  assumes "at_rest L pg listen_fd admin_listen_fd timeout s" "\<not> sv_running s"
  shows "sv_ordinary s = Stuck \<or> sv_ordinary s = Returned"
proof (cases "sv_ordinary s")
  case AtLoop
  obtain s' eff where l: "ordinary_loop PollFails s = (s', eff)" by fastforce
  with assms(2) have "sv_ordinary s' = Returned" by (auto simp: ordinary_loop_def ordinary_return_def)
  with at_restD [OF assms(1) server_step.ordinary_at_loop [OF AtLoop l]] AtLoop show ?thesis by simp
next
  case (InPass i)
  define ar where "ar = \<lparr>ar_accept = None, ar_recv = (\<lambda>_. RecvBlocked), ar_calls = (\<lambda>_. \<lparr>ic_now = 0, ic_calloc = None\<rparr>)\<rparr>"
  have fair: "fair_arrivals ar (sv_sys s)" by (simp add: ar_def fair_arrivals_def fresh_calloc_def)
  obtain s' eff where it: "ordinary_iteration listen_fd ar i s = (s', eff)" by fastforce
  have "(sv_ordinary s', sy_fds (sv_sys s')) \<noteq> (sv_ordinary s, sy_fds (sv_sys s))"
    using ordinary_iteration_fields(1,3) [OF it] InPass it
      handle_ready_fewer [of i "(sy_fds (sv_sys s), sy_g (sv_sys s))" listen_fd ar]
    by (fastforce simp: ordinary_iteration_def Let_def next_position_def split: if_splits prod.splits fate.splits)
  with at_restD [OF assms(1) server_step.ordinary_in_pass [OF InPass fair it]] show ?thesis by auto
qed simp_all

lemma rest_admin:
  assumes "at_rest L pg listen_fd admin_listen_fd timeout s" "\<not> sv_running s"
  shows "sv_admin s = Stuck \<or> sv_admin s = Returned"
proof (cases "sv_admin s")
  case AtLoop
  obtain s' eff where l: "admin_loop timeout 0 PollFails s = (s', eff)" by fastforce
  with assms(2) have "sv_admin s' = Returned" by (auto simp: admin_loop_def admin_return_def)
  with at_restD [OF assms(1) server_step.admin_at_loop [OF AtLoop l]] AtLoop show ?thesis by simp
next
  case (InPass i)
  define ar where "ar = \<lparr>aa_accept = None, aa_recv = (\<lambda>_. RecvBlocked), aa_now = (\<lambda>_. 0)\<rparr>"
  have fair: "fair_admin ar (sv_sys s)" by (simp add: ar_def fair_admin_def)
  obtain s' eff where it: "admin_iteration admin_listen_fd ar i s = (s', eff)" by fastforce
  have "(sv_admin s', ad_fds (sy_admin (sv_sys s'))) \<noteq> (sv_admin s, ad_fds (sy_admin (sv_sys s)))"
    using InPass it admin_ready_fewer [of i "(sy_admin (sv_sys s), sy_g (sv_sys s))" admin_listen_fd ar]
    by (fastforce simp: admin_iteration_def Let_def next_position_def split: if_splits prod.splits fate.splits)
  with at_restD [OF assms(1) server_step.admin_in_pass [OF InPass fair it]] show ?thesis by auto
qed simp_all

lemma calm_fair: "fair_files calm"
  by (simp add: fair_files_def calm_def plain_file_def split: option.splits)

lemma rest_worker:
  assumes "at_rest L pg listen_fd admin_listen_fd timeout s"
  shows "sv_worker s = WWait \<or> sv_worker s = WFault \<or> sv_worker s = WReturned"
proof (cases "sv_worker s")
  case WLoop
  from at_restD [OF assms server_step.worker_at_loop [OF WLoop]] WLoop show ?thesis by simp
next
  case WPop
  from at_restD [OF assms server_step.worker_popping [OF WPop]] WPop show ?thesis by simp
next
  case WWork
  from at_restD [OF assms server_step.worker_working [OF WWork surjective_pairing calm_fair]] WWork show ?thesis by simp
qed simp_all

lemma rest_main: "at_rest L pg listen_fd admin_listen_fd timeout s \<Longrightarrow> main_step s = s"
proof (rule ccontr)
  assume r: "at_rest L pg listen_fd admin_listen_fd timeout s" and m: "main_step s \<noteq> s"
  from at_restD [OF r server_step.main_goes_on [OF refl m]] have "sv_main (main_step s) = sv_main s" by simp
  with m show False by (cases "sv_main s"; simp add: main_step_def split: if_splits)
qed

lemma rest_is_end:
  assumes "at_rest L pg listen_fd admin_listen_fd timeout s" "\<not> sv_running s" "joined_ok s"
  shows "sv_main s = MExit 0 \<or> sv_ordinary s = Stuck \<or> sv_admin s = Stuck \<or> sv_worker s = WFault"
  using arg_cong [OF rest_main [OF assms(1)], of sv_main] rest_ordinary [OF assms(1,2)] rest_admin [OF assms(1,2)] rest_worker [OF assms(1)] assms(2,3)
  by (cases "sv_main s") (auto simp: main_step_def joined_ok_def split: if_splits)

lemma stopped_run:
  "server_run L pg listen_fd admin_listen_fd timeout s effs s' \<Longrightarrow> \<not> sv_running s \<Longrightarrow> \<not> sv_running s'"
  by (induction rule: server_run.induct) (use stopped_step in blast)+



end
