(* ===== verification/Program.thy ===== *)
theory Program
  imports Lifecycle
begin

text \<open>
  What holds of the server from the start of \<open>main\<close> to its end: the invariants of the shared
  state, the queue between the threads and the sleep of the worker, what a stop does to the
  requests that wait, and what is left of the server when \<open>poll\<close> fails.
\<close>

section \<open>The invariants of the shared state, in every loop\<close>

text \<open>The descriptors of the threads that still run.\<close>

definition nets_ok :: "int \<Rightarrow> server \<Rightarrow> bool" where
  "nets_ok admin_listen_fd s \<longleftrightarrow> distinct (fds_of (sy_fds (sv_sys s))) \<and>
     (\<forall>fd \<in> set (fds_of (sy_fds (sv_sys s))). 0 < fd) \<and> length (sy_fds (sv_sys s)) \<le> MAX_FDS \<and> 0 < admin_listen_fd \<and>
     (sv_admin s = Returned \<or> admin_ok admin_listen_fd (sy_admin (sv_sys s), sy_g (sv_sys s)))"

lemma fds_of_poll [simp]: "fds_of [] = []" "fds_of (poll_answer ready fds) = fds_of fds" "length (poll_answer ready fds) = length fds"
  by (simp_all add: fds_of_def poll_answer_def comp_def)

lemma nth_fds_positive: "\<forall>fd \<in> set (fds_of fds). 0 < fd \<Longrightarrow> i < length fds \<Longrightarrow> 0 < pf_fd (fds ! i)"
  by (simp add: fds_of_def)

text \<open>A thread's functions act on the shared state by the operations of the components.\<close>

context thread_invariant begin

lemma keep_handle_ready:
  "I (g_state g) \<Longrightarrow> 0 < pf_fd (fds ! i) \<Longrightarrow> I (g_state (snd (fst (handle_ready listen_fd ar i (fds, g)))))"
  using keep_accept_client [of g "ar_accept ar" fds] keep_ordinary [of g fds i]
  by (simp add: handle_ready_def case_prod_unfold Let_def)

lemma keep_iteration:
  assumes "ordinary_iteration listen_fd ar i s = (s', eff)" "I (g_state (sy_g (sv_sys s)))"
    and "\<forall>fd \<in> set (fds_of (sy_fds (sv_sys s))). 0 < fd"
  shows "I (g_state (sy_g (sv_sys s')))"
  using assms(1)
proof (cases rule: ordinary_iteration_cases)
  case (handled fds g f)
  with keep_handle_ready [OF assms(2) nth_fds_positive [OF assms(3) handled(1)], of listen_fd ar] show ?thesis by simp
qed (use assms(2) in simp)

lemma keep_worker_pop: "I (g_state (sy_g (sv_sys s))) \<Longrightarrow> I (g_state (sy_g (sv_sys (worker_pop s))))"
  by (auto simp: worker_pop_def Let_def dest: keep_pop split: option.splits)

lemma keep_phase:
  assumes "worker_phase L pg calls s = Some (s', eff)" "I (g_state (sy_g s))"
  shows "I (g_state (sy_g s'))"
proof (cases "sy_worker s")
  case (Decided p r b)
  show ?thesis
  proof (cases b)
    case True
    with assms Decided keep_cancel [OF assms(2)] show ?thesis
      by (auto simp: worker_phase_def set_worker_state_def case_prod_unfold Let_def)
  next
    case False
    with assms Decided keep_perform [OF _ assms(2)] show ?thesis
      by (auto simp: worker_phase_def set_worker_state_def Let_def split: outcome.splits)
  qed
qed (use assms keep_start [OF assms(2)] keep_finish [OF assms(2)] in
    \<open>auto simp: worker_phase_def set_worker_state_def case_prod_unfold Let_def\<close>)

lemma keep_work:
  assumes "worker_work L pg calls s = (s', eff)" "I (g_state (sy_g (sv_sys s)))"
  shows "I (g_state (sy_g (sv_sys s')))"
  using assms(1) by (cases rule: worker_work_cases) (use assms(2) keep_phase in auto)

end

context state_invariant begin

lemma keep_admin_ready:
  "I (g_state g) \<Longrightarrow> 0 < pf_fd (ad_fds a ! i) \<Longrightarrow> I (g_state (snd (fst (admin_ready l ar i (a, g)))))"
  using keep_accept_admin [of g "aa_accept ar" _ a] keep_admin_message [of g a i]
  by (simp add: admin_ready_def case_prod_unfold Let_def)

lemma keep_admin_iteration:
  assumes "admin_iteration l ar i s = (s', eff)" "I (g_state (sy_g (sv_sys s)))"
    and "admin_ok l (sy_admin (sv_sys s), sy_g (sv_sys s))" "0 < l"
  shows "I (g_state (sy_g (sv_sys s')))"
  using assms(1)
proof (cases rule: admin_iteration_cases)
  case (handled ag f)
  with keep_admin_ready [OF assms(2) admin_fds_positive [OF assms(3,4) handled(1)], of l ar] show ?thesis by simp
qed (use assms(2) in simp)

lemma keep_admin_loop:
  assumes "admin_loop timeout now res s = (s', eff)" "I (g_state (sy_g (sv_sys s)))"
  shows "I (g_state (sy_g (sv_sys s')))"
  using assms keep_admin_timeout [OF assms(2)]
  by (auto simp: admin_loop_def admin_return_def case_prod_unfold Let_def split: if_splits poll_result.splits)

end

text \<open>The descriptors of the ordinary thread, and the administrator's flag.\<close>

lemma ordinary_iteration_nets:
  assumes "ordinary_iteration listen_fd ar i s = (s', eff)" "nets_ok l s" "fair_arrivals ar (sv_sys s)"
  shows "nets_ok l s'"
proof -
  let ?fds = "sy_fds (sv_sys s)"
  have pos: "\<forall>fd \<in> set (fds_of ?fds). 0 < fd" and d: "distinct (fds_of ?fds)" "length ?fds \<le> MAX_FDS"
    using assms(2) by (simp_all add: nets_ok_def)
  note it = ordinary_iteration_fields [OF assms(1)]
  have "admin_connected (g_state (sy_g (sv_sys s'))) = admin_connected (g_state (sy_g (sv_sys s)))"
    using admin_flag.keep_iteration [OF assms(1) refl pos] by simp
  from admin_ok_flag [OF this] it(2,6) assms(2)
  have adm: "sv_admin s' = Returned \<or> admin_ok l (sy_admin (sv_sys s'), sy_g (sv_sys s'))" "0 < l"
    by (auto simp: nets_ok_def)
  consider (same) "sy_fds (sv_sys s') = ?fds" | (gone) "sy_fds (sv_sys s') = take i ?fds @ drop (Suc i) ?fds"
    | (added) fd ip where "ar_accept ar = Some (fd, ip)" "length ?fds < MAX_FDS"
      "sy_fds (sv_sys s') = ?fds @ [\<lparr>pf_fd = fd, pf_ready = False\<rparr>]"
    using assms(1)
  proof (cases rule: ordinary_iteration_cases)
    case (handled fds g f)
    with handle_ready_fds [OF handled(3)] gone same added show thesis by (auto split: if_splits)
  qed (use same in simp)
  then show ?thesis
  proof cases
    case gone
    have "set (fds_of (sy_fds (sv_sys s'))) \<subseteq> set (fds_of ?fds)" "length (sy_fds (sv_sys s')) \<le> length ?fds"
      using set_fds_removed [of i ?fds] by (simp_all add: gone)
    with adm pos d distinct_removed [OF d(1), of i] show ?thesis by (auto simp: nets_ok_def gone)
  next
    case (added fd ip)
    with assms(3) have "0 < fd" "fd \<notin> set (fds_of ?fds)"
      by (auto simp: fair_arrivals_def fresh_socket_def sockets_def)
    with added adm pos d show ?thesis by (auto simp: nets_ok_def fds_of_snoc)
  qed (use adm pos d in \<open>auto simp: nets_ok_def\<close>)
qed

lemma admin_iteration_nets:
  assumes "admin_iteration l ar i s = (s', eff)" "nets_ok l s" "fair_admin ar (sv_sys s)" "sv_admin s = InPass i"
  shows "nets_ok l s'"
proof -
  let ?a = "sy_admin (sv_sys s)" and ?g = "sy_g (sv_sys s)"
  have ok: "admin_ok l (?a, ?g)" using assms(2,4) by (simp add: nets_ok_def)
  then have "l \<in> sockets (sv_sys s)" by (auto simp: admin_ok_def sockets_def)
  with assms(3) have fresh: "fresh_admin l ar" by (auto simp: fair_admin_def fresh_socket_def fresh_admin_def)
  from assms(1) have "admin_ok l (sy_admin (sv_sys s'), sy_g (sv_sys s'))"
  proof (cases rule: admin_iteration_cases)
    case (handled ag f)
    with admin_ready_ok [OF ok handled(1) fresh handled(3)] show ?thesis by simp
  qed (use ok in simp)
  with admin_iteration_fields [OF assms(1)] assms(2) show ?thesis by (simp add: nets_ok_def)
qed

lemma nets_ok_step:
  assumes "server_step L pg listen_fd l timeout s eff s'" "nets_ok l s"
  shows "nets_ok l s'"
  using assms(1)
proof cases
  case (ordinary_at_loop res)
  note f = ordinary_loop_fields [OF ordinary_at_loop(2)]
  from f(8) assms(2) f(1-7) show ?thesis by (auto simp: nets_ok_def)
next
  case (ordinary_in_pass i ar)
  with ordinary_iteration_nets assms(2) show ?thesis by blast
next
  case (admin_at_loop now res)
  have ok: "admin_ok l (sy_admin (sv_sys s), sy_g (sv_sys s))"
    using assms(2) admin_at_loop(1) by (simp add: nets_ok_def)
  have "sv_admin s' = Returned \<or> admin_ok l (sy_admin (sv_sys s'), sy_g (sv_sys s'))"
    using admin_at_loop(2) ok admin_timeout_ok poll_answer_ok
    by (auto simp: admin_loop_def admin_return_def case_prod_unfold Let_def split: if_splits poll_result.splits)
  with admin_loop_fields [OF admin_at_loop(2)] assms(2) show ?thesis by (simp add: nets_ok_def)
next
  case (admin_in_pass i ar)
  with admin_iteration_nets assms(2) show ?thesis by blast
next
  case worker_popping
  have "admin_connected (g_state (sy_g (sv_sys (worker_pop s)))) = admin_connected (g_state (sy_g (sv_sys s)))"
    by (rule admin_flag.keep_worker_pop) (rule refl)
  with admin_ok_flag [OF this] worker_pop_fields [of s] worker_popping assms(2) show ?thesis by (auto simp: nets_ok_def)
next
  case (worker_working calls)
  have "admin_connected (g_state (sy_g (sv_sys s'))) = admin_connected (g_state (sy_g (sv_sys s)))"
    by (rule admin_flag.keep_work [OF worker_working(2)]) (rule refl)
  with admin_ok_flag [OF this] worker_work_fields [OF worker_working(2)] assms(2) show ?thesis by (auto simp: nets_ok_def)
next
  case main_goes_on
  with main_step_fields [of s] assms(2) show ?thesis by (auto simp: nets_ok_def)
qed (use assms(2) in \<open>auto simp: nets_ok_def\<close>)

context state_invariant begin

lemma keep_server_step:
  assumes "server_step L pg listen_fd l timeout s eff s'" "nets_ok l s" "I (g_state (sy_g (sv_sys s)))"
  shows "I (g_state (sy_g (sv_sys s')))"
  using assms(1)
proof cases
  case (ordinary_at_loop res)
  with ordinary_loop_fields(7) assms(3) show ?thesis by metis
next
  case (ordinary_in_pass i ar)
  with keep_iteration [OF _ assms(3)] assms(2) show ?thesis by (auto simp: nets_ok_def)
next
  case (admin_at_loop now res)
  with keep_admin_loop [OF _ assms(3)] show ?thesis by blast
next
  case (admin_in_pass i ar)
  with keep_admin_iteration [OF _ assms(3)] assms(2) show ?thesis by (auto simp: nets_ok_def)
next
  case worker_popping
  with keep_worker_pop [OF assms(3)] show ?thesis by simp
next
  case (worker_working calls)
  with keep_work [OF _ assms(3)] show ?thesis by blast
next
  case main_goes_on
  with main_step_fields(1) [of s] assms(3) show ?thesis by auto
qed (use assms(3) in simp_all)

lemma keep_server_run:
  "server_run L pg listen_fd l timeout s effs s' \<Longrightarrow> nets_ok l s \<Longrightarrow> I (g_state (sy_g (sv_sys s))) \<Longrightarrow>
   nets_ok l s' \<and> I (g_state (sy_g (sv_sys s')))"
  by (induction rule: server_run.induct) (use nets_ok_step keep_server_step in blast)+

end

text \<open>A server that serves starts in the initial state, with a usable configuration.\<close>

lemma server_start_serves:
  assumes "server_start load_file getenv args k = Serves cfg listen_fd admin_listen_fd s"
  shows "s = server_init listen_fd admin_listen_fd (sc_now k)" "cfg = fst (cfg_load load_file getenv args)"
    "0 \<le> listen_fd" "0 \<le> admin_listen_fd"
  using assms by (auto simp: server_start_def Let_def split: if_splits prod.splits)

lemma nets_init:
  "0 < listen_fd \<Longrightarrow> 0 < admin_listen_fd \<Longrightarrow> nets_ok admin_listen_fd (server_init listen_fd admin_listen_fd now)"
  by (simp add: nets_ok_def server_init_def system_init_def admin_init_def fds_of_def admin_ok_def globals_init_def
      state_init_def)

lemma server_init_state: "g_state (sy_g (sv_sys (server_init l al now))) = state_init now"
  by (simp add: server_init_def init_state)

text \<open>
  C1: the whole program keeps its invariants.  From the start of \<open>main\<close>, through every order
  of the steps of its threads and of a stop signal, until \<open>main\<close> returns: the stored rows
  satisfy every constraint of the loaded schema, a job is found under its id while fewer than
  128 later jobs exist, the client table counts its clients and gives no id twice (as long as
  the 31 bits of an id last), each array of \<open>model.h\<close> has its size and each text fits, the
  interface threads stay inside \<open>fds[256]\<close> and \<open>fds[2]\<close>, and there is at most one
  administrator.
\<close>

theorem program_keeps_invariants:
  assumes "server_start load_file getenv args k = Serves cfg listen_fd admin_listen_fd s0"
    and "0 < listen_fd" and "0 < admin_listen_fd"
    and "server_run L pg listen_fd admin_listen_fd (admin_timeout_sec cfg) s0 effs s"
  shows "integrity (tables (g_state (sy_g (sv_sys s)))) \<and> jobs_ok (g_state (sy_g (sv_sys s))) \<and>
    (next_client_id (g_state (sy_g (sv_sys s))) \<le> 2 ^ 31 \<longrightarrow> clients_ok (g_state (sy_g (sv_sys s)))) \<and>
    fits_model (g_state (sy_g (sv_sys s))) \<and> length (sy_fds (sv_sys s)) \<le> MAX_FDS \<and>
    (sv_admin s \<noteq> Returned \<longrightarrow> admin_ok admin_listen_fd (sy_admin (sv_sys s), sy_g (sv_sys s)) \<and>
       length (ad_fds (sy_admin (sv_sys s))) \<le> 2)"
proof -
  have s0: "s0 = server_init listen_fd admin_listen_fd (sc_now k)" by (rule server_start_serves(1) [OF assms(1)])
  have net: "nets_ok admin_listen_fd s0" unfolding s0 using assms(2,3) by (rule nets_init)
  have st0: "g_state (sy_g (sv_sys s0)) = state_init (sc_now k)" by (simp add: s0 server_init_state)
  have "sound_tables (tables (g_state (sy_g (sv_sys s)))) \<and> fits_model (g_state (sy_g (sv_sys s)))"
    "jobs_ok (g_state (sy_g (sv_sys s)))" "clients_sound (g_state (sy_g (sv_sys s)))"
    using sizes_inv.keep_server_run [OF assms(4) net] jobs_inv.keep_server_run [OF assms(4) net]
      clients_inv.keep_server_run [OF assms(4) net]
    by (simp_all add: st0 init_sound init_fits jobs_ok_init clients_ok_init clients_sound_def)
  moreover have "nets_ok admin_listen_fd s"
    using jobs_inv.keep_server_run [OF assms(4) net] by (simp add: st0 jobs_ok_init)
  ultimately show ?thesis
    by (auto simp: sound_tables_def clients_sound_def nets_ok_def admin_ok_def fds_of_one fds_of_two)
qed

section \<open>The queue in every loop\<close>

text \<open>What a step does to the requests that wait, and when the worker takes one.\<close>

definition queue_step_ok :: "server \<Rightarrow> server \<Rightarrow> bool" where
  "queue_step_ok s s' \<longleftrightarrow> queue_sound (sv_sys s') \<and>
     ((\<exists>new. waiting (sv_sys s') = waiting (sv_sys s) @ new) \<or>
      (\<exists>x. waiting (sv_sys s) = x # waiting (sv_sys s') \<and> sv_worker s = WPop \<and> sv_worker s' = WWork))"

lemma queue_step_kept:
  assumes "queue_sound (sv_sys s)" "same_queue (sy_g (sv_sys s)) (sy_g (sv_sys s'))"
    and "worker_request (sy_worker (sv_sys s')) = worker_request (sy_worker (sv_sys s))"
  shows "queue_step_ok s s'"
  using same_queue_sound [OF assms(2,3,1)] by (simp add: queue_step_ok_def)

lemma same_queue_refl: "same_queue g g"
  by (simp add: same_queue_def)

lemma same_queue_waiting: "same_queue (sy_g sys) (sy_g sys') \<Longrightarrow> waiting sys' = waiting sys"
  using queue_depth_only [of "g_state (sy_g sys')" "g_state (sy_g sys)" "g_queue (sy_g sys)"]
  by (simp add: same_queue_def waiting_def)

lemma ordinary_iteration_queue:
  assumes "ordinary_iteration listen_fd ar i s = (s', eff)" "queue_sound (sv_sys s)" "fair_arrivals ar (sv_sys s)"
  shows "queue_step_ok s s'"
  using assms(1)
proof (cases rule: ordinary_iteration_cases)
  case (passed p)
  with assms(2) show ?thesis by (intro queue_step_kept) (simp_all add: same_queue_refl)
next
  case (handled fds g f)
  let ?sys = "sv_sys s" and ?sys' = "(sv_sys s)\<lparr>sy_fds := fds, sy_g := g\<rparr>"
  show ?thesis
  proof (cases "pf_fd (sy_fds ?sys ! i) = listen_fd")
    case True
    with handled(3) have "same_queue (sy_g ?sys) g"
      by (auto simp: handle_ready_def accept_client_def same_queue_def split: option.splits if_splits)
    with handled(4) assms(2) show ?thesis by (intro queue_step_kept) simp_all
  next
    case False
    with handled(3) obtain k res where m: "ordinary_message k res i (sy_fds ?sys, sy_g ?sys) = ((fds, g), eff, f)"
      and k: "k = ar_calls ar (pf_fd (sy_fds ?sys ! i))" by (simp add: handle_ready_def Let_def)
    from m show ?thesis
    proof (cases rule: ordinary_message_queue)
      case same
      with handled(4) assms(2) show ?thesis by (intro queue_step_kept) simp_all
    next
      case (pushed p r st)
      have fresh: "fresh_calloc k (sy_g ?sys)" using assms(3) by (simp add: k fair_arrivals_def)
      have none: "q_mem (g_queue (sy_g ?sys)) p = None" using fresh pushed(1) by (simp add: fresh_calloc_def)
      have q: "queue_ok (g_queue (sy_g ?sys), st)" "queued (g_queue (sy_g ?sys), st) = waiting ?sys"
        using queue_depth_only [OF pushed(2)] assms(2) by (simp_all add: queue_sound_def waiting_def)
      have "waiting ?sys' = waiting ?sys @ [(p, r)]"
        using queue_push_ok(2) [OF q(1), of p r] none q(2) pushed(3) by (simp add: waiting_def queue_fresh_def)
      moreover have "queue_sound ?sys'"
        using queue_step_pushed [OF assms(2) fresh pushed(1,2), of r ?sys'] pushed(3) by simp
      ultimately show ?thesis using handled(4) by (simp add: queue_step_ok_def)
    qed
  qed
qed

lemma admin_queue:
  "admin_iteration l ar i s = (s', eff) \<Longrightarrow> same_queue (sy_g (sv_sys s)) (sy_g (sv_sys s'))"
  "admin_loop timeout now res s = (s', eff) \<Longrightarrow> same_queue (sy_g (sv_sys s)) (sy_g (sv_sys s'))"
proof -
  assume "admin_iteration l ar i s = (s', eff)"
  then show "same_queue (sy_g (sv_sys s)) (sy_g (sv_sys s'))"
  proof (cases rule: admin_iteration_cases)
    case (handled ag f)
    have "same_queue (sy_g (sv_sys s)) (snd (fst (admin_ready l ar i (sy_admin (sv_sys s), sy_g (sv_sys s)))))"
      using admin_same_queue(1) admin_message_same_queue by (simp add: admin_ready_def case_prod_unfold Let_def)
    with handled show ?thesis by simp
  qed (simp add: same_queue_refl)
next
  assume "admin_loop timeout now res s = (s', eff)"
  then show "same_queue (sy_g (sv_sys s)) (sy_g (sv_sys s'))"
    using admin_timeout_same_queue [of "sy_g (sv_sys s)" timeout now]
    by (auto simp: admin_loop_def admin_return_def same_queue_refl case_prod_unfold Let_def
        split: if_splits poll_result.splits)
qed

lemma worker_pop_queue:
  assumes "queue_sound (sv_sys s)" "worker_ok s" "sv_worker s = WPop"
  shows "queue_step_ok s (worker_pop s)"
    and "sv_worker (worker_pop s) = WWait \<Longrightarrow> waiting (sv_sys (worker_pop s)) = [] \<and> sv_running s"
proof -
  let ?sys = "sv_sys s"
  have idle: "sy_worker ?sys = Idle" using assms(2,3) by (simp add: worker_ok_def)
  have ok: "queue_ok (g_queue (sy_g ?sys), g_state (sy_g ?sys))" using assms(1) by (simp add: queue_sound_def)
  have "queue_step_ok s (worker_pop s) \<and>
    (sv_worker (worker_pop s) = WWait \<longrightarrow> waiting (sv_sys (worker_pop s)) = [] \<and> sv_running s)"
  proof (cases "queue_pop (g_queue (sy_g ?sys), g_state (sy_g ?sys))")
    case None
    then have w: "worker_pop s = s\<lparr>sv_worker := (if sv_running s then WWait else WReturned)\<rparr>"
      by (simp add: worker_pop_def Let_def)
    have "waiting ?sys = []"
      using queue_pop_ok(2) [OF ok] None by (cases "waiting ?sys") (auto simp: waiting_def)
    with assms(1) show ?thesis
      unfolding w by (auto simp: queue_step_ok_def)
  next
    case (Some x)
    obtain p r q st where x: "x = ((p, r), q, st)" by (metis prod.collapse)
    let ?sys' = "?sys\<lparr>sy_g := (sy_g ?sys)\<lparr>g_queue := q, g_state := st\<rparr>, sy_worker := Taken p r\<rparr>"
    have w: "worker_pop s = s\<lparr>sv_sys := ?sys', sv_worker := WWork\<rparr>"
      using Some x by (simp add: worker_pop_def Let_def)
    have "queue_sound ?sys'"
      using queue_step [OF step.taking [OF idle] assms(1)] Some x by simp
    moreover have "waiting ?sys = (p, r) # waiting ?sys'"
      using requests.pop_SomeD(1) [OF ok] Some x by (simp add: waiting_def)
    ultimately show ?thesis unfolding w using assms(3) by (simp add: queue_step_ok_def)
  qed
  then show "queue_step_ok s (worker_pop s)"
    "sv_worker (worker_pop s) = WWait \<Longrightarrow> waiting (sv_sys (worker_pop s)) = [] \<and> sv_running s" by blast+
qed

lemma worker_phase_depth:
  assumes "worker_phase L pg calls s = Some (s', eff)"
  shows "queue_depth (g_state (sy_g s')) = queue_depth (g_state (sy_g s))"
proof (cases "sy_worker s")
  case (Decided p r b)
  show ?thesis
  proof (cases b)
    case True
    with assms Decided cancel_depth show ?thesis
      by (auto simp: worker_phase_def set_worker_state_def Let_def split: prod.splits)
  next
    case False
    with assms Decided perform_depth show ?thesis
      by (auto simp: worker_phase_def set_worker_state_def Let_def split: outcome.splits)
  qed
qed (use assms in \<open>auto simp: worker_phase_def set_worker_state_def case_prod_unfold Let_def\<close>)

lemma waiting_length: "queue_sound s \<Longrightarrow> length (waiting s) = nat (queue_depth (g_state (sy_g s)))"
  by (simp add: queue_sound_def queue_ok_def waiting_def)

lemma worker_work_queue:
  assumes "worker_work L pg calls s = (s', eff)" "queue_sound (sv_sys s)"
  shows "queue_sound (sv_sys s') \<and> waiting (sv_sys s') = waiting (sv_sys s)"
  using assms(1)
proof (cases rule: worker_work_cases)
  case (works sys)
  note ph = worker_phase_step [OF works(2,1)]
  from queue_step [OF conjunct1 [OF ph] assms(2)] have q: "queue_sound sys" "queue_moves (sv_sys s) sys" by blast+
  have "length (waiting sys) = length (waiting (sv_sys s))"
    using waiting_length [OF q(1)] waiting_length [OF assms(2)] worker_phase_depth [OF works(2)] by simp
  with q works(3) show ?thesis by (auto simp: queue_moves_def)
qed (use assms(2) in simp_all)

lemma queue_server_step:
  assumes "server_step L pg listen_fd l timeout s eff s'" "queue_sound (sv_sys s)" "worker_ok s"
  shows "queue_step_ok s s'"
  using assms(1)
proof cases
  case (ordinary_at_loop res)
  with ordinary_loop_fields [OF ordinary_at_loop(2)] assms(2) show ?thesis
    by (intro queue_step_kept) (simp_all add: same_queue_refl)
next
  case (ordinary_in_pass i ar)
  with ordinary_iteration_queue assms(2) show ?thesis by blast
next
  case (admin_at_loop now res)
  with admin_queue(2) admin_loop_fields(5) assms(2) show ?thesis by (intro queue_step_kept) simp_all
next
  case (admin_in_pass i ar)
  with admin_queue(1) admin_iteration_fields(5) assms(2) show ?thesis by (intro queue_step_kept) simp_all
next
  case worker_popping
  with worker_pop_queue(1) assms(2,3) show ?thesis by blast
next
  case (worker_working calls)
  with worker_work_queue [OF worker_working(2) assms(2)] show ?thesis by (simp add: queue_step_ok_def)
next
  case main_goes_on
  with main_step_fields(1) [of s] assms(2) show ?thesis by (intro queue_step_kept) (auto simp: same_queue_refl)
qed (use assms(2) in \<open>auto simp: queue_step_ok_def\<close>)

section \<open>The worker sleeps only when nothing waits\<close>

definition awake_ok :: "server \<Rightarrow> bool" where
  "awake_ok s \<longleftrightarrow> worker_ok s \<and> queue_sound (sv_sys s) \<and> (sv_worker s = WWait \<longrightarrow> waiting (sv_sys s) = [])"

lemma iteration_signals:
  assumes "sv_worker s' = signalled (sy_g (sv_sys s)) (sy_g (sv_sys s')) (sv_worker s)" "sv_worker s' = WWait"
    and "queue_step_ok s s'" "awake_ok s"
  shows "waiting (sv_sys s') = []"
proof -
  have w: "sv_worker s = WWait" "queue_depth (g_state (sy_g (sv_sys s'))) \<le> queue_depth (g_state (sy_g (sv_sys s)))"
    using assms(1,2) by (auto simp: signalled_def split: if_splits)
  then have "waiting (sv_sys s) = []" "queue_sound (sv_sys s)" "queue_sound (sv_sys s')"
    using assms(3,4) by (auto simp: awake_ok_def queue_step_ok_def)
  with waiting_length [of "sv_sys s'"] waiting_length [of "sv_sys s"] w(2) show ?thesis by simp
qed

lemma awake_step:
  assumes "server_step L pg listen_fd l timeout s eff s'" "awake_ok s"
  shows "awake_ok s'"
proof -
  have q: "queue_step_ok s s'" using queue_server_step [OF assms(1)] assms(2) by (simp add: awake_ok_def)
  have "sv_worker s' = WWait \<longrightarrow> waiting (sv_sys s') = []"
    using assms(1)
  proof cases
    case (ordinary_at_loop res)
    with ordinary_loop_fields [OF ordinary_at_loop(2)] assms(2) show ?thesis by (simp add: awake_ok_def waiting_def)
  next
    case (ordinary_in_pass i ar)
    with iteration_signals [OF ordinary_iteration_fields(4) [OF ordinary_in_pass(3)] _ q assms(2)] show ?thesis by blast
  next
    case (admin_at_loop now res)
    with same_queue_waiting [OF admin_queue(2) [OF admin_at_loop(2)]] admin_loop_fields(3) [OF admin_at_loop(2)] assms(2)
    show ?thesis by (simp add: awake_ok_def)
  next
    case (admin_in_pass i ar)
    with same_queue_waiting [OF admin_queue(1) [OF admin_in_pass(3)]] admin_iteration_fields(3) [OF admin_in_pass(3)]
      assms(2) show ?thesis by (simp add: awake_ok_def)
  next
    case worker_popping
    with worker_pop_queue(2) assms(2) show ?thesis by (auto simp: awake_ok_def)
  next
    case (worker_working calls)
    with worker_work_fields [OF worker_working(2)] show ?thesis by (auto split: if_splits)
  next
    case main_goes_on
    with main_step_fields [of s] assms(2) show ?thesis by (auto simp: awake_ok_def)
  qed (use assms(2) in \<open>auto simp: awake_ok_def\<close>)
  with q worker_ok_step [OF assms(1)] assms(2) show ?thesis by (simp add: awake_ok_def queue_step_ok_def)
qed

lemma awake_run:
  "server_run L pg listen_fd l timeout s effs s' \<Longrightarrow> awake_ok s \<Longrightarrow> awake_ok s'"
  by (induction rule: server_run.induct) (use awake_step in blast)+

lemma awake_init: "awake_ok (server_init l al now)"
proof -
  have "queue_sound (system_init l al now)" "waiting (system_init l al now) = []"
    using queue_ok_init [of now]
    by (simp_all add: queue_sound_def waiting_def system_init_def globals_init_def worker_request_def)
  then show ?thesis by (simp add: awake_ok_def server_init_def worker_ok_def) (simp add: system_init_def)
qed

text \<open>
  C16: no wake-up is lost.  Whenever the worker sleeps on the condition variable, no request
  waits, however the push of a request, its signal, the test of the queue and a stop follow
  each other; and \<open>queue_depth\<close> counts the requests that wait.
\<close>

theorem no_lost_wakeup:
  assumes "server_run L pg listen_fd admin_listen_fd timeout (server_init listen_fd admin_listen_fd now) effs s"
  shows "(sv_worker s = WWait \<longrightarrow> waiting (sv_sys s) = []) \<and>
    queue_depth (g_state (sy_g (sv_sys s))) = int (length (waiting (sv_sys s)))"
proof -
  have ok: "awake_ok s" using awake_run [OF assms awake_init] .
  then have "queue_ok (g_queue (sy_g (sv_sys s)), g_state (sy_g (sv_sys s)))" by (simp add: awake_ok_def queue_sound_def)
  then have "queue_depth (g_state (sy_g (sv_sys s))) = int (length (waiting (sv_sys s)))"
    by (auto simp: queue_ok_def waiting_def)
  with ok show ?thesis by (simp add: awake_ok_def)
qed

section \<open>A stop loses the requests that wait\<close>

text \<open>Whether the worker may still take a request after the flag is cleared.\<close>

definition may_take :: "server \<Rightarrow> nat" where
  "may_take s = (if sv_worker s = WPop \<or> sv_worker s = WWait then 1 else 0)"

lemma stopped_may_take:
  assumes "server_step L pg listen_fd l timeout s eff s'" "\<not> sv_running s"
  shows "may_take s' \<le> may_take s"
  using assms(1)
proof cases
  case (ordinary_at_loop res)
  with ordinary_loop_fields [OF ordinary_at_loop(2)] show ?thesis by (simp add: may_take_def)
next
  case (ordinary_in_pass i ar)
  with ordinary_iteration_fields [OF ordinary_in_pass(3)] show ?thesis by (simp add: may_take_def signalled_def)
next
  case (admin_at_loop now res)
  with admin_loop_fields [OF admin_at_loop(2)] show ?thesis by (simp add: may_take_def)
next
  case (admin_in_pass i ar)
  with admin_iteration_fields [OF admin_in_pass(3)] show ?thesis by (simp add: may_take_def)
next
  case worker_popping
  then show ?thesis by (simp add: may_take_def)
next
  case (worker_working calls)
  with worker_work_fields [OF worker_working(2)] show ?thesis by (auto simp: may_take_def split: if_splits)
next
  case main_goes_on
  with main_step_fields(5) [of s] show ?thesis by (auto simp: may_take_def)
qed (use assms(2) in \<open>auto simp: may_take_def\<close>)

lemma stopped_takes:
  assumes "server_run L pg listen_fd l timeout s effs s'" "\<not> sv_running s" "awake_ok s"
  shows "\<exists>k later. waiting (sv_sys s') = drop k (waiting (sv_sys s)) @ later \<and> k + may_take s' \<le> may_take s"
  using assms
proof (induction rule: server_run.induct)
  case (begins s)
  then show ?case by (intro exI [of _ 0] exI [of _ "[]"]) simp
next
  case (goes_on s effs s' eff s'')
  then obtain k later where k: "waiting (sv_sys s') = drop k (waiting (sv_sys s)) @ later"
    "k + may_take s' \<le> may_take s" by blast
  have stop: "\<not> sv_running s'" using stopped_run goes_on by blast
  have ok: "awake_ok s'" using awake_run goes_on by blast
  have q: "queue_step_ok s' s''" using queue_server_step [OF goes_on.hyps(2)] ok by (simp add: awake_ok_def)
  note le = stopped_may_take [OF goes_on.hyps(2) stop]
  from q consider new where "waiting (sv_sys s'') = waiting (sv_sys s') @ new"
    | x where "waiting (sv_sys s') = x # waiting (sv_sys s'')" "sv_worker s' = WPop" "sv_worker s'' = WWork"
    by (auto simp: queue_step_ok_def)
  then show ?case
  proof cases
    case (1 new)
    with k le show ?thesis by (intro exI [of _ k] exI [of _ "later @ new"]) simp
  next
    case (2 x)
    with k(2) have k0: "k = 0" "may_take s = 1" "may_take s'' = 0"
      by (auto simp: may_take_def split: if_splits)
    with 2 k(1) have "waiting (sv_sys s'') = drop 1 (waiting (sv_sys s) @ later)" by simp
    then have "waiting (sv_sys s'') = drop 1 (waiting (sv_sys s)) @
        (if waiting (sv_sys s) = [] then drop 1 later else later)" by (cases "waiting (sv_sys s)") simp_all
    with k0 show ?thesis by (intro exI [of _ 1] exI) simp
  qed
qed

text \<open>A thread at its end has closed all its descriptors.\<close>

definition closed_ok :: "server \<Rightarrow> bool" where
  "closed_ok s \<longleftrightarrow> (sv_ordinary s = Returned \<longrightarrow> sy_fds (sv_sys s) = []) \<and>
     (sv_admin s = Returned \<longrightarrow> ad_fds (sy_admin (sv_sys s)) = [])"

lemma next_position_runs [simp]: "next_position i f \<noteq> Returned"
  by (cases f) (simp_all add: next_position_def)

lemma closed_step:
  assumes "server_step L pg listen_fd l timeout s eff s'" "closed_ok s"
  shows "closed_ok s'"
  using assms(1)
proof cases
  case (ordinary_at_loop res)
  with assms(2) show ?thesis
    by (auto simp: closed_ok_def ordinary_loop_def ordinary_return_def split: if_splits poll_result.splits)
next
  case (ordinary_in_pass i ar)
  with ordinary_iteration_fields(2,6) [OF ordinary_in_pass(3)] assms(2)
  have "sv_admin s' = Returned \<longrightarrow> ad_fds (sy_admin (sv_sys s')) = []" by (simp add: closed_ok_def)
  moreover have "sv_ordinary s' \<noteq> Returned"
    using ordinary_in_pass(3) by (cases rule: ordinary_iteration_cases) auto
  ultimately show ?thesis by (simp add: closed_ok_def)
next
  case (admin_at_loop now res)
  have "sv_admin s' = Returned \<longrightarrow> ad_fds (sy_admin (sv_sys s')) = []"
    using assms(2) admin_at_loop by (auto simp: closed_ok_def admin_loop_def admin_return_def case_prod_unfold Let_def
        split: if_splits poll_result.splits)
  with assms(2) admin_loop_fields(2,6) [OF admin_at_loop(2)] show ?thesis by (simp add: closed_ok_def)
next
  case (admin_in_pass i ar)
  have "sv_admin s' \<noteq> Returned"
    using admin_in_pass(3) by (cases rule: admin_iteration_cases) auto
  with admin_iteration_fields [OF admin_in_pass(3)] assms(2) show ?thesis by (simp add: closed_ok_def)
next
  case worker_popping
  with worker_pop_fields [of s] assms(2) show ?thesis by (simp add: closed_ok_def)
next
  case (worker_working calls)
  with worker_work_fields [OF worker_working(2)] assms(2) show ?thesis by (simp add: closed_ok_def)
next
  case main_goes_on
  with main_step_fields [of s] assms(2) show ?thesis by (auto simp: closed_ok_def)
qed (use assms(2) in \<open>auto simp: closed_ok_def\<close>)

lemma closed_run: "server_run L pg listen_fd l timeout s effs s' \<Longrightarrow> closed_ok s \<Longrightarrow> closed_ok s'"
  by (induction rule: server_run.induct) (use closed_step in blast)+

lemma closed_init: "closed_ok (server_init l al now)"
  by (simp add: closed_ok_def server_init_def)

text \<open>
  C32: a stop loses the requests that wait.  Once \<open>g_running\<close> is cleared the worker takes at most
  one more request, and only if it was inside \<open>queue_pop\<close> at that moment; all others are still
  in the queue when \<open>main\<close> returns 0, by which time every thread has closed its descriptors:
  their clients never get an answer.
\<close>

theorem stop_loses_waiting:
  assumes "server_run L pg listen_fd admin_listen_fd timeout (server_init listen_fd admin_listen_fd now) effs s"
    and "\<not> sv_running s" and "server_run L pg listen_fd admin_listen_fd timeout s effs' s'"
  shows "(\<exists>k later. waiting (sv_sys s') = drop k (waiting (sv_sys s)) @ later \<and>
      k \<le> (if sv_worker s = WPop \<or> sv_worker s = WWait then 1 else 0)) \<and>
    (sv_main s' = MExit 0 \<longrightarrow> sv_worker s' = WReturned \<and> sy_fds (sv_sys s') = [] \<and>
       ad_fds (sy_admin (sv_sys s')) = [])"
proof -
  have "awake_ok s" using awake_run [OF assms(1) awake_init] .
  from stopped_takes [OF assms(3,2) this] obtain k later where
    k: "waiting (sv_sys s') = drop k (waiting (sv_sys s)) @ later" "k + may_take s' \<le> may_take s" by blast
  have "joined_ok s'" using positions_run positions_init assms(1,3) by blast
  moreover have "closed_ok s'" using closed_run closed_init assms(1,3) by blast
  ultimately have "sv_main s' = MExit 0 \<longrightarrow> sv_worker s' = WReturned \<and> sy_fds (sv_sys s') = [] \<and>
      ad_fds (sy_admin (sv_sys s')) = []"
    by (auto simp: joined_ok_def closed_ok_def)
  moreover have "k \<le> (if sv_worker s = WPop \<or> sv_worker s = WWait then 1 else 0)"
    using k(2) by (simp add: may_take_def split: if_splits)
  ultimately show ?thesis using k(1) by blast
qed

section \<open>A failed poll takes an interface away\<close>

lemma returned_step:
  assumes "server_step L pg listen_fd l timeout s eff s'" "sv_ordinary s = Returned"
  shows "sv_ordinary s' = Returned"
  using assms(1)
proof cases
  case (admin_at_loop now res)
  with admin_loop_fields [OF admin_at_loop(2)] assms(2) show ?thesis by simp
next
  case (admin_in_pass i ar)
  with admin_iteration_fields [OF admin_in_pass(3)] assms(2) show ?thesis by simp
next
  case (worker_working calls)
  with worker_work_fields [OF worker_working(2)] assms(2) show ?thesis by simp
next
  case main_goes_on
  with main_step_fields [of s] assms(2) show ?thesis by auto
qed (use assms(2) worker_pop_fields(2) in auto)

lemma returned_run:
  "server_run L pg listen_fd l timeout s effs s' \<Longrightarrow> sv_ordinary s = Returned \<Longrightarrow> sv_ordinary s' = Returned"
  by (induction rule: server_run.induct) (use returned_step in blast)+

text \<open>
  C33: one failed \<open>poll\<close> ends the service without ending the server.  Where \<open>poll\<close> returns an
  error other than an interruption, the ordinary interface thread closes its listening socket
  and every connection and returns for good; the flag stays set, so that until a stop signal
  \<open>main\<close> sleeps on, with no socket for clients left.
\<close>

theorem failed_poll_ends_interface:
  assumes "server_run L pg listen_fd admin_listen_fd timeout (server_init listen_fd admin_listen_fd now) effs s"
    and "sv_ordinary s = AtLoop" and "sv_running s" and "ordinary_loop PollFails s = (s1, eff)"
    and "server_run L pg listen_fd admin_listen_fd timeout s1 effs' s2"
  shows "server_step L pg listen_fd admin_listen_fd timeout s eff s1 \<and>
    (\<forall>fd \<in> set (fds_of (sy_fds (sv_sys s))). Close fd \<in> set eff) \<and> sv_running s1 \<and>
    sv_ordinary s2 = Returned \<and> sy_fds (sv_sys s2) = [] \<and> (sv_running s2 \<longrightarrow> sv_main s2 = MSleep)"
proof -
  have s1: "s1 = s\<lparr>sv_sys := (sv_sys s)\<lparr>sy_fds := []\<rparr>, sv_ordinary := Returned\<rparr>" "eff = close_all (sy_fds (sv_sys s))"
    using assms(3,4) by (simp_all add: ordinary_loop_def ordinary_return_def)
  have step: "server_step L pg listen_fd admin_listen_fd timeout s eff s1"
    using assms(2,4) by (rule server_step.ordinary_at_loop)
  have run: "server_run L pg listen_fd admin_listen_fd timeout (server_init listen_fd admin_listen_fd now) (effs @ eff) s1"
    using assms(1) step by (rule server_run.goes_on)
  have "sv_ordinary s2 = Returned" by (rule returned_run [OF assms(5)]) (simp add: s1)
  moreover have "closed_ok s2" by (rule closed_run [OF assms(5) closed_run [OF run closed_init]])
  moreover have "joined_ok s2" using positions_run [OF assms(5) positions_run [OF run positions_init]] by blast
  ultimately show ?thesis
    using step assms(3) by (auto simp: s1 close_all_def fds_of_def closed_ok_def joined_ok_def)
qed

section \<open>Witnesses\<close>

text \<open>Calls that all succeed; the server listens on the descriptors 3 and 4.\<close>

definition good_start :: start_calls where
  "good_start = \<lparr>sc_signal = True, sc_mkdir_data = AlreadyThere, sc_mkdir_logs = Created, sc_log_fd = 7, sc_mmap = True,
     sc_listen = (\<lambda>_. \<lparr>lc_socket = 3, lc_setsockopt = True, lc_bind = True, lc_listen = True\<rparr>),
     sc_listen_admin = (\<lambda>_. \<lparr>lc_socket = 4, lc_setsockopt = True, lc_bind = True, lc_listen = True\<rparr>),
     sc_worker = True, sc_ordinary = True, sc_admin = True, sc_now = 0\<rparr>"

lemma good_start_serves:
  "\<exists>cfg. server_start (\<lambda>cfg. cfg) (\<lambda>_. None) [] good_start = Serves cfg 3 4 (server_init 3 4 0)"
  by (simp add: server_start_def good_start_def cfg_load_def listen_tcp_def case_prod_unfold Let_def)

text \<open>A pass in which the descriptor behind the listening one has a message.\<close>

lemma pass_over:
  assumes "sv_ordinary s = InPass i" "i < length (sy_fds (sv_sys s)) \<longrightarrow> \<not> pf_ready (sy_fds (sv_sys s) ! i)"
  shows "server_step L pg listen_fd l timeout s []
    (s\<lparr>sv_ordinary := (if i < length (sy_fds (sv_sys s)) then InPass (Suc i) else AtLoop)\<rparr>)"
proof -
  let ?ar = "\<lparr>ar_accept = None, ar_recv = (\<lambda>_. RecvBlocked), ar_calls = (\<lambda>_. \<lparr>ic_now = 0, ic_calloc = None\<rparr>)\<rparr>"
  have fair: "fair_arrivals ?ar (sv_sys s)" by (simp add: fair_arrivals_def fresh_calloc_def)
  have "ordinary_iteration listen_fd ?ar i s =
      (s\<lparr>sv_ordinary := (if i < length (sy_fds (sv_sys s)) then InPass (Suc i) else AtLoop)\<rparr>, [])"
    using assms(2) by (simp add: ordinary_iteration_def Let_def)
  with assms(1) fair show ?thesis by (rule server_step.ordinary_in_pass)
qed

lemma message_pass:
  assumes "sv_ordinary s = AtLoop" "sv_running s" "sv_worker s = WLoop" "fds_of (sy_fds (sv_sys s)) = [3, 5]"
    and "fresh_calloc k (sy_g (sv_sys s))"
    and "\<And>fds. fds = [\<lparr>pf_fd = 3, pf_ready = False\<rparr>, \<lparr>pf_fd = 5, pf_ready = True\<rparr>] \<Longrightarrow>
      ordinary_message k res 1 (fds, sy_g (sv_sys s)) = ((fds, g), eff, Stays)"
  shows "server_run L pg 3 l timeout s eff
    (s\<lparr>sv_sys := (sv_sys s)\<lparr>sy_fds := [\<lparr>pf_fd = 3, pf_ready = False\<rparr>, \<lparr>pf_fd = 5, pf_ready = True\<rparr>], sy_g := g\<rparr>,
       sv_ordinary := AtLoop\<rparr>)"
proof -
  let ?fds = "[\<lparr>pf_fd = 3, pf_ready = False\<rparr>, \<lparr>pf_fd = 5, pf_ready = True\<rparr>]"
  let ?run = "server_run L pg 3 l timeout s"
  let ?at = "\<lambda>p. s\<lparr>sv_sys := (sv_sys s)\<lparr>sy_fds := ?fds\<rparr>, sv_ordinary := p\<rparr>"
  let ?done = "\<lambda>p. s\<lparr>sv_sys := (sv_sys s)\<lparr>sy_fds := ?fds, sy_g := g\<rparr>, sv_ordinary := p\<rparr>"
  have "poll_answer (\<lambda>fd. fd = 5) (sy_fds (sv_sys s)) = ?fds"
    using assms(4) by (auto simp: fds_of_two poll_answer_def)
  with assms(2) have "ordinary_loop (PollReady (\<lambda>fd. fd = 5)) s = (?at (InPass 0), [])"
    by (simp add: ordinary_loop_def)
  from server_run.goes_on [OF server_run.begins server_step.ordinary_at_loop [OF assms(1) this]]
  have 1: "?run [] (?at (InPass 0))" by simp
  have "server_step L pg 3 l timeout (?at (InPass 0)) [] (?at (InPass 1))"
    using pass_over [of "?at (InPass 0)" 0] by simp
  from server_run.goes_on [OF 1 this] have 2: "?run [] (?at (InPass 1))" by simp
  let ?ar = "\<lparr>ar_accept = None, ar_recv = (\<lambda>_. res), ar_calls = (\<lambda>_. k)\<rparr>"
  have fair: "fair_arrivals ?ar (sv_sys (?at (InPass 1)))"
    using assms(5) by (simp add: fair_arrivals_def fresh_calloc_def)
  have "ordinary_iteration 3 ?ar 1 (?at (InPass 1)) = (?done (InPass 2), eff)"
    using assms(3,6) by (simp add: ordinary_iteration_def handle_ready_def next_position_def signalled_def)
  from server_run.goes_on [OF 2 server_step.ordinary_in_pass [OF _ fair this]] have 3: "?run eff (?done (InPass 2))" by simp
  have "server_step L pg 3 l timeout (?done (InPass 2)) [] (?done AtLoop)"
    using pass_over [of "?done (InPass 2)" 2] by simp
  from server_run.goes_on [OF 3 this] show ?thesis by simp
qed

text \<open>A client connects on descriptor 5 and asks for the SQL; the worker has not yet looked.\<close>

lemma server_run_trans:
  "server_run L pg listen_fd l timeout s' effs' s'' \<Longrightarrow> server_run L pg listen_fd l timeout s effs s' \<Longrightarrow>
   server_run L pg listen_fd l timeout s (effs @ effs') s''"
proof (induction rule: server_run.induct)
  case (goes_on s' effs' s1 eff s2)
  from server_run.goes_on [OF goes_on.IH [OF goes_on.prems] goes_on.hyps(2)] show ?case by simp
qed simp

lemma first_queued:
  assumes "enqueue_request k fd h payload g = (g', eff)" "g_queue g = queue_init" "queue_depth (g_state g) = 0"
    and "queue_depth (g_state g') = 1"
  shows "\<forall>x \<in> set (queued (g_queue g', g_state g')). rq_op_id (snd x) = mh_op_id h"
proof (rule enqueue_cases [of g k fd h payload])
  assume "same_queue g (fst (enqueue_request k fd h payload g))"
  with assms show ?thesis by (simp add: same_queue_def)
next
  fix p r st
  assume st: "queue_depth st = queue_depth (g_state g)" and r: "rq_op_id r = mh_op_id h"
    and "(g_queue (fst (enqueue_request k fd h payload g)), g_state (fst (enqueue_request k fd h payload g))) =
      queue_push p r (g_queue g, st)"
  then have push: "queue_push p r (queue_init, st) = (g_queue g', g_state g')" using assms(1,2) by simp
  have "queue_ok (queue_init, st)" "queued (queue_init, st) = []"
    using queue_depth_only [of st "state_init 0" queue_init] queue_ok_init [of 0] st assms(3)
    by (simp_all add: state_init_def)
  with queue_push_ok(2) [of queue_init st p r] push r show ?thesis by (simp add: queue_fresh_def queue_init_def)
qed

lemma sql_request_waits:
  obtains effs s where "server_run (json_lib (\<lambda>_. None)) Some 3 4 60 (server_init 3 4 0) effs s"
    "queue_depth (g_state (sy_g (sv_sys s))) = 1" "sv_worker s = WLoop" "sv_running s"
    "sy_worker (sv_sys s) = Idle" "\<forall>x \<in> set (waiting (sv_sys s)). rq_op_id (snd x) = OP_GENERATE_SQL"
proof -
  let ?L = "json_lib (\<lambda>_. None) :: json cjson"
  let ?s0 = "server_init 3 4 0"
  let ?sys = "sv_sys ?s0"
  let ?at = "\<lambda>fds g p. ?s0\<lparr>sv_sys := ?sys\<lparr>sy_fds := fds, sy_g := g\<rparr>, sv_ordinary := p\<rparr>"
  let ?fds1 = "[\<lparr>pf_fd = 3, pf_ready = True\<rparr>]" and ?fds2 = "[\<lparr>pf_fd = 3, pf_ready = True\<rparr>, \<lparr>pf_fd = 5, pf_ready = False\<rparr>]"
  let ?fds3 = "[\<lparr>pf_fd = 3, pf_ready = False\<rparr>, \<lparr>pf_fd = 5, pf_ready = True\<rparr>]"
  define g0 where "g0 = globals_init 0"
  define g1 where "g1 = g0\<lparr>g_fd_addrs := fd_addr_set 5 ''10.0.0.5'' (g_fd_addrs g0)\<rparr>"
  have s0: "sv_ordinary ?s0 = AtLoop" "sv_running ?s0" "sv_worker ?s0 = WLoop" "sy_g ?sys = g0"
    "sy_fds ?sys = [\<lparr>pf_fd = 3, pf_ready = False\<rparr>]" "fds_of (ad_fds (sy_admin ?sys)) = [4]"
    by (simp_all add: server_init_def system_init_def g0_def admin_init_def fds_of_def)
  have "ordinary_loop (PollReady (\<lambda>fd. fd = 3)) ?s0 = (?at ?fds1 g0 (InPass 0), [])"
    using s0 by (simp add: ordinary_loop_def poll_answer_def server_init_def system_init_def g0_def)
  from server_run.goes_on [OF server_run.begins server_step.ordinary_at_loop [OF s0(1) this]]
  have 1: "server_run ?L Some 3 4 60 ?s0 [] (?at ?fds1 g0 (InPass 0))" by simp
  let ?ar = "\<lparr>ar_accept = Some (5, Some ''10.0.0.5''), ar_recv = (\<lambda>_. RecvBlocked),
    ar_calls = (\<lambda>_. \<lparr>ic_now = 0, ic_calloc = None\<rparr>)\<rparr>"
  have fair: "fair_arrivals ?ar (sv_sys (?at ?fds1 g0 (InPass 0)))"
    using s0(6) by (simp add: fair_arrivals_def fresh_calloc_def fresh_socket_def sockets_def) (simp add: fds_of_def)
  have "ordinary_iteration 3 ?ar 0 (?at ?fds1 g0 (InPass 0)) = (?at ?fds2 g1 (InPass 1), [])"
    using s0(3) by (simp add: ordinary_iteration_def handle_ready_def accept_client_def next_position_def signalled_def
        addr_blocked_def g1_def g0_def globals_init_def)
  from server_run.goes_on [OF 1 server_step.ordinary_in_pass [OF _ fair this]]
  have "server_run ?L Some 3 4 60 ?s0 [] (?at ?fds2 g1 (InPass 1))" by simp
  from server_run.goes_on [OF this pass_over [of _ 1]]
  have "server_run ?L Some 3 4 60 ?s0 [] (?at ?fds2 g1 (InPass 2))" by (simp add: numeral_2_eq_2)
  from server_run.goes_on [OF this pass_over [of _ 2]]
  have 2: "server_run ?L Some 3 4 60 ?s0 [] (?at ?fds2 g1 AtLoop)" by simp
  let ?k1 = "\<lparr>ic_now = 1, ic_calloc = None\<rparr>" and ?h1 = "\<lparr>msg_size = 0, mh_client_id = 0, mh_op_id = OP_CONNECT, flags = 0\<rparr>"
  obtain g2 eff1 where c: "handle_connect ?k1 5 g1 = (g2, eff1)" by fastforce
  then have g2: "g_queue g2 = queue_init" "queue_depth (g_state g2) = 0" "is_registered_client 1 (g_state g2)"
  proof -
    have "g_state g1 = state_init 0" "g_queue g1 = queue_init" by (simp_all add: g1_def g0_def globals_init_def)
    with c show "g_queue g2 = queue_init" "queue_depth (g_state g2) = 0" "is_registered_client 1 (g_state g2)"
      by (auto simp: handle_connect_def is_registered_client_def client_index_def first_client new_client_def
          case_prod_unfold Let_def state_init_def [THEN arg_cong, of queue_depth])
  qed
  have 3: "server_run ?L Some 3 4 60 (?at ?fds2 g1 AtLoop) eff1 (?at ?fds3 g2 AtLoop)"
    using message_pass [of "?at ?fds2 g1 AtLoop" ?k1 "Message ?h1 None" g2 eff1 ?L Some 4 60] s0 c
    by (simp add: fds_of_def fresh_calloc_def ordinary_message_def)
  let ?k2 = "\<lparr>ic_now = 2, ic_calloc = Some 7\<rparr>" and ?h2 = "\<lparr>msg_size = 0, mh_client_id = 1, mh_op_id = OP_GENERATE_SQL, flags = 0\<rparr>"
  obtain g3 eff2 where e: "enqueue_request ?k2 5 ?h2 None g2 = (g3, eff2)" by fastforce
  then have g3: "queue_depth (g_state g3) = 1"
    using g2(2) by (auto simp: enqueue_request_def queue_push_def case_prod_unfold Let_def)
  note sql = first_queued [OF e g2(1,2) g3]
  have 4: "server_run ?L Some 3 4 60 (?at ?fds3 g2 AtLoop) eff2 (?at ?fds3 g3 AtLoop)"
    using message_pass [of "?at ?fds3 g2 AtLoop" ?k2 "Message ?h2 None" g3 eff2 ?L Some 4 60] s0 e g2
    by (simp add: fds_of_def fresh_calloc_def ordinary_message_def handle_request_def queue_init_def)
  show thesis
    by (rule that [OF server_run_trans [OF 4 server_run_trans [OF 3 2]]])
       (simp_all add: g3 s0 sql waiting_def, simp add: server_init_def system_init_def)
qed

lemma request_waits:
  obtains effs s where "server_run (json_lib (\<lambda>_. None)) Some 3 4 60 (server_init 3 4 0) effs s"
    "queue_depth (g_state (sy_g (sv_sys s))) = 1" "sv_worker s = WLoop" "sv_running s"
  using sql_request_waits by blast

theorem program_keeps_invariants_witness:
  "\<exists>cfg effs s. server_start (\<lambda>cfg. cfg) (\<lambda>_. None) [] good_start = Serves cfg 3 4 (server_init 3 4 0) \<and>
    server_run (json_lib (\<lambda>_. None)) Some 3 4 60 (server_init 3 4 0) effs s \<and>
    queue_depth (g_state (sy_g (sv_sys s))) = 1 \<and> fits_model (g_state (sy_g (sv_sys s)))"
proof -
  obtain cfg where c: "server_start (\<lambda>cfg. cfg) (\<lambda>_. None) [] good_start = Serves cfg 3 4 (server_init 3 4 0)"
    using good_start_serves by blast
  then have "admin_timeout_sec cfg = 60"
    using server_start_serves(2) [OF c] by (simp add: cfg_load_def cfg_read_config_path_def cfg_defaults_def
        cfg_apply_env_def apply_env_value_def Let_def)
  moreover obtain effs s where r: "server_run (json_lib (\<lambda>_. None)) Some 3 4 60 (server_init 3 4 0) effs s"
    "queue_depth (g_state (sy_g (sv_sys s))) = 1" by (rule request_waits)
  ultimately show ?thesis
    using program_keeps_invariants [OF c, of "json_lib (\<lambda>_. None)" Some effs s] c by auto
qed

theorem no_lost_wakeup_witness:
  "\<exists>s. server_run (json_lib (\<lambda>_. None)) Some 3 4 60 (server_init 3 4 0) [] s \<and> sv_worker s = WWait \<and>
    waiting (sv_sys s) = []"
proof -
  let ?L = "json_lib (\<lambda>_. None) :: json cjson"
  let ?s = "server_init 3 4 0"
  have 1: "server_step ?L Some 3 4 60 ?s [] (?s\<lparr>sv_worker := WPop\<rparr>)"
    using server_step.worker_at_loop [of ?s ?L Some 3 4 60] by (simp add: server_init_def)
  have "worker_pop (?s\<lparr>sv_worker := WPop\<rparr>) = ?s\<lparr>sv_worker := WWait\<rparr>"
    by (simp add: worker_pop_def server_init_def system_init_def globals_init_def queue_pop_def queue_init_def)
  with server_step.worker_popping [of "?s\<lparr>sv_worker := WPop\<rparr>" ?L Some 3 4 60]
  have 2: "server_step ?L Some 3 4 60 (?s\<lparr>sv_worker := WPop\<rparr>) [] (?s\<lparr>sv_worker := WWait\<rparr>)" by simp
  have run: "server_run ?L Some 3 4 60 ?s [] (?s\<lparr>sv_worker := WWait\<rparr>)"
    using server_run.goes_on [OF server_run.goes_on [OF server_run.begins 1] 2] by simp
  from no_lost_wakeup [OF run] run show ?thesis by auto
qed

text \<open>The request of the client is never answered once the signal has come.\<close>

theorem stop_loses_waiting_witness:
  "\<exists>effs s x. server_run (json_lib (\<lambda>_. None)) Some 3 4 60 (server_init 3 4 0) effs s \<and> \<not> sv_running s \<and>
    waiting (sv_sys s) = [x] \<and>
    (\<forall>effs' s'. server_run (json_lib (\<lambda>_. None)) Some 3 4 60 s effs' s' \<longrightarrow> x \<in> set (waiting (sv_sys s')))"
proof -
  let ?L = "json_lib (\<lambda>_. None) :: json cjson"
  obtain effs s where r: "server_run ?L Some 3 4 60 (server_init 3 4 0) effs s"
    "queue_depth (g_state (sy_g (sv_sys s))) = 1" "sv_worker s = WLoop" "sv_running s" by (rule request_waits)
  let ?s = "s\<lparr>sv_running := False\<rparr>"
  have run: "server_run ?L Some 3 4 60 (server_init 3 4 0) effs ?s"
    using server_run.goes_on [OF r(1) server_step.stop_signal [OF r(4)]] by simp
  have "awake_ok ?s" by (rule awake_run [OF run awake_init])
  then have "length (waiting (sv_sys ?s)) = 1"
    using waiting_length [of "sv_sys ?s"] r(2) by (simp add: awake_ok_def)
  then obtain x where x: "waiting (sv_sys ?s) = [x]" by (auto simp: length_Suc_conv)
  have "x \<in> set (waiting (sv_sys s'))" if "server_run ?L Some 3 4 60 ?s effs' s'" for effs' s'
    using stop_loses_waiting [OF run _ that] x r(3) by auto
  with run x show ?thesis by (intro exI [of _ effs] exI [of _ ?s] exI [of _ x]) simp
qed

theorem failed_poll_ends_interface_witness:
  "\<exists>s1 eff. server_step (json_lib (\<lambda>_. None)) Some 3 4 60 (server_init 3 4 0) eff s1 \<and> Close 3 \<in> set eff \<and>
    (\<forall>effs' s2. server_run (json_lib (\<lambda>_. None)) Some 3 4 60 s1 effs' s2 \<longrightarrow> sv_ordinary s2 = Returned)"
proof -
  obtain s1 eff where l: "ordinary_loop PollFails (server_init 3 4 0) = (s1, eff)" by fastforce
  have i: "sv_ordinary (server_init 3 4 0) = AtLoop" "sv_running (server_init 3 4 0)"
    "3 \<in> set (fds_of (sy_fds (sv_sys (server_init 3 4 0))))"
    by (simp_all add: server_init_def system_init_def fds_of_def)
  from failed_poll_ends_interface [OF server_run.begins i(1,2) l] server_run.begins i(3) show ?thesis by blast
qed

end
