(* ===== verification/Store.thy ===== *)
theory Store
  imports Program "HOL-Library.Sublist"
begin

text \<open>
  What the server is for its clients: a store of tables and upload files that serves one
  request after the other.  The whole program is a refinement of it: whatever the threads do,
  the store changes by serving the requests in the order in which they were queued, and the
  answers that are sent are those of the store.
\<close>

section \<open>The store\<close>

type_synonym store = "Table list \<times> files"

definition upload_content :: "32 word \<Rightarrow> files \<Rightarrow> string" where
  "upload_content c fs = (case fs (upload_path c) of None \<Rightarrow> [] | Some s \<Rightarrow> s)"

text \<open>The tables of a schema: the text of its upload, parsed, with its relations applied.\<close>

definition schema_of :: "'j cjson \<Rightarrow> string \<Rightarrow> Table list \<Rightarrow> bool" where
  "schema_of L json ts \<longleftrightarrow> (\<exists>root arr ts0. cj_parse L json = Some root \<and> cj_get L root ''tables'' = Some arr \<and>
     load_tables L [] (cj_elements L arr) = (ts0, None) \<and> ts = apply_relations L root ts0)"

text \<open>
  A request is served with success or it is refused.  An INSERT adds the rows of its batch
  and keeps every constraint, or it changes nothing; the end of an upload replaces all
  tables by those of the schema the client has uploaded, and may replace them by a part of it
  when it is refused; a refused chunk may leave a part of
  itself in the file of its client.
\<close>

inductive serves :: "'j cjson \<Rightarrow> Request \<Rightarrow> bool \<Rightarrow> store \<Rightarrow> store \<Rightarrow> bool" for L where
  upload_starts: "rq_op_id r = OP_UPLOAD_BEGIN \<Longrightarrow> serves L r True (ts, fs) (ts, fs(upload_path (rq_client_id r) \<mapsto> []))"
| chunk_stored: "rq_op_id r = OP_UPLOAD_CHUNK \<Longrightarrow> part = payload_bytes (rq_payload r) \<or> rq_payload_size r = 0 \<and> part = [] \<Longrightarrow>
    serves L r True (ts, fs) (ts, fs(upload_path (rq_client_id r) \<mapsto> upload_content (rq_client_id r) fs @ part))"
| schema_loaded: "rq_op_id r = OP_UPLOAD_END \<Longrightarrow> schema_of L (upload_content (rq_client_id r) fs) ts' \<Longrightarrow>
    serves L r True (ts, fs) (ts', fs)"
| rows_inserted: "rq_op_id r = OP_VALIDATE_INSERT \<Longrightarrow> rq_payload r = Some bs \<Longrightarrow>
    parse_batch ts (cstr bs) = Ok batch \<Longrightarrow> integrity (fold add_row batch ts) \<Longrightarrow>
    serves L r True (ts, fs) (fold add_row batch ts, fs)"
| asked: "rq_op_id r = OP_GENERATE_SQL \<or> rq_op_id r = OP_DOWNLOAD_SQL \<Longrightarrow> serves L r True S S"
| refused: "serves L r False S S"
| chunk_refused: "rq_op_id r = OP_UPLOAD_CHUNK \<Longrightarrow> prefix part (payload_bytes (rq_payload r)) \<Longrightarrow>
    serves L r False (ts, fs) (ts, fs(upload_path (rq_client_id r) \<mapsto> upload_content (rq_client_id r) fs @ part))"
| schema_refused: "rq_op_id r = OP_UPLOAD_END \<Longrightarrow> fresh_tables ts' \<Longrightarrow> serves L r False (ts, fs) (ts', fs)"

fun served_all :: "'j cjson \<Rightarrow> (Request \<times> bool) list \<Rightarrow> store \<Rightarrow> store \<Rightarrow> bool" where
  "served_all L [] S S' \<longleftrightarrow> S' = S"
| "served_all L ((r, v) # log) S S' \<longleftrightarrow> (\<exists>S1. serves L r v S S1 \<and> served_all L log S1 S')"

lemma served_all_append:
  "served_all L log1 S S1 \<Longrightarrow> served_all L log2 S1 S2 \<Longrightarrow> served_all L (log1 @ log2) S S2"
  by (induction L log1 S S1 rule: served_all.induct) auto

section \<open>A request is served as the store says\<close>

lemma fair_read:
  assumes "fair_files calls" "read_json_file (wc_reader calls (fs (upload_path c))) = Inr json"
  shows "json = upload_content c fs"
proof -
  let ?f = "wc_reader calls (fs (upload_path c))"
  have tell: "n = length (upload_content c fs)" if "fs_tell ?f = Inr n" for n
    using assms(1) that by (simp add: fair_files_def upload_content_def)
  have "fs_read ?f = take (length (fs_read ?f)) (upload_content c fs)"
    using assms(1) by (simp add: fair_files_def upload_content_def)
  with assms(2) tell show ?thesis
    by (auto simp: read_json_file_def split: if_splits sum.splits)
qed

lemma load_serves:
  assumes "load_er_json L (wc_reader calls (fs (upload_path (rq_client_id r)))) st = (st', res)"
    and "wf_tables (tables st)" "rq_op_id r = OP_UPLOAD_END" "fair_files calls"
  shows "serves L r (\<exists>n. res = Inr n) (tables st, fs) (tables st', fs)"
proof -
  note w = load_er_json_keeps_wf [OF assms(1,2)]
  from assms(1) show ?thesis
  proof (cases rule: load_er_json_cases)
    case (loaded root arr ts)
    with fair_read [OF assms(4)] have "schema_of L (upload_content (rq_client_id r) fs) (tables st')"
      by (auto simp: schema_of_def)
    with loaded(6) assms(3) show ?thesis by (auto intro: serves.schema_loaded)
  next
    case (partial root arr ts e)
    show ?thesis
    proof (cases "tables st' = tables st")
      case True
      with partial(6) serves.refused show ?thesis by simp
    next
      case False
      with w have "fresh_tables (tables st')" by (auto simp: fresh_tables_def)
      with partial(6) assms(3) serves.schema_refused show ?thesis by simp
    qed
  qed (use serves.refused in simp)
qed

lemma chunk_serves:
  assumes "append_upload_chunk e (rq_client_id r) (rq_payload r) (rq_payload_size r) fs = (fs', good, msg)"
    and "rq_op_id r = OP_UPLOAD_CHUNK"
  shows "serves L r good (ts, fs) (ts, fs')"
proof (cases e)
  case None
  with assms serves.chunk_stored [of r "payload_bytes (rq_payload r)" L ts fs] show ?thesis
    by (simp add: append_upload_chunk_def upload_content_def payload_bytes_def Let_def)
next
  case (Some x)
  show ?thesis
  proof (cases x)
    case (OpenFails m)
    with Some assms serves.refused show ?thesis by (simp add: append_upload_chunk_def Let_def)
  next
    case (WriteFailsAfter k m)
    have "prefix (take k (payload_bytes (rq_payload r))) (payload_bytes (rq_payload r))" by (rule take_is_prefix)
    with Some WriteFailsAfter assms serves.chunk_stored [of r "[]" L ts fs] serves.chunk_refused [of r _ L ts fs]
    show ?thesis
      by (auto simp: append_upload_chunk_def upload_content_def payload_bytes_def Let_def word_gt_0 split: if_splits)
  qed
qed

lemma insert_serves:
  assumes "validate_insert_request pg calls r (st, fs) = Ok ((st', fs'), rp)" "rq_op_id r = OP_VALIDATE_INSERT"
    and "sound_tables (tables st)"
  shows "serves L r (resp_op rp = OP_OK) (tables st, fs) (tables st', fs')"
proof -
  define st1 where "st1 = st\<lparr>insert_commands := insert_commands st + 1\<rparr>"
  have t1: "tables st1 = tables st" by (simp add: st1_def)
  have ans: "resp_op (answer opn t) = opn" for opn t by (simp add: answer_def)
  consider (no) "resp_op rp \<noteq> OP_OK" "tables st' = tables st" "fs' = fs"
    | (applied) bs st2 res where "rq_payload r = Some bs" "apply_insert_batch pg st1 (cstr bs) = (st2, res)"
      "tables st' = tables st2" "fs' = fs" "resp_op rp = OP_OK \<longleftrightarrow> (\<exists>n. res = Ok n)" "\<nexists>u. res = Fault u"
    using assms(1) unfolding validate_insert_request_def Let_def st1_def [symmetric]
    by (auto simp: ans t1 st1_def split: option.splits outcome.splits prod.splits)
  then show ?thesis
  proof cases
    case no
    with serves.refused show ?thesis by simp
  next
    case applied
    note k = apply_insert_batch_keeps [OF applied(2)]
    from assms(3) t1 have "wf_tables (tables st1)" "integrity (tables st1)" by (simp_all add: sound_tables_def)
    note k = k [OF this]
    show ?thesis
    proof (cases res)
      case (Ok n)
      with k t1 obtain batch where b: "parse_batch (tables st) (cstr bs) = Ok batch"
        "tables st2 = fold add_row batch (tables st)" "integrity (tables st2)" by auto
      from serves.rows_inserted [OF assms(2) applied(1) b(1)] b(2,3) applied(3-5) Ok show ?thesis by simp
    next
      case (Err e)
      with k t1 applied(3-5) serves.refused show ?thesis by simp
    qed (use applied(6) in simp)
  qed
qed

lemma perform_serves:
  assumes "perform_request L pg calls r (st, fs) = Ok ((st', fs'), rp)" "sound_tables (tables st)" "fair_files calls"
  shows "serves L r (resp_op rp = OP_OK) (tables st, fs) (tables st', fs')"
proof -
  have ans: "resp_op (answer opn t) = opn" for opn t by (simp add: answer_def)
  consider "rq_op_id r = OP_UPLOAD_BEGIN" | "rq_op_id r = OP_UPLOAD_CHUNK" | "rq_op_id r = OP_UPLOAD_END"
    | "rq_op_id r = OP_GENERATE_SQL" | "rq_op_id r = OP_DOWNLOAD_SQL" | "rq_op_id r = OP_VALIDATE_INSERT"
    | "rq_op_id r \<notin> {OP_UPLOAD_BEGIN, OP_UPLOAD_CHUNK, OP_UPLOAD_END, OP_GENERATE_SQL, OP_DOWNLOAD_SQL, OP_VALIDATE_INSERT}"
    by blast
  then show ?thesis
  proof cases
    case 1
    with assms(1) serves.upload_starts [of r L "tables st" fs] serves.refused [of L r "(tables st, fs)"] show ?thesis
      by (auto simp: perform_request_def upload_begin_def ans split: option.splits)
  next
    case 2
    with assms(1) have c: "upload_chunk calls r (st, fs) = ((st', fs'), rp)" by (simp add: perform_request_def)
    then have "st' = st" by (auto simp: upload_chunk_def Let_def split: prod.splits)
    with c 2 chunk_serves [where ts = "tables st" and e = "wc_append calls" and r = r and fs = fs and L = L] show ?thesis
      by (auto simp: upload_chunk_def ans Let_def split: prod.splits)
  next
    case 3
    with assms(1) have u: "upload_end L calls r (st, fs) = ((st', fs'), rp)" by (simp add: perform_request_def)
    obtain st1 res where l: "load_er_json L (wc_reader calls (fs (upload_path (rq_client_id r)))) st = (st1, res)" by fastforce
    with load_serves [where fs = fs and r = r and calls = calls, OF l _ 3 assms(3)] assms(2) u show ?thesis
      by (auto simp: upload_end_def Let_def ans sound_tables_def split: sum.splits)
  next
    case 4
    with assms(1) serves.asked [of r L "(tables st, fs)"] show ?thesis
      by (auto simp: perform_request_def generate_sql_request_def ans)
  next
    case 5
    with assms(1) serves.asked [of r L "(tables st, fs)"] serves.refused [of L r "(tables st, fs)"] show ?thesis
      by (auto simp: perform_request_def download_sql_request_def ans Let_def split: prod.splits if_splits)
  next
    case 6
    with assms(1) have "validate_insert_request pg calls r (st, fs) = Ok ((st', fs'), rp)" by (simp add: perform_request_def)
    with insert_serves 6 assms(2) show ?thesis by blast
  next
    case 7
    with assms(1) serves.refused [of L r "(tables st, fs)"] show ?thesis by (auto simp: perform_request_def ans)
  qed
qed

section \<open>A step of the program is a step of the store\<close>

definition store_of :: "server \<Rightarrow> store" where
  "store_of s = (tables (g_state (sy_g (sv_sys s))), g_files (sy_g (sv_sys s)))"

text \<open>The requests that are not served yet, and the one that is served and not answered.\<close>

definition unserved :: "system \<Rightarrow> Request list" where
  "unserved s = (case sy_worker s of Taken p r \<Rightarrow> [r] | Decided p r b \<Rightarrow> [r] | _ \<Rightarrow> []) @ map snd (waiting s)"

definition unanswered :: "phase \<Rightarrow> (Request \<times> bool) list" where
  "unanswered ph = (case ph of Performed p r rp \<Rightarrow> [(r, resp_op rp = OP_OK)] | _ \<Rightarrow> [])"

text \<open>The answer of a request: it is complete, and it is an error exactly when the request was refused.\<close>

definition answers_to :: "Request \<times> bool \<Rightarrow> sent list \<Rightarrow> bool" where
  "answers_to x msgs \<longleftrightarrow> well_answered (fst x) msgs \<and> (sent_op (last msgs) = OP_ERROR \<longleftrightarrow> \<not> snd x)"

text \<open>
  From s to s' the requests of the log were served, the requests of the list answered were
  answered by the groups of messages, which are among the effects, and later ones came in.
\<close>

definition serving ::
  "'j cjson \<Rightarrow> (Request \<times> bool) list \<Rightarrow> (Request \<times> bool) list \<Rightarrow> sent list list \<Rightarrow> Request list \<Rightarrow>
   server \<Rightarrow> effect list \<Rightarrow> server \<Rightarrow> bool" where
  "serving L log answered groups later s effs s' \<longleftrightarrow>
     served_all L log (store_of s) (store_of s') \<and>
     unserved (sv_sys s) @ later = map fst log @ unserved (sv_sys s') \<and>
     unanswered (sy_worker (sv_sys s)) @ log = answered @ unanswered (sy_worker (sv_sys s')) \<and>
     list_all2 answers_to answered groups \<and> subseq (concat (map (map Send) groups)) effs"

lemma chain_append: "a @ x = l @ b \<Longrightarrow> b @ y = m @ c \<Longrightarrow> a @ x @ y = (l @ m) @ c"
  by (metis append.assoc)

lemma serving_trans:
  assumes "serving L log1 done1 groups1 later1 s effs1 s1" "serving L log2 done2 groups2 later2 s1 effs2 s2"
  shows "serving L (log1 @ log2) (done1 @ done2) (groups1 @ groups2) (later1 @ later2) s (effs1 @ effs2) s2"
proof -
  have "unserved (sv_sys s) @ later1 @ later2 = (map fst log1 @ map fst log2) @ unserved (sv_sys s2)"
    "unanswered (sy_worker (sv_sys s)) @ log1 @ log2 = (done1 @ done2) @ unanswered (sy_worker (sv_sys s2))"
    using chain_append [of "unserved (sv_sys s)" later1 "map fst log1" "unserved (sv_sys s1)"]
      chain_append [of "unanswered (sy_worker (sv_sys s))" log1 done1 "unanswered (sy_worker (sv_sys s1))"] assms
    by (simp_all add: serving_def)
  then show ?thesis
    using assms served_all_append [of L log1 "store_of s" "store_of s1" log2 "store_of s2"]
    by (simp add: serving_def list_all2_appendI list_emb_append_mono)
qed

text \<open>A step that leaves the data and the worker alone: at most one request comes in.\<close>

lemma serving_idle:
  assumes "store_of s' = store_of s" "sy_worker (sv_sys s') = sy_worker (sv_sys s)"
    and "waiting (sv_sys s') = waiting (sv_sys s) @ new"
  shows "serving L [] [] [] (map snd new) s effs s'"
  using assms by (simp add: serving_def unserved_def)

text \<open>The interface threads leave the tables and the files alone.\<close>

definition same_store :: "globals \<Rightarrow> globals \<Rightarrow> bool" where
  "same_store g g' \<longleftrightarrow> tables (g_state g') = tables (g_state g) \<and> g_files g' = g_files g"

lemma same_store_trans: "same_store g g1 \<Longrightarrow> same_store g1 g2 \<Longrightarrow> same_store g g2"
  by (simp add: same_store_def)

lemma remove_same_store: "same_store g (snd (fst (remove_pollfd i (fds, g))))"
  by (simp add: remove_pollfd_def Let_def same_store_def)

lemma enqueue_same_store: "same_store g (fst (enqueue_request k fd h payload g))"
  by (simp add: enqueue_request_def queue_push_def case_prod_unfold Let_def same_store_def split: option.splits)

lemma message_same_store: "same_store g (snd (fst (ordinary_message k res i (fds, g))))"
proof (cases res)
  case (Message h payload)
  have "same_store g (fst (handle_connect k (pf_fd (fds ! i)) g))"
    by (simp add: handle_connect_def case_prod_unfold Let_def same_store_def)
  moreover have "same_store g (fst (handle_request k (pf_fd (fds ! i)) h payload g))"
    using enqueue_same_store by (simp add: handle_request_def case_prod_unfold Let_def) (simp add: same_store_def)
  ultimately show ?thesis
    using Message remove_same_store by (simp add: ordinary_message_def case_prod_unfold Let_def)
qed (use remove_same_store in \<open>simp_all add: ordinary_message_def case_prod_unfold Let_def same_store_def\<close>)

lemma ready_same_store: "same_store g (snd (fst (handle_ready listen_fd ar i (fds, g))))"
  using message_same_store
  by (auto simp: handle_ready_def accept_client_def case_prod_unfold Let_def same_store_def split: option.splits)

lemma admin_same_store:
  "same_store g (snd (fst (accept_admin acc now (a, g))))"
  "same_store g (snd (fst (handle_admin_message now fd h payload (a, g))))"
  "same_store g (snd (fst (drop_admin_fd i (a, g))))"
  "same_store g (snd (admin_gone (a, g)))"
  by (auto simp: accept_admin_def handle_admin_message_def admin_disconnect_def admin_cancel_def admin_block_def
      drop_admin_fd_def remove_pollfd_def admin_gone_def case_prod_unfold Let_def same_store_def split: option.splits)

lemma admin_message_same_store: "same_store g (snd (fst (admin_message now res i (a, g))))"
proof (cases res)
  case (Message h payload)
  obtain a1 g1 eff where m: "handle_admin_message now (pf_fd (ad_fds a ! i)) h payload (a, g) = ((a1, g1), eff)"
    by (metis prod.collapse)
  have "same_store g g1" using admin_same_store(2) [of g now _ h payload a] m by (metis fst_conv snd_conv)
  with m Message same_store_trans [OF _ admin_same_store(3)] show ?thesis
    by (simp add: admin_message_def case_prod_unfold Let_def)
qed (use admin_same_store(3) in \<open>auto simp: admin_message_def admin_gone_def case_prod_unfold Let_def same_store_def\<close>)

lemma admin_timeout_same_store: "same_store g (snd (fst (admin_timeout timeout now (a, g))))"
  using admin_same_store(3) [of g _ a]
  by (auto simp: admin_timeout_def admin_gone_def case_prod_unfold Let_def same_store_def split: option.splits)

lemma admin_ready_same_store: "same_store g (snd (fst (admin_ready l ar i (a, g))))"
  using admin_same_store(1) admin_message_same_store by (simp add: admin_ready_def case_prod_unfold Let_def)

lemma iteration_same_store:
  "ordinary_iteration listen_fd ar i s = (s', eff) \<Longrightarrow> store_of s' = store_of s"
  "admin_iteration l aa i s = (s', eff) \<Longrightarrow> store_of s' = store_of s"
  "admin_loop timeout now res s = (s', eff) \<Longrightarrow> store_of s' = store_of s"
proof -
  assume "ordinary_iteration listen_fd ar i s = (s', eff)"
  then show "store_of s' = store_of s"
  proof (cases rule: ordinary_iteration_cases)
    case (handled fds g f)
    with ready_same_store [of "sy_g (sv_sys s)" listen_fd ar i "sy_fds (sv_sys s)"] show ?thesis
      by (simp add: store_of_def same_store_def)
  qed (simp add: store_of_def)
next
  assume "admin_iteration l aa i s = (s', eff)"
  then show "store_of s' = store_of s"
  proof (cases rule: admin_iteration_cases)
    case (handled ag f)
    with admin_ready_same_store [of "sy_g (sv_sys s)" l aa i "sy_admin (sv_sys s)"] show ?thesis
      by (simp add: store_of_def same_store_def)
  qed (simp add: store_of_def)
next
  assume "admin_loop timeout now res s = (s', eff)"
  then show "store_of s' = store_of s"
    using admin_timeout_same_store [of "sy_g (sv_sys s)" timeout now]
    by (auto simp: admin_loop_def admin_return_def store_of_def same_store_def case_prod_unfold Let_def
        split: if_splits poll_result.splits)
qed

section \<open>The steps of the worker\<close>

definition reply_ok :: "phase \<Rightarrow> bool" where
  "reply_ok ph \<longleftrightarrow> (case ph of Performed p r rp \<Rightarrow> shape_ok r rp | _ \<Rightarrow> True)"

lemma cancel_shape: "cancel_request st = (st', rp) \<Longrightarrow> shape_ok r rp \<and> resp_op rp = OP_ERROR \<and> tables st' = tables st"
  by (auto simp: cancel_request_def shape_answer) (simp add: answer_def)

lemma finish_tables: "finish_request calls r rp st = (st', msgs) \<Longrightarrow> tables st' = tables st"
  using finish_fields(1) [of calls r rp st] by simp

lemma decided_serves:
  assumes "worker_phase L pg calls (sv_sys s) = Some (sys, eff)" "sy_worker (sv_sys s) = Decided p r b"
    and "sound_tables (tables (g_state (sy_g (sv_sys s))))" "fair_files calls"
  shows "\<exists>st' fs' rp. sys = set_worker_state st' fs' (Performed p r rp) (sv_sys s) \<and> shape_ok r rp \<and>
    serves L r (resp_op rp = OP_OK) (store_of s) (tables st', fs')"
proof (cases b)
  case True
  obtain st' rp where c: "cancel_request (g_state (sy_g (sv_sys s))) = (st', rp)" by fastforce
  with assms(1,2) True have "sys = set_worker_state st' (g_files (sy_g (sv_sys s))) (Performed p r rp) (sv_sys s)"
    by (simp add: worker_phase_def Let_def)
  with cancel_shape [OF c] serves.refused [of L r "store_of s"] show ?thesis
    by (intro exI [of _ st'] exI [of _ "g_files (sy_g (sv_sys s))"] exI [of _ rp]) (simp add: store_of_def)
next
  case False
  with assms(1,2) obtain st' fs' rp where
    p: "perform_request L pg calls r (g_state (sy_g (sv_sys s)), g_files (sy_g (sv_sys s))) = Ok ((st', fs'), rp)"
    and s': "sys = set_worker_state st' fs' (Performed p r rp) (sv_sys s)"
    by (auto simp: worker_phase_def Let_def split: outcome.splits)
  with perform_serves [OF p assms(3,4)] perform_request_shape(1) [OF p] show ?thesis
    by (intro exI [of _ st'] exI [of _ fs'] exI [of _ rp]) (simp add: store_of_def)
qed

lemma phase_serving:
  assumes "worker_phase L pg calls (sv_sys s) = Some (sys, eff)" "sy_worker (sv_sys s) \<noteq> Idle"
    and "sv_sys s' = sys" "waiting sys = waiting (sv_sys s)" "reply_ok (sy_worker (sv_sys s))"
    and "sound_tables (tables (g_state (sy_g (sv_sys s))))" "fair_files calls"
  shows "(\<exists>log answered groups. serving L log answered groups [] s eff s') \<and> reply_ok (sy_worker sys)"
proof (cases "sy_worker (sv_sys s)")
  case (Taken p r)
  with assms(1,3) have "sv_sys s' = set_worker_state (start_request (wc_now calls) r (g_state (sy_g (sv_sys s))))
      (g_files (sy_g (sv_sys s))) (Decided p r (cancel_client_id (g_state (sy_g (sv_sys s))) = sint (rq_client_id r))) (sv_sys s)"
    by (simp add: worker_phase_def Let_def)
  then obtain st b where sys: "sv_sys s' = set_worker_state st (g_files (sy_g (sv_sys s))) (Decided p r b) (sv_sys s)"
    "tables st = tables (g_state (sy_g (sv_sys s)))" by (metis start_fields(1))
  then have "store_of s' = store_of s" "unserved sys = unserved (sv_sys s)"
    "unanswered (sy_worker sys) = unanswered (sy_worker (sv_sys s))" "reply_ok (sy_worker sys)"
    using assms(3,4) Taken unfolding assms(3) [symmetric]
    by (simp_all add: store_of_def set_worker_state_def unserved_def unanswered_def reply_ok_def)
  then show ?thesis
    using assms(3) by (intro conjI exI [of _ "[]"]) (simp_all add: serving_def)
next
  case (Decided p r b)
  from decided_serves [OF assms(1) Decided assms(6,7)]
  obtain st' fs' rp where s': "sys = set_worker_state st' fs' (Performed p r rp) (sv_sys s)" "shape_ok r rp"
    "serves L r (resp_op rp = OP_OK) (store_of s) (tables st', fs')" by blast
  then have "serving L [(r, resp_op rp = OP_OK)] [] [] [] s eff s'"
    using assms(3,4) Decided by (simp add: serving_def store_of_def set_worker_state_def unserved_def unanswered_def)
  with s' show ?thesis by (auto simp: set_worker_state_def reply_ok_def)
next
  case (Performed p r rp)
  obtain st' msgs where f: "finish_request calls r rp (g_state (sy_g (sv_sys s))) = (st', msgs)" by fastforce
  with assms(1) Performed have sys: "eff = map Send msgs" "sy_worker sys = Idle" "g_files (sy_g sys) = g_files (sy_g (sv_sys s))"
    "g_state (sy_g sys) = st'" by (auto simp: worker_phase_def set_worker_state_def Let_def)
  have ok: "shape_ok r rp" using assms(5) Performed by (simp add: reply_ok_def)
  have "resp_op rp = OP_ERROR \<longleftrightarrow> resp_op rp \<noteq> OP_OK" using ok by (auto simp: shape_ok_def)
  with finish_answers [OF ok f] have "answers_to (r, resp_op rp = OP_OK) msgs" by (simp add: answers_to_def)
  then have "serving L [] [(r, resp_op rp = OP_OK)] [msgs] [] s eff s'"
    using assms(3,4) Performed sys finish_tables [OF f]
    by (simp add: serving_def store_of_def unserved_def unanswered_def)
  with sys(2) show ?thesis by (auto simp: reply_ok_def)
qed (use assms(2) in simp)

lemma pop_serving:
  assumes "queue_sound (sv_sys s)" "worker_ok s" "sv_worker s = WPop" "reply_ok (sy_worker (sv_sys s))"
  shows "serving L [] [] [] [] s [] (worker_pop s) \<and> reply_ok (sy_worker (sv_sys (worker_pop s)))"
proof -
  let ?sys = "sv_sys s"
  have idle: "sy_worker ?sys = Idle" using assms(2,3) by (simp add: worker_ok_def)
  have ok: "queue_ok (g_queue (sy_g ?sys), g_state (sy_g ?sys))" using assms(1) by (simp add: queue_sound_def)
  show ?thesis
  proof (cases "queue_pop (g_queue (sy_g ?sys), g_state (sy_g ?sys))")
    case None
    then have "sv_sys (worker_pop s) = ?sys" by (simp add: worker_pop_def Let_def)
    with assms(4) show ?thesis by (simp add: serving_def store_of_def)
  next
    case (Some x)
    obtain p r q st where x: "x = ((p, r), q, st)" by (metis prod.collapse)
    let ?sys' = "?sys\<lparr>sy_g := (sy_g ?sys)\<lparr>g_queue := q, g_state := st\<rparr>, sy_worker := Taken p r\<rparr>"
    have w: "worker_pop s = s\<lparr>sv_sys := ?sys', sv_worker := WWork\<rparr>"
      using Some x by (simp add: worker_pop_def Let_def)
    have "tables st = tables (g_state (sy_g ?sys))"
      using Some x by (auto simp: queue_pop_def split: option.splits if_splits)
    moreover have "waiting ?sys = (p, r) # waiting ?sys'"
      using requests.pop_SomeD(1) [OF ok] Some x by (simp add: waiting_def)
    ultimately show ?thesis
      unfolding w using idle by (simp add: serving_def store_of_def unserved_def unanswered_def reply_ok_def)
  qed
qed

definition store_ok :: "int \<Rightarrow> server \<Rightarrow> bool" where
  "store_ok l s \<longleftrightarrow> awake_ok s \<and> nets_ok l s \<and> sound_tables (tables (g_state (sy_g (sv_sys s)))) \<and>
     reply_ok (sy_worker (sv_sys s))"

text \<open>An interface thread or \<open>main\<close>: the worker's request stays, the queue may grow.\<close>

lemma interface_serving:
  assumes "queue_step_ok s s'" "sv_worker s = WPop \<Longrightarrow> sv_worker s' \<noteq> WWork" "store_of s' = store_of s"
    and "sy_worker (sv_sys s') = sy_worker (sv_sys s)" "reply_ok (sy_worker (sv_sys s))"
  shows "(\<exists>log answered groups later. serving L log answered groups later s eff s') \<and> reply_ok (sy_worker (sv_sys s'))"
  using assms serving_idle [OF assms(3,4)] by (simp add: queue_step_ok_def) blast

lemma serving_step:
  assumes "server_step L pg listen_fd l timeout s eff s'" "store_ok l s"
  shows "(\<exists>log answered groups later. serving L log answered groups later s eff s') \<and> reply_ok (sy_worker (sv_sys s'))"
proof -
  have ok: "queue_sound (sv_sys s)" "worker_ok s" "reply_ok (sy_worker (sv_sys s))"
    "sound_tables (tables (g_state (sy_g (sv_sys s))))" using assms(2) by (simp_all add: store_ok_def awake_ok_def)
  have q: "queue_step_ok s s'" by (rule queue_server_step [OF assms(1) ok(1,2)])
  note rest = interface_serving [OF q _ _ _ ok(3)]
  show ?thesis
    using assms(1)
  proof cases
    case (ordinary_at_loop res)
    note f = ordinary_loop_fields [OF ordinary_at_loop(2)]
    show ?thesis by (rule rest) (simp_all add: f store_of_def)
  next
    case (ordinary_in_pass i ar)
    note f = ordinary_iteration_fields [OF ordinary_in_pass(3)]
    show ?thesis by (rule rest) (simp_all add: f signalled_def iteration_same_store(1) [OF ordinary_in_pass(3)])
  next
    case (admin_at_loop now res)
    note f = admin_loop_fields [OF admin_at_loop(2)]
    show ?thesis by (rule rest) (simp_all add: f iteration_same_store(3) [OF admin_at_loop(2)])
  next
    case (admin_in_pass i ar)
    note f = admin_iteration_fields [OF admin_in_pass(3)]
    show ?thesis by (rule rest) (simp_all add: f iteration_same_store(2) [OF admin_in_pass(3)])
  next
    case worker_popping
    with pop_serving [OF ok(1,2) _ ok(3)] show ?thesis by blast
  next
    case (worker_working calls)
    from worker_working(2) show ?thesis
    proof (cases rule: worker_work_cases)
      case (works sys)
      have "waiting sys = waiting (sv_sys s)"
        using worker_work_queue [OF worker_working(2) ok(1)] works(3) by simp
      moreover have sys: "sv_sys s' = sys" using works(3) by simp
      ultimately show ?thesis using phase_serving [OF works(2,1) sys _ ok(3,4) worker_working(3)] unfolding sys by blast
    qed (rule rest; simp add: store_of_def worker_working(1))+
  next
    case main_goes_on
    then have f: "sv_sys s' = sv_sys s" "sv_worker s' = sv_worker s \<or> sv_worker s' = WPop"
      using main_step_fields [of s] by auto
    show ?thesis by (rule rest) (use f in \<open>auto simp: store_of_def\<close>)
  qed (rule rest; simp add: store_of_def)+
qed

lemma serving_run:
  assumes "server_run L pg listen_fd l timeout s effs s'" "store_ok l s"
  shows "(\<exists>log answered groups later. serving L log answered groups later s effs s') \<and> store_ok l s'"
  using assms
proof (induction rule: server_run.induct)
  case (begins s)
  have "serving L [] [] [] [] s [] s" by (simp add: serving_def)
  with begins show ?case by blast
next
  case (goes_on s effs s1 eff s2)
  then obtain log1 done1 groups1 later1 where 1: "serving L log1 done1 groups1 later1 s effs s1" and ok: "store_ok l s1"
    by blast
  from serving_step [OF goes_on.hyps(2) ok] obtain log2 done2 groups2 later2 where
    2: "serving L log2 done2 groups2 later2 s1 eff s2" and r: "reply_ok (sy_worker (sv_sys s2))" by blast
  have "store_ok l s2"
    using ok r awake_step [OF goes_on.hyps(2)] nets_ok_step [OF goes_on.hyps(2)]
      integrity_inv.keep_server_step [OF goes_on.hyps(2)] by (simp add: store_ok_def)
  with serving_trans [OF 1 2] show ?case by blast
qed

lemma store_ok_init:
  assumes "0 < listen_fd" "0 < admin_listen_fd"
  shows "store_ok admin_listen_fd (server_init listen_fd admin_listen_fd now)"
  using awake_init nets_init [OF assms] init_sound
  by (simp add: store_ok_def server_init_state) (simp add: reply_ok_def server_init_def system_init_def)

text \<open>
  C3: the program is a store that serves one request after the other.  Between any two of its
  states the requests that were not served are served in the order of the queue, each with
  success or with a refusal, and the tables and the upload files change by that and by nothing
  else; the requests are answered in the same order, each with a complete answer to its own
  connection, which is an error exactly when the request was refused.
\<close>

theorem server_refines_store:
  assumes "server_run L pg listen_fd admin_listen_fd timeout (server_init listen_fd admin_listen_fd now) effs0 s"
    and "server_run L pg listen_fd admin_listen_fd timeout s effs s'" and "0 < listen_fd" and "0 < admin_listen_fd"
  shows "\<exists>log answered groups later. served_all L log (store_of s) (store_of s') \<and>
    unserved (sv_sys s) @ later = map fst log @ unserved (sv_sys s') \<and>
    unanswered (sy_worker (sv_sys s)) @ log = answered @ unanswered (sy_worker (sv_sys s')) \<and>
    list_all2 answers_to answered groups \<and> subseq (concat (map (map Send) groups)) effs"
  using serving_run [OF assms(2) conjunct2 [OF serving_run [OF assms(1) store_ok_init [OF assms(3,4)]]]]
  unfolding serving_def by blast

theorem server_refines_store_witness:
  "\<exists>effs s log answered later. server_run (json_lib (\<lambda>_. None)) Some 3 4 60 (server_init 3 4 0) effs s \<and>
    served_all (json_lib (\<lambda>_. None)) log ([], \<lambda>_. None) (store_of s) \<and> later = map fst log @ unserved (sv_sys s) \<and>
    later \<noteq> [] \<and> log = answered @ unanswered (sy_worker (sv_sys s))"
proof -
  let ?L = "json_lib (\<lambda>_. None) :: json cjson"
  obtain effs s where r: "server_run ?L Some 3 4 60 (server_init 3 4 0) effs s"
    "queue_depth (g_state (sy_g (sv_sys s))) = 1" "sv_worker s = WLoop" "sv_running s" by (rule request_waits)
  have "awake_ok s" by (rule awake_run [OF r(1) awake_init])
  then have "length (waiting (sv_sys s)) = 1"
    using waiting_length [of "sv_sys s"] r(2) by (simp add: awake_ok_def)
  then have "unserved (sv_sys s) \<noteq> []" by (auto simp: unserved_def)
  moreover have "store_of (server_init 3 4 0) = ([], \<lambda>_. None)" "unserved (sv_sys (server_init 3 4 0)) = []"
    "unanswered (sy_worker (sv_sys (server_init 3 4 0))) = []"
    using queue_ok_init(2) [of 0]
    by (simp_all add: store_of_def unserved_def unanswered_def server_init_def system_init_def globals_init_def
        state_init_def waiting_def)
  ultimately show ?thesis
    using server_refines_store [OF server_run.begins r(1)] r(1) by simp fastforce
qed

end
