(* ===== verification/Service.thy ===== *)
theory Service
  imports Store
begin

text \<open>
  What the store of \<open>Store\<close> gives to each client: its upload file is its own, rows stay until
  a schema is loaded, and every request that was queued is answered once the worker has its
  turns.
\<close>

section \<open>Whose requests change what\<close>

lemma serves_files:
  assumes "serves L r v (ts, fs) (ts', fs')" "rq_client_id r \<noteq> c"
  shows "fs' (upload_path c) = fs (upload_path c)"
  using assms(1) by cases (use assms(2) in \<open>auto simp: upload_path_inj\<close>)

lemma serves_rows:
  assumes "serves L r v (ts, fs) (ts', fs')" "rq_op_id r \<noteq> OP_UPLOAD_END"
  shows "\<exists>batch. ts' = fold add_row batch ts \<and> (batch \<noteq> [] \<longrightarrow> rq_op_id r = OP_VALIDATE_INSERT \<and> v)"
  using assms(1)
proof cases
  case (rows_inserted bs batch)
  then show ?thesis by auto
qed (use assms(2) in \<open>auto intro: exI [of _ "[]"]\<close>)

definition inserts :: "(Request \<times> bool) list \<Rightarrow> bool" where
  "inserts log \<longleftrightarrow> (\<exists>r. (r, True) \<in> set log \<and> rq_op_id r = OP_VALIDATE_INSERT)"

lemma served_files:
  "served_all L log (ts, fs) (ts', fs') \<Longrightarrow> \<forall>x \<in> set log. rq_client_id (fst x) \<noteq> c \<Longrightarrow>
   fs' (upload_path c) = fs (upload_path c)"
proof (induction log arbitrary: ts fs)
  case (Cons x log)
  obtain r v where x: "x = (r, v)" by fastforce
  from Cons.prems(1) obtain ts1 fs1 where "serves L r v (ts, fs) (ts1, fs1)" "served_all L log (ts1, fs1) (ts', fs')"
    by (auto simp: x)
  with Cons.IH [OF this(2)] serves_files [OF this(1)] Cons.prems(2) show ?case by (simp add: x)
qed simp

lemma served_rows:
  "served_all L log (ts, fs) (ts', fs') \<Longrightarrow> \<forall>x \<in> set log. rq_op_id (fst x) \<noteq> OP_UPLOAD_END \<Longrightarrow>
   \<exists>batch. ts' = fold add_row batch ts \<and> (batch \<noteq> [] \<longrightarrow> inserts log)"
proof (induction log arbitrary: ts fs)
  case Nil
  then show ?case by (auto intro: exI [of _ "[]"])
next
  case (Cons x log)
  obtain r v where x: "x = (r, v)" by fastforce
  from Cons.prems(1) obtain ts1 fs1 where s: "serves L r v (ts, fs) (ts1, fs1)" "served_all L log (ts1, fs1) (ts', fs')"
    by (auto simp: x)
  from serves_rows [OF s(1)] Cons.prems(2) obtain b1 where
    b1: "ts1 = fold add_row b1 ts" "b1 \<noteq> [] \<longrightarrow> rq_op_id r = OP_VALIDATE_INSERT \<and> v" by (auto simp: x)
  from Cons.IH [OF s(2)] Cons.prems(2) obtain b2 where
    b2: "ts' = fold add_row b2 ts1" "b2 \<noteq> [] \<longrightarrow> inserts log" by auto
  have "inserts (x # log)" if "b1 @ b2 \<noteq> []"
    using that b1(2) b2(2) by (auto simp: x inserts_def)
  with b1(1) b2(1) show ?case by (intro exI [of _ "b1 @ b2"]) simp
qed

text \<open>
  What a client has uploaded: from its own requests alone, the chunks behind its last begin.
  The log is plain for a client if its requests were served with success, with their payload.
\<close>

fun uploaded :: "32 word \<Rightarrow> (Request \<times> bool) list \<Rightarrow> string \<Rightarrow> string" where
  "uploaded c [] t = t"
| "uploaded c ((r, v) # log) t = uploaded c log
     (if rq_client_id r \<noteq> c then t
      else if rq_op_id r = OP_UPLOAD_BEGIN then []
      else if rq_op_id r = OP_UPLOAD_CHUNK then t @ payload_bytes (rq_payload r) else t)"

definition plain_for :: "32 word \<Rightarrow> (Request \<times> bool) list \<Rightarrow> bool" where
  "plain_for c log \<longleftrightarrow> (\<forall>(r, v) \<in> set log. rq_client_id r = c \<longrightarrow>
     v \<and> (rq_op_id r = OP_UPLOAD_CHUNK \<longrightarrow> rq_payload_size r \<noteq> 0))"

lemma serves_upload:
  assumes "serves L r v (ts, fs) (ts', fs')"
    and "rq_client_id r = c \<Longrightarrow> v \<and> (rq_op_id r = OP_UPLOAD_CHUNK \<longrightarrow> rq_payload_size r \<noteq> 0)"
  shows "upload_content c fs' = uploaded c [(r, v)] (upload_content c fs)"
proof (cases "rq_client_id r = c")
  case False
  with serves_files [OF assms(1) False] show ?thesis by (simp add: upload_content_def)
next
  case True
  from assms(1) show ?thesis
    by cases (use assms(2) True in \<open>auto simp: upload_content_def\<close>)
qed

lemma served_upload:
  "served_all L log (ts, fs) (ts', fs') \<Longrightarrow> plain_for c log \<Longrightarrow>
   upload_content c fs' = uploaded c log (upload_content c fs)"
proof (induction log arbitrary: ts fs)
  case (Cons x log)
  obtain r v where x: "x = (r, v)" by fastforce
  from Cons.prems(1) obtain ts1 fs1 where s: "serves L r v (ts, fs) (ts1, fs1)" "served_all L log (ts1, fs1) (ts', fs')"
    by (auto simp: x)
  have "upload_content c fs1 = uploaded c [(r, v)] (upload_content c fs)"
    using Cons.prems(2) by (intro serves_upload [OF s(1)]) (auto simp: plain_for_def x)
  with Cons.IH [OF s(2)] Cons.prems(2) show ?case by (simp add: plain_for_def x)
qed simp


text \<open>The end of an upload in the log: what the client uploaded before is the schema.\<close>

lemma served_append_iff:
  "served_all L (log1 @ log2) S S' \<longleftrightarrow> (\<exists>S1. served_all L log1 S S1 \<and> served_all L log2 S1 S')"
proof (induction log1 arbitrary: S)
  case (Cons x log1)
  obtain r v where "x = (r, v)" by fastforce
  with Cons.IH show ?case by (simp del: split_paired_Ex) blast
qed simp

lemma serves_end:
  assumes "serves L r True (ts, fs) (ts', fs')" "rq_op_id r = OP_UPLOAD_END"
  shows "schema_of L (upload_content (rq_client_id r) fs) ts' \<and> fs' = fs"
  using assms(1) by cases (use assms(2) in auto)

lemma served_end:
  assumes "served_all L (before @ (r, True) # after) (ts, fs) (ts', fs')" "rq_op_id r = OP_UPLOAD_END"
    and "plain_for (rq_client_id r) before" "\<forall>x \<in> set after. rq_op_id (fst x) \<noteq> OP_UPLOAD_END"
  shows "\<exists>ts1 batch. schema_of L (uploaded (rq_client_id r) before (upload_content (rq_client_id r) fs)) ts1 \<and>
    ts' = fold add_row batch ts1 \<and> (batch \<noteq> [] \<longrightarrow> inserts after)"
proof -
  from assms(1) obtain ts0 fs0 ts1 fs1 where s: "served_all L before (ts, fs) (ts0, fs0)"
    "serves L r True (ts0, fs0) (ts1, fs1)" "served_all L after (ts1, fs1) (ts', fs')"
    by (auto simp: served_append_iff)
  with served_upload [OF s(1) assms(3)] serves_end [OF s(2) assms(2)] served_rows [OF s(3) assms(4)]
  show ?thesis by auto
qed


section \<open>The turns of the worker\<close>

text \<open>\<open>worker_main\<close> as one thread: what it does when it is scheduled, wherever it is.\<close>

definition worker_turn ::
  "'j cjson \<Rightarrow> (string \<Rightarrow> string option) \<Rightarrow> worker_calls \<Rightarrow> server \<Rightarrow> server \<times> effect list" where
  "worker_turn L pg calls s =
     (case sv_worker s of
        WLoop \<Rightarrow> (s\<lparr>sv_worker := (if sv_running s then WPop else WReturned)\<rparr>, [])
      | WPop \<Rightarrow> (worker_pop s, [])
      | WWait \<Rightarrow> (s\<lparr>sv_worker := WPop\<rparr>, [])
      | WWork \<Rightarrow> worker_work L pg calls s
      | _ \<Rightarrow> (s, []))"

fun worker_turns ::
  "'j cjson \<Rightarrow> (string \<Rightarrow> string option) \<Rightarrow> worker_calls list \<Rightarrow> server \<Rightarrow> server \<times> effect list" where
  "worker_turns L pg [] s = (s, [])"
| "worker_turns L pg (calls # cs) s =
     (let (s, eff) = worker_turn L pg calls s; (s, effs) = worker_turns L pg cs s in (s, eff @ effs))"

text \<open>How many turns are left until it waits, at most.\<close>

definition turns_left :: "server \<Rightarrow> nat" where
  "turns_left s = 7 * length (waiting (sv_sys s)) +
     (case sv_worker s of WPop \<Rightarrow> 1 | WLoop \<Rightarrow> 2 | WWork \<Rightarrow> phase_rank (sy_worker (sv_sys s)) + 1 | _ \<Rightarrow> 0)"

lemma turn_step:
  assumes "sv_worker s \<noteq> WFault" "sv_worker s \<noteq> WReturned" "worker_turn L pg calls s = (s', eff)" "fair_files calls"
  shows "server_step L pg listen_fd l timeout s eff s'"
proof (cases "sv_worker s")
  case WLoop
  with assms(3) server_step.worker_at_loop [OF WLoop] show ?thesis by (auto simp: worker_turn_def)
next
  case WPop
  with assms(3) server_step.worker_popping [OF WPop] show ?thesis by (auto simp: worker_turn_def)
next
  case WWait
  with assms(3) server_step.worker_woken [OF WWait] show ?thesis by (auto simp: worker_turn_def)
next
  case WWork
  with assms(3,4) server_step.worker_working [OF WWork] show ?thesis by (simp add: worker_turn_def)
qed (use assms(1,2) in simp_all)

lemma work_left:
  assumes "worker_work L pg calls s = (s', eff)" "sv_worker s = WWork" "queue_sound (sv_sys s)"
  shows "turns_left s' < turns_left s \<and> sv_running s' = sv_running s \<and> sv_worker s' \<noteq> WReturned"
proof -
  have w: "waiting (sv_sys s') = waiting (sv_sys s)" using worker_work_queue [OF assms(1,3)] by simp
  from assms(1) show ?thesis
  proof (cases rule: worker_work_cases)
    case (works sys)
    have "1 < phase_rank ph" for ph by (cases ph) simp_all
    with works(3) worker_phase_step [OF works(2,1)] assms(2) w show ?thesis by (auto simp: turns_left_def)
  qed (use assms(2) w in \<open>cases "sy_worker (sv_sys s)"; simp add: turns_left_def\<close>)+
qed

lemma pop_left:
  assumes "queue_sound (sv_sys s)" "worker_ok s" "sv_worker s = WPop" "sv_running s"
  shows "turns_left (worker_pop s) < turns_left s \<and> sv_worker (worker_pop s) \<noteq> WReturned"
proof -
  let ?s' = "worker_pop s"
  have "sv_worker ?s' = WWork \<or> sv_worker ?s' = WWait \<and> sv_sys ?s' = sv_sys s"
    using worker_pop_fields(7) [of s] assms(4) by auto
  then show ?thesis
  proof
    assume w: "sv_worker ?s' = WWork"
    have "sy_worker (sv_sys s) = Idle" using assms(2,3) by (simp add: worker_ok_def)
    obtain p r q st where pop: "queue_pop (g_queue (sy_g (sv_sys s)), g_state (sy_g (sv_sys s))) = Some ((p, r), q, st)"
      using w assms(4) by (auto simp: worker_pop_def Let_def split: option.splits)
    then have "waiting (sv_sys s) = (p, r) # waiting (sv_sys ?s')" "sy_worker (sv_sys ?s') = Taken p r"
      using requests.pop_SomeD(1) [OF _ pop] assms(1) by (simp_all add: waiting_def queue_sound_def worker_pop_def Let_def)
    with w assms(3) show ?thesis by (simp add: turns_left_def)
  qed (use assms(3) in \<open>simp add: turns_left_def\<close>)
qed

text \<open>A turn serves, and brings the worker nearer to the wait.\<close>

lemma turn_serves:
  assumes "store_ok l s" "sv_running s" "sv_worker s \<notin> {WFault, WReturned, WWait}" "worker_turn L pg calls s = (s', eff)"
    and "fair_files calls"
  shows "(\<exists>log answered groups. serving L log answered groups [] s eff s') \<and> turns_left s' < turns_left s \<and>
    sv_running s' \<and> sv_worker s' \<noteq> WReturned"
proof -
  have ok: "queue_sound (sv_sys s)" "worker_ok s" "reply_ok (sy_worker (sv_sys s))"
    "sound_tables (tables (g_state (sy_g (sv_sys s))))" using assms(1) by (simp_all add: store_ok_def awake_ok_def)
  show ?thesis
  proof (cases "sv_worker s")
    case WLoop
    then have s': "s' = s\<lparr>sv_worker := WPop\<rparr>" using assms(2,4) by (simp add: worker_turn_def)
    have "serving L [] [] [] [] s eff s'" using serving_idle [of s' s "[]" L eff] by (simp add: s' store_of_def)
    with WLoop assms(2) show ?thesis by (auto simp: s' turns_left_def)
  next
    case WPop
    then have "s' = worker_pop s" "eff = []" using assms(4) by (simp_all add: worker_turn_def)
    with pop_serving [OF ok(1,2) WPop ok(3)] pop_left [OF ok(1,2) WPop assms(2)] worker_pop_fields(1) [of s] assms(2)
    show ?thesis by blast
  next
    case WWork
    then have w: "worker_work L pg calls s = (s', eff)" using assms(4) by (simp add: worker_turn_def)
    have "\<exists>log answered groups. serving L log answered groups [] s eff s'"
      using w
    proof (cases rule: worker_work_cases)
      case (works sys)
      have wt: "waiting sys = waiting (sv_sys s)" using worker_work_queue [OF w ok(1)] works(3) by simp
      have sys: "sv_sys s' = sys" using works(3) by simp
      from phase_serving [OF works(2,1) sys wt ok(3,4) assms(5)] show ?thesis by blast
    next
      case fault
      then show ?thesis using serving_idle [of s' s "[]" L eff] by (auto simp: store_of_def)
    next
      case idle
      then show ?thesis using serving_idle [of s' s "[]" L eff] by (auto simp: store_of_def)
    qed
    with work_left [OF w WWork ok(1)] assms(2) show ?thesis by simp
  qed (use assms(3) in simp_all)
qed

lemma store_ok_step:
  assumes "server_step L pg listen_fd l timeout s eff s'" "store_ok l s"
  shows "store_ok l s'"
  using serving_run [OF server_run.goes_on [OF server_run.begins assms(1)] assms(2)] by blast

lemma turns_serve:
  assumes "store_ok l s" "sv_running s" "sv_worker s \<noteq> WReturned" "turns_left s \<le> length cs"
    and "\<forall>calls \<in> set cs. fair_files calls"
  shows "\<exists>n effs s' log answered groups. worker_turns L pg (take n cs) s = (s', effs) \<and>
    (sv_worker s' = WFault \<or> sv_worker s' = WWait) \<and> serving L log answered groups [] s effs s' \<and> store_ok l s' \<and>
    server_run L pg listen_fd l timeout s effs s'"
  using assms
proof (induction cs arbitrary: s)
  case Nil
  then have "sv_worker s = WFault \<or> sv_worker s = WWait" by (cases "sv_worker s") (simp_all add: turns_left_def)
  moreover have "serving L [] [] [] [] s [] s" by (simp add: serving_def)
  ultimately show ?case using Nil.prems(1) server_run.begins by (auto intro!: exI)
next
  case (Cons calls cs)
  show ?case
  proof (cases "sv_worker s = WFault \<or> sv_worker s = WWait")
    case True
    moreover have "serving L [] [] [] [] s [] s" by (simp add: serving_def)
    moreover have "worker_turns L pg (take 0 (calls # cs)) s = (s, [])" by simp
    ultimately show ?thesis using Cons.prems(1) server_run.begins by blast
  next
    case False
    with Cons.prems(3) have w: "sv_worker s \<notin> {WFault, WReturned, WWait}" by simp
    obtain s1 eff where t: "worker_turn L pg calls s = (s1, eff)" by fastforce
    have fair: "fair_files calls" using Cons.prems(5) by simp
    note step = turn_step [OF _ _ t fair, of listen_fd l timeout]
    from turn_serves [OF Cons.prems(1,2) w t fair] obtain log1 done1 groups1 where
      1: "serving L log1 done1 groups1 [] s eff s1" and dec: "turns_left s1 < turns_left s" "sv_running s1" "sv_worker s1 \<noteq> WReturned"
      by blast
    have ok: "store_ok l s1" using store_ok_step [OF step Cons.prems(1)] w by simp
    have "turns_left s1 \<le> length cs" using dec(1) Cons.prems(4) by simp
    from Cons.IH [OF ok dec(2,3) this] Cons.prems(5) obtain n effs s' log answered groups where
      2: "worker_turns L pg (take n cs) s1 = (s', effs)" "sv_worker s' = WFault \<or> sv_worker s' = WWait"
      "serving L log answered groups [] s1 effs s'" "store_ok l s'" "server_run L pg listen_fd l timeout s1 effs s'" by auto
    have "worker_turns L pg (take (Suc n) (calls # cs)) s = (s', eff @ effs)" by (simp add: t 2(1))
    moreover have "server_run L pg listen_fd l timeout s (eff @ effs) s'"
      using server_run_trans [OF 2(5) server_run.goes_on [OF server_run.begins step]] w by simp
    ultimately show ?thesis using serving_trans [OF 1 2(3)] 2(2,4) by (metis append_Nil2)
  qed
qed

text \<open>A worker that has left its arrays did so with an INSERT.\<close>

definition fault_ok :: "server \<Rightarrow> bool" where
  "fault_ok s \<longleftrightarrow> (sv_worker s = WFault \<longrightarrow>
     (\<exists>p r. sy_worker (sv_sys s) = Decided p r False \<and> rq_op_id r = OP_VALIDATE_INSERT))"

lemma phase_fault:
  "worker_phase L pg calls s = None \<Longrightarrow> \<exists>p r. sy_worker s = Decided p r False \<and> rq_op_id r = OP_VALIDATE_INSERT"
  by (auto simp: worker_phase_def perform_request_def Let_def
      split: phase.splits bool.splits outcome.splits prod.splits if_splits)

lemma work_fault:
  assumes "worker_work L pg calls s = (s', eff)"
  shows "fault_ok s'"
proof (cases "worker_phase L pg calls (sv_sys s)")
  case None
  with assms phase_fault [OF None] show ?thesis by (auto simp: worker_work_def fault_ok_def)
next
  case (Some x)
  with assms have "sv_worker s' \<noteq> WFault" by (auto simp: worker_work_def split: prod.splits if_splits)
  then show ?thesis by (simp add: fault_ok_def)
qed

lemma fault_step:
  assumes "server_step L pg listen_fd l timeout s eff s'" "fault_ok s"
  shows "fault_ok s'"
  using assms(1)
proof cases
  case (ordinary_at_loop res)
  with ordinary_loop_fields [OF ordinary_at_loop(2)] assms(2) show ?thesis by (simp add: fault_ok_def)
next
  case (ordinary_in_pass i ar)
  with ordinary_iteration_fields [OF ordinary_in_pass(3)] assms(2) show ?thesis
    by (auto simp: fault_ok_def signalled_def split: if_splits)
next
  case (admin_at_loop now res)
  with admin_loop_fields [OF admin_at_loop(2)] assms(2) show ?thesis by (simp add: fault_ok_def)
next
  case (admin_in_pass i ar)
  with admin_iteration_fields [OF admin_in_pass(3)] assms(2) show ?thesis by (simp add: fault_ok_def)
next
  case worker_popping
  with worker_pop_fields(7) [of s] assms(2) show ?thesis by (auto simp: fault_ok_def split: if_splits)
next
  case (worker_working calls)
  with work_fault show ?thesis by blast
next
  case main_goes_on
  with main_step_fields [of s] assms(2) show ?thesis by (auto simp: fault_ok_def)
qed (use assms(2) in \<open>auto simp: fault_ok_def\<close>)

lemma fault_run: "server_run L pg listen_fd l timeout s effs s' \<Longrightarrow> fault_ok s \<Longrightarrow> fault_ok s'"
  by (induction rule: server_run.induct) (use fault_step in blast)+





end
