(* ===== verification/Logging.thy ===== *)
theory Logging
  imports Protocol
begin

text \<open>
  The log of the server: \<open>log_event\<close> of \<open>src/server.c\<close>, with the time and the formatted
  message as arguments.  The mutex makes the writing of a line one step.
\<close>

definition LOG_SIZE :: nat where [simp]: "LOG_SIZE = 1024"

definition log_line :: "int \<Rightarrow> string \<Rightarrow> string option" where
  "log_line now body =
     (let start = ''['' @ sdec now @ ''] ''
      in if LOG_SIZE \<le> length start then None
         else (let line = start @ snprintf (LOG_SIZE - length start) body
               in Some (if length line + 1 < LOG_SIZE then line @ [CHR 0x0A] else line)))"

text \<open>What reaches the file; the first argument is whether \<open>g_log_fd\<close> is open.\<close>

definition log_event :: "bool \<Rightarrow> int \<Rightarrow> string \<Rightarrow> write_event list \<Rightarrow> string \<times> write_event list" where
  "log_event is_open now body evs =
     (if \<not> is_open then ([], evs)
      else (case log_line now body of
          None \<Rightarrow> ([], evs)
        | Some line \<Rightarrow> (let (_, out, evs) = write_full line evs in (out, evs))))"

section \<open>Lines of the log\<close>

lemma log_time_short: "- (10 ^ 19) < now \<Longrightarrow> now < 10 ^ 19 \<Longrightarrow> length (sdec now) \<le> 20"
  using length_dec [of "nat now" 18] length_dec [of "nat (- now)" 18]
  by (cases "now < 0") (simp_all add: sdec_def nat_less_iff)

text \<open>The line fits its array; a message of up to 999 characters is a complete line.\<close>

lemma log_line_fits: "log_line now body = Some line \<Longrightarrow> length line < LOG_SIZE"
  by (auto simp: log_line_def Let_def split: if_splits)

lemma log_line_complete:
  assumes "- (10 ^ 19) < now" "now < 10 ^ 19" "length body < 1000"
  shows "log_line now body = Some (''['' @ sdec now @ ''] '' @ body @ [CHR 0x0A])"
  using log_time_short [OF assms(1,2)] assms(3) by (simp add: log_line_def Let_def snprintf_fits)

text \<open>
  A longer message loses its end and the end of its line, so that the next event continues
  the same line of the file.
\<close>

lemma log_line_unterminated:
  assumes "- (10 ^ 19) < now" "now < 10 ^ 19" "LOG_SIZE \<le> length body"
  shows "\<exists>line. log_line now body = Some line \<and> length line = LOG_SIZE - 1 \<and>
    line = ''['' @ sdec now @ ''] '' @ take (length line - length (sdec now) - 3) body"
  using log_time_short [OF assms(1,2)] assms(3)
  by (auto simp: log_line_def Let_def snprintf_def min_def)

end
