(* ===== verification/Client.thy ===== *)
theory Client
  imports Protocol
begin

text \<open>
  The client, \<open>src/client.c\<close>: its command line, one request and its reply, the handshake,
  upload, download and the reading of a local file, the commands it understands and the main
  program.  The connection is a parameter, what sending and receiving do to a state of any
  type; the local files and the console are arguments.  A receive that never returns is not
  represented.  What is printed is left out.
\<close>

section \<open>The connection\<close>

text \<open>\<open>send_message\<close> succeeds or fails; \<open>recv_message\<close> delivers a message, or \<open>None\<close> for 0 or -1.\<close>

record 's link =
  lk_send :: "message \<Rightarrow> 's \<Rightarrow> bool \<times> 's"
  lk_recv :: "'s \<Rightarrow> message option \<times> 's"

text \<open>The message that \<open>send_message(fd, client_id, op, bs, len)\<close> puts on the wire.\<close>

definition client_msg :: "32 word \<Rightarrow> 32 word \<Rightarrow> string \<Rightarrow> message" where
  "client_msg client_id opn bs =
     (\<lparr>msg_size = word_of_nat (length bs), mh_client_id = client_id, mh_op_id = opn, flags = 0\<rparr>,
      if bs = [] then None else Some bs)"

text \<open>\<open>request_text\<close>: whether it returns 0, and the reply.\<close>

definition request_text ::
  "'s link \<Rightarrow> 32 word \<Rightarrow> 32 word \<Rightarrow> string \<Rightarrow> 's \<Rightarrow> 's \<times> bool \<times> string option" where
  "request_text k client_id opn payload s =
     (case lk_send k (client_msg client_id opn (cstr payload)) s of
        (False, s) \<Rightarrow> (s, False, None)
      | (True, s) \<Rightarrow>
          (case lk_recv k s of
             (None, s) \<Rightarrow> (s, False, None)
           | (Some (h, resp), s) \<Rightarrow> (s, mh_op_id h = OP_OK, resp)))"

text \<open>\<open>strtoul(s, NULL, 10)\<close> on a 64-bit \<open>unsigned long\<close>.\<close>

definition strtoul :: "string \<Rightarrow> nat" where
  "strtoul s =
     (let s1 = dropWhile isspace s;
          neg = (peek s1 = CHR ''-'');
          s2 = (if peek s1 = CHR ''-'' \<or> peek s1 = CHR ''+'' then tl s1 else s1);
          v = digits_val (takeWhile isdigit s2)
      in if 2 ^ 64 \<le> v then 2 ^ 64 - 1 else if neg then (2 ^ 64 - v) mod 2 ^ 64 else v)"

definition connect_protocol :: "'s link \<Rightarrow> 's \<Rightarrow> 's \<times> (unit, 32 word) outcome" where
  "connect_protocol k s =
     (case request_text k 0 OP_CONNECT [] s of
        (s, False, _) \<Rightarrow> (s, Err ())
      | (s, True, None) \<Rightarrow> (s, Fault NullReply)
      | (s, True, Some reply) \<Rightarrow>
          (let client_id = word_of_nat (strtoul (cstr reply))
           in (s, if client_id = 0 then Err () else Ok client_id)))"

section \<open>Upload\<close>

text \<open>What the successive \<open>read\<close> calls on a local file return; after the last one it is at its end.\<close>

datatype read_event = Got string | ReadInterrupted | ReadFails

fun upload_chunks :: "'s link \<Rightarrow> 32 word \<Rightarrow> read_event list \<Rightarrow> 's \<Rightarrow> 's \<times> bool" where
  "upload_chunks k client_id [] s = (s, True)"
| "upload_chunks k client_id (ReadInterrupted # evs) s = upload_chunks k client_id evs s"
| "upload_chunks k client_id (ReadFails # evs) s = (s, False)"
| "upload_chunks k client_id (Got buf # evs) s =
     (if buf = [] then (s, True)
      else (case lk_send k (client_msg client_id OP_UPLOAD_CHUNK buf) s of
          (False, s) \<Rightarrow> (s, False)
        | (True, s) \<Rightarrow>
            (case lk_recv k s of
               (None, s) \<Rightarrow> (s, False)
             | (Some (h, resp), s) \<Rightarrow>
                 if mh_op_id h \<noteq> OP_OK then (s, False) else upload_chunks k client_id evs s)))"

text \<open>The file is \<open>None\<close> where \<open>open\<close> fails.\<close>

definition upload_file ::
  "'s link \<Rightarrow> 32 word \<Rightarrow> string \<Rightarrow> read_event list option \<Rightarrow> bool \<Rightarrow> 's \<Rightarrow> 's \<times> bool" where
  "upload_file k client_id path src malloc s =
     (case src of
        None \<Rightarrow> (s, False)
      | Some evs \<Rightarrow>
          (case request_text k client_id OP_UPLOAD_BEGIN path s of
             (s, False, _) \<Rightarrow> (s, False)
           | (s, True, _) \<Rightarrow>
               if \<not> malloc then (s, False)
               else (case upload_chunks k client_id evs s of
                   (s, False) \<Rightarrow> (s, False)
                 | (s, True) \<Rightarrow> (let (s, good, reply) = request_text k client_id OP_UPLOAD_END [] s in (s, good)))))"

section \<open>Download\<close>

text \<open>
  The loop of \<open>download_sql_file\<close> may go on for ever if the server keeps sending: then it has
  no value.  The arguments are how the n-th write to the file goes (it succeeds, or fails
  after some bytes), \<open>saw_begin\<close>, the number of writes, and the content of the file.
\<close>

partial_function (option) download_loop ::
  "'s link \<Rightarrow> (nat \<Rightarrow> nat option) \<Rightarrow> bool \<Rightarrow> nat \<Rightarrow> string \<Rightarrow> 's \<Rightarrow> ('s \<times> string \<times> bool) option" where
  "download_loop k writes saw_begin n out s =
     (case lk_recv k s of
        (None, s) \<Rightarrow> Some (s, out, False)
      | (Some (h, payload), s) \<Rightarrow>
          if mh_op_id h = OP_DOWNLOAD_BEGIN then download_loop k writes True n out s
          else if mh_op_id h = OP_DOWNLOAD_CHUNK then
            (if \<not> saw_begin then Some (s, out, False)
             else if 0 < msg_size h then
               (case writes n of
                  None \<Rightarrow> download_loop k writes saw_begin (Suc n) (out @ payload_bytes payload) s
                | Some m \<Rightarrow> Some (s, out @ take m (payload_bytes payload), False))
             else download_loop k writes saw_begin n out s)
          else if mh_op_id h = OP_DOWNLOAD_END then Some (s, out, True)
          else Some (s, out, False))"

text \<open>The content of the local file is \<open>None\<close> where it is not created.\<close>

definition download_sql_file ::
  "'s link \<Rightarrow> 32 word \<Rightarrow> bool \<Rightarrow> (nat \<Rightarrow> nat option) \<Rightarrow> 's \<Rightarrow> ('s \<times> string option \<times> bool) option" where
  "download_sql_file k client_id created writes s =
     (case lk_send k (client_msg client_id OP_DOWNLOAD_SQL []) s of
        (False, s) \<Rightarrow> Some (s, None, False)
      | (True, s) \<Rightarrow>
          if \<not> created then Some (s, None, False)
          else map_option (\<lambda>(s, out, good). (s, Some out, good)) (download_loop k writes False 0 [] s))"

section \<open>Reading a local file\<close>

fun read_upto :: "nat \<Rightarrow> string \<Rightarrow> read_event list \<Rightarrow> string option" where
  "read_upto sz got [] = (if sz \<le> length got then Some got else None)"
| "read_upto sz got (e # evs) =
     (if sz \<le> length got then Some got
      else (case e of
          ReadInterrupted \<Rightarrow> read_upto sz got evs
        | ReadFails \<Rightarrow> None
        | Got bs \<Rightarrow> if bs = [] then None else read_upto sz (got @ take (sz - length got) bs) evs))"

definition read_file :: "read_event list option \<Rightarrow> int option \<Rightarrow> bool \<Rightarrow> string option" where
  "read_file src st_size malloc =
     (case (src, st_size) of
        (Some evs, Some sz) \<Rightarrow>
          if sz < 0 \<or> int SQLCG_MAX_PAYLOAD < sz \<or> \<not> malloc then None else read_upto (nat sz) [] evs
      | _ \<Rightarrow> None)"

section \<open>The command line\<close>

definition parse_port :: "string \<Rightarrow> 16 word option" where
  "parse_port s =
     (case strtol s of
        None \<Rightarrow> None
      | Some (parsed, end, erange) \<Rightarrow>
          if erange \<or> end \<noteq> [] \<or> parsed < 1 \<or> 65535 < parsed then None else Some (word_of_int parsed))"

record client_options =
  co_host :: string
  co_input :: "string option"
  co_insert :: "string option"
  co_download :: "string option"
  co_port :: "16 word"
  co_generate :: bool
  co_no_repl :: bool

definition default_options :: client_options where
  "default_options = \<lparr>co_host = ''127.0.0.1'', co_input = None, co_insert = None, co_download = None,
     co_port = SQLCG_PORT, co_generate = False, co_no_repl = False\<rparr>"

datatype 'a args_result = Options 'a | HelpShown | BadPort | Usage

text \<open>An argument that takes no value, or lacks it.\<close>

definition single_arg :: "client_options \<Rightarrow> string \<Rightarrow> client_options args_result" where
  "single_arg opts a =
     (if a = ''--help'' then HelpShown
      else if a = ''--generate'' then Options (opts\<lparr>co_generate := True\<rparr>)
      else if a = ''--no-repl'' then Options (opts\<lparr>co_no_repl := True\<rparr>)
      else if peek a \<noteq> CHR ''-'' then Options (opts\<lparr>co_host := a\<rparr>)
      else Usage)"

fun client_args :: "client_options \<Rightarrow> string list \<Rightarrow> client_options args_result" where
  "client_args opts [] = Options opts"
| "client_args opts [a] = single_arg opts a"
| "client_args opts (a # v # args) =
     (if a = ''--help'' then HelpShown
      else if a = ''--host'' then client_args (opts\<lparr>co_host := v\<rparr>) args
      else if a = ''--port'' then
        (case parse_port v of None \<Rightarrow> BadPort | Some p \<Rightarrow> client_args (opts\<lparr>co_port := p\<rparr>) args)
      else if a = ''--input'' then client_args (opts\<lparr>co_input := Some v\<rparr>) args
      else if a = ''--insert-file'' then client_args (opts\<lparr>co_insert := Some v\<rparr>) args
      else if a = ''--download-sql'' then client_args (opts\<lparr>co_download := Some v\<rparr>) args
      else (case single_arg opts a of Options opts \<Rightarrow> client_args opts (v # args) | r \<Rightarrow> r))"

section \<open>Commands\<close>

datatype command =
    Upload string | Generate | Download string | Status string | Result string | Insert string
  | InsertFile string | Help | Quit | Nothing

text \<open>\<open>strncmp(line, p, strlen(p)) == 0\<close>, with what is behind the prefix.\<close>

definition after_prefix :: "string \<Rightarrow> string \<Rightarrow> string option" where
  "after_prefix p line = (if take (length p) line = p then Some (drop (length p) line) else None)"

definition prefixed :: "string \<Rightarrow> string \<Rightarrow> (string \<Rightarrow> command) \<Rightarrow> command \<Rightarrow> command" where
  "prefixed p line f other = (case after_prefix p line of Some arg \<Rightarrow> f arg | None \<Rightarrow> other)"

definition parse_command :: "string \<Rightarrow> command" where
  "parse_command line =
     prefixed ''upload '' line Upload
       (if line = ''generate'' then Generate
        else prefixed ''download '' line Download
          (if line = ''status'' then Status ''last''
           else prefixed ''status '' line Status
             (if line = ''result'' then Result ''last''
              else prefixed ''result '' line Result
                (prefixed ''insert '' line Insert
                  (prefixed ''insertfile '' line InsertFile
                    (if line = ''help'' then Help
                     else if line = ''quit'' \<or> line = ''exit'' then Quit
                     else if line \<noteq> [] then Help
                     else Nothing))))))"

text \<open>The local files: what \<open>open\<close> and \<open>read\<close>, \<open>fstat\<close>, \<open>malloc\<close>, creating and writing do.\<close>

record client_env =
  ce_open :: "string \<Rightarrow> read_event list option"
  ce_size :: "string \<Rightarrow> int option"
  ce_malloc :: bool
  ce_create :: "string \<Rightarrow> bool"
  ce_writes :: "nat \<Rightarrow> nat option"

text \<open>The state of the connection, and the local files written.\<close>

type_synonym 's client_state = "'s \<times> (string \<Rightarrow> string option)"

definition saved :: "string \<Rightarrow> string option \<Rightarrow> (string \<Rightarrow> string option) \<Rightarrow> string \<Rightarrow> string option" where
  "saved path content fs = (case content of None \<Rightarrow> fs | Some out \<Rightarrow> fs(path \<mapsto> out))"

definition ask :: "'s link \<Rightarrow> 32 word \<Rightarrow> 32 word \<Rightarrow> string \<Rightarrow> 's client_state \<Rightarrow> 's client_state \<times> bool" where
  "ask k client_id opn payload cs =
     (let (s, fs) = cs; (s, good, reply) = request_text k client_id opn payload s in ((s, fs), good))"

definition do_upload :: "'s link \<Rightarrow> client_env \<Rightarrow> 32 word \<Rightarrow> string \<Rightarrow> 's client_state \<Rightarrow> 's client_state \<times> bool" where
  "do_upload k env client_id path cs =
     (let (s, fs) = cs; (s, good) = upload_file k client_id path (ce_open env path) (ce_malloc env) s in ((s, fs), good))"

definition do_download ::
  "'s link \<Rightarrow> client_env \<Rightarrow> 32 word \<Rightarrow> string \<Rightarrow> 's client_state \<Rightarrow> ('s client_state \<times> bool) option" where
  "do_download k env client_id path cs =
     (let (s, fs) = cs in
      map_option (\<lambda>(s, content, good). ((s, saved path content fs), good))
        (download_sql_file k client_id (ce_create env path) (ce_writes env) s))"

text \<open>A file of INSERTs that cannot be read is \<open>None\<close>.\<close>

definition do_insert_file ::
  "'s link \<Rightarrow> client_env \<Rightarrow> 32 word \<Rightarrow> string \<Rightarrow> 's client_state \<Rightarrow> 's client_state \<times> bool" where
  "do_insert_file k env client_id path cs =
     (case read_file (ce_open env path) (ce_size env path) (ce_malloc env) of
        None \<Rightarrow> (cs, False)
      | Some sql \<Rightarrow> ask k client_id OP_VALIDATE_INSERT sql cs)"

fun exec_command ::
  "'s link \<Rightarrow> client_env \<Rightarrow> 32 word \<Rightarrow> command \<Rightarrow> 's client_state \<Rightarrow> 's client_state option" where
  "exec_command k env cid (Upload path) cs = Some (fst (do_upload k env cid path cs))"
| "exec_command k env cid Generate cs = Some (fst (ask k cid OP_GENERATE_SQL [] cs))"
| "exec_command k env cid (Download path) cs = map_option fst (do_download k env cid path cs)"
| "exec_command k env cid (Status job) cs = Some (fst (ask k cid OP_JOB_STATUS job cs))"
| "exec_command k env cid (Result job) cs = Some (fst (ask k cid OP_JOB_RESULT job cs))"
| "exec_command k env cid (Insert sql) cs = Some (fst (ask k cid OP_VALIDATE_INSERT sql cs))"
| "exec_command k env cid (InsertFile path) cs = Some (fst (do_insert_file k env cid path cs))"
| "exec_command k env cid Quit cs = Some (fst (ask k cid OP_BYE [] cs))"
| "exec_command k env cid Help cs = Some cs"
| "exec_command k env cid Nothing cs = Some cs"

section \<open>The main program\<close>

definition command_of_line :: "string \<Rightarrow> command" where
  "command_of_line line = parse_command (cstr (takeWhile (\<lambda>c. c \<noteq> CHR 0x0A) line))"

fun repl :: "'s link \<Rightarrow> client_env \<Rightarrow> 32 word \<Rightarrow> string list \<Rightarrow> 's client_state \<Rightarrow> 's client_state option" where
  "repl k env cid [] cs = Some cs"
| "repl k env cid (line # lines) cs =
     (case exec_command k env cid (command_of_line line) cs of
        None \<Rightarrow> None
      | Some cs \<Rightarrow> if command_of_line line = Quit then Some cs else repl k env cid lines cs)"

text \<open>A step that may be asked for, and ends the program with 1 when it fails.\<close>

definition asked_for ::
  "'a option \<Rightarrow> ('a \<Rightarrow> 's client_state \<Rightarrow> ('s client_state \<times> bool) option) \<Rightarrow>
   ('s client_state \<Rightarrow> ('s client_state \<times> int) option) \<Rightarrow> 's client_state \<Rightarrow> ('s client_state \<times> int) option" where
  "asked_for what act rest cs =
     (case what of
        None \<Rightarrow> rest cs
      | Some x \<Rightarrow>
          (case act x cs of
             None \<Rightarrow> None
           | Some (cs, good) \<Rightarrow> if good then rest cs else Some (cs, 1)))"

text \<open>From the handshake to the exit code; the last argument but one is what is typed.\<close>

definition client_session ::
  "'s link \<Rightarrow> client_env \<Rightarrow> client_options \<Rightarrow> string \<Rightarrow> 32 word \<Rightarrow> 's client_state \<Rightarrow> ('s client_state \<times> int) option" where
  "client_session k env opts typed cid =
     asked_for (co_input opts) (\<lambda>path cs. Some (do_upload k env cid path cs))
       (asked_for (if co_generate opts then Some () else None) (\<lambda>_ cs. Some (ask k cid OP_GENERATE_SQL [] cs))
         (asked_for (co_download opts) (do_download k env cid)
           (asked_for (co_insert opts) (\<lambda>path cs. Some (do_insert_file k env cid path cs))
             (\<lambda>cs. if co_no_repl opts then Some (fst (ask k cid OP_BYE [] cs), 0)
                   else map_option (\<lambda>cs. (cs, 0)) (repl k env cid (file_lines 8192 typed) cs)))))"

definition client_main ::
  "'s link \<Rightarrow> client_env \<Rightarrow> client_options \<Rightarrow> string \<Rightarrow> 's client_state \<Rightarrow> (unit, ('s client_state \<times> int) option) outcome" where
  "client_main k env opts typed cs =
     (let (s, fs) = cs in
      case connect_protocol k s of
        (s, Fault u) \<Rightarrow> Fault u
      | (s, Err _) \<Rightarrow> Ok (Some ((s, fs), 1))
      | (s, Ok cid) \<Rightarrow> Ok (client_session k env opts typed cid (s, fs)))"

end
