(* ===== verification/ClientServer.thy ===== *)
theory ClientServer
  imports Client Uploads Admin
begin

text \<open>
  The client against the server.  The connection of the client is the server itself: a
  message is handled by the ordinary interface thread, the worker then takes the request
  that was queued, and what they send to the descriptor of the client arrives in order.
\<close>

section \<open>A connection to the server\<close>

text \<open>One round of \<open>worker_main\<close>; \<open>None\<close> where the code leaves its arrays.\<close>

definition worker_round ::
  "'j cjson \<Rightarrow> (string \<Rightarrow> string option) \<Rightarrow> worker_calls \<Rightarrow> globals \<Rightarrow> (globals \<times> sent list) option" where
  "worker_round L pg calls g =
     (case queue_pop (g_queue g, g_state g) of
        None \<Rightarrow> Some (g, [])
      | Some ((p, r), q, st) \<Rightarrow>
          (case process_request L pg calls r (st, g_files g) of
             Ok ((st, fs), msgs) \<Rightarrow>
               Some (g\<lparr>g_state := st, g_queue := free_request p q, g_files := fs\<rparr>, msgs)
           | _ \<Rightarrow> None))"

text \<open>What arrives at a descriptor.\<close>

definition deliver :: "sent \<Rightarrow> message" where
  "deliver m = client_msg (to_client m) (sent_op m) (body m)"

definition sent_by :: "effect list \<Rightarrow> sent list" where
  "sent_by effs = List.map_filter (\<lambda>e. case e of Send m \<Rightarrow> Some m | _ \<Rightarrow> None) effs"

definition arriving :: "int \<Rightarrow> sent list \<Rightarrow> message list" where
  "arriving fd msgs = map deliver (filter (\<lambda>m. to_fd m = fd) msgs)"

definition server_link ::
  "'j cjson \<Rightarrow> (string \<Rightarrow> string option) \<Rightarrow> worker_calls \<Rightarrow> iface_calls \<Rightarrow> int \<Rightarrow> (globals \<times> message list) link" where
  "server_link L pg calls k fd =
     \<lparr>lk_send = (\<lambda>m (g, inbox).
        let ((fds, g1), eff, fate) = ordinary_message k (Message (fst m) (snd m)) 0 ([\<lparr>pf_fd = fd, pf_ready = True\<rparr>], g)
        in (case worker_round L pg calls g1 of
              None \<Rightarrow> (False, (g1, inbox))
            | Some (g2, msgs) \<Rightarrow> (True, (g2, inbox @ arriving fd (sent_by eff @ msgs))))),
      lk_recv = (\<lambda>(g, inbox). case inbox of [] \<Rightarrow> (None, (g, [])) | m # ms \<Rightarrow> (Some m, (g, ms)))\<rparr>"

text \<open>
  The client is registered, nothing waits for the worker, none of its commands is to be
  cancelled, and the next request goes to unused memory.
\<close>

definition ready_for :: "32 word \<Rightarrow> nat \<Rightarrow> globals \<Rightarrow> bool" where
  "ready_for c p g \<longleftrightarrow> c \<noteq> 0 \<and> is_registered_client c (g_state g) \<and> cancel_client_id (g_state g) \<noteq> sint c \<and>
     q_head (g_queue g) = None \<and> q_tail (g_queue g) = None \<and> q_mem (g_queue g) p = None \<and>
     queue_depth (g_state g) = 0"

definition with_job :: "iface_calls \<Rightarrow> 32 word \<Rightarrow> 32 word \<Rightarrow> SharedState \<Rightarrow> SharedState \<times> int" where
  "with_job k c opn st = (if is_processing_op opn then job_create (ic_now k) c opn st else (st, 0))"

definition client_request :: "int \<Rightarrow> 32 word \<Rightarrow> 32 word \<Rightarrow> int \<Rightarrow> string \<Rightarrow> Request" where
  "client_request fd c opn job bs =
     \<lparr>rq_fd = fd, rq_client_id = c, rq_op_id = opn, rq_job_id = job,
      rq_payload = (if bs = [] then None else Some bs), rq_payload_size = word_of_nat (length bs)\<rparr>"

lemma push_pop:
  assumes "q_head q = None" "q_tail q = None" "q_mem q p = None" "queue_depth st = 0"
  obtains q1 where "queue_push p r (q, st) = (q1, st\<lparr>queue_depth := 1\<rparr>)"
    "\<exists>q2. queue_pop (q1, st\<lparr>queue_depth := 1\<rparr>) = Some ((p, r), q2, st) \<and> free_request p q2 = q"
proof -
  define q1 where "q1 = q\<lparr>q_head := Some p, q_tail := Some p, q_mem := (q_mem q)(p \<mapsto> \<lparr>qn_req = r, qn_next = None\<rparr>)\<rparr>"
  have 1: "queue_push p r (q, st) = (q1, st\<lparr>queue_depth := 1\<rparr>)"
    using assms by (simp add: queue_push_def q1_def)
  have "queue_pop (q1, st\<lparr>queue_depth := 1\<rparr>) = Some ((p, r), q1\<lparr>q_head := None, q_tail := None\<rparr>, st)"
    using assms(4) by (simp add: queue_pop_def q1_def)
  moreover have "free_request p (q1\<lparr>q_head := None, q_tail := None\<rparr>) = q"
    using assms(1-3) by (simp add: free_request_def q1_def fun_upd_idem)
  ultimately show thesis using 1 that by blast
qed

lemma create_keeps:
  "clients (fst (with_job k c opn st)) = clients st" "cancel_client_id (fst (with_job k c opn st)) = cancel_client_id st"
  "queue_depth (fst (with_job k c opn st)) = queue_depth st" "tables (fst (with_job k c opn st)) = tables st"
  by (simp_all add: with_job_def job_create_def Let_def)

lemma client_msg_fields:
  "mh_client_id (fst (client_msg c opn bs)) = c" "mh_op_id (fst (client_msg c opn bs)) = opn"
  by (simp_all add: client_msg_def)

text \<open>A request of the client is queued, taken and processed; its answers are what arrives.\<close>

lemma send_request:
  assumes "ready_for c p g" "ic_calloc k = Some p" "opn \<notin> {OP_CONNECT, OP_BYE, OP_JOB_STATUS, OP_JOB_RESULT}"
    and "with_job k c opn (g_state g) = (st0, job)"
    and "process_request L pg calls (client_request fd c opn job bs) (st0, g_files g) = Ok ((st, fs), msgs)"
  shows "lk_send (server_link L pg calls k fd) (client_msg c opn bs) (g, inbox) =
    (True, (g\<lparr>g_state := st, g_files := fs\<rparr>, inbox @ map deliver msgs))"
proof -
  let ?r = "client_request fd c opn job bs"
  have st0: "queue_depth st0 = 0"
    using create_keeps(3) [of k c opn "g_state g"] assms(1,4) by (simp add: ready_for_def)
  obtain q1 where push: "queue_push p ?r (g_queue g, st0) = (q1, st0\<lparr>queue_depth := 1\<rparr>)"
    and pop: "\<exists>q2. queue_pop (q1, st0\<lparr>queue_depth := 1\<rparr>) = Some ((p, ?r), q2, st0) \<and> free_request p q2 = g_queue g"
    using push_pop [of "g_queue g" p st0 ?r] assms(1) st0 by (auto simp: ready_for_def)
  have "ordinary_message k (Message (fst (client_msg c opn bs)) (snd (client_msg c opn bs))) 0
      ([\<lparr>pf_fd = fd, pf_ready = True\<rparr>], g) =
    (([\<lparr>pf_fd = fd, pf_ready = True\<rparr>], g\<lparr>g_queue := q1, g_state := st0\<lparr>queue_depth := 1\<rparr>\<rparr>), [], Stays)"
  proof -
    have req: "\<lparr>rq_fd = fd, rq_client_id = c, rq_op_id = opn, rq_job_id = job,
        rq_payload = snd (client_msg c opn bs), rq_payload_size = msg_size (fst (client_msg c opn bs))\<rparr> = ?r"
      by (simp add: client_request_def client_msg_def)
    have "enqueue_request k fd (fst (client_msg c opn bs)) (snd (client_msg c opn bs)) g =
        (g\<lparr>g_queue := q1, g_state := st0\<lparr>queue_depth := 1\<rparr>\<rparr>, [])"
      unfolding enqueue_request_def assms(2) option.case client_msg_fields assms(4) [unfolded with_job_def]
        Let_def prod.case req push by (rule refl)
    with assms(1,3) show ?thesis
      by (simp add: ordinary_message_def handle_request_def ready_for_def client_msg_fields)
  qed
  moreover obtain q2 where "queue_pop (q1, st0\<lparr>queue_depth := 1\<rparr>) = Some ((p, ?r), q2, st0)" "free_request p q2 = g_queue g"
    using pop by blast
  then have "worker_round L pg calls (g\<lparr>g_queue := q1, g_state := st0\<lparr>queue_depth := 1\<rparr>\<rparr>) =
      Some (g\<lparr>g_state := st, g_files := fs\<rparr>, msgs)"
    using assms(5) by (simp add: worker_round_def)
  moreover have "arriving fd (sent_by [] @ msgs) = map deliver msgs"
  proof -
    have "\<forall>m \<in> set msgs. to_fd m = fd"
      using request_answers [OF assms(5)] by (simp add: well_answered_def client_request_def)
    then show ?thesis by (simp add: arriving_def sent_by_def List.map_filter_simps filter_id_conv)
  qed
  ultimately show ?thesis by (simp add: server_link_def)
qed

section \<open>What a request leaves of readiness\<close>

lemma registered_pairs:
  "is_registered_client c st \<longleftrightarrow>
   (\<exists>x \<in> set (map (\<lambda>e. (ci_fd e, ci_client_id e)) (clients st)). snd x = sint c \<and> 0 < fst x)"
  by (auto simp: is_registered_iff)

lemma touch_registered: "is_registered_client c (client_touch now d st) = is_registered_client c st"
  unfolding registered_pairs clients_touch_same ..

lemma finish_clients: "finish_request calls r rp st = (st', msgs) \<Longrightarrow> clients st' = clients st \<and> queue_depth st' = queue_depth st"
  using finish_fields(2,5) [of calls r rp st] by simp

lemma start_registered: "is_registered_client c (start_request now r st) = is_registered_client c st"
  using touch_registered [of c now "rq_client_id r" st]
  by (simp add: start_request_def is_registered_iff Let_def)

lemma process_ready:
  assumes "process_request L pg calls r (st, fs) = Ok ((st', fs'), msgs)" "cancel_client_id st \<noteq> sint c" "c \<noteq> 0"
  shows "is_registered_client c st' = is_registered_client c st" "queue_depth st' = queue_depth st"
    "cancel_client_id st' \<noteq> sint c"
proof -
  have "is_registered_client c st' = is_registered_client c st \<and> queue_depth st' = queue_depth st"
    using assms(1)
  proof (cases rule: process_request_cases)
    case (cancelled st1 rp)
    then have "clients st1 = clients (start_request (wc_now calls) r st)" "queue_depth st1 = queue_depth st"
      by (auto simp: cancel_request_def)
    with finish_clients [OF cancelled(3)] start_registered [of c "wc_now calls" r st] show ?thesis
      by (simp add: is_registered_iff)
  next
    case (performed st1 rp)
    from perform_request_shape(2) [OF performed(2)]
    have "clients st1 = clients (start_request (wc_now calls) r st)" "queue_depth st1 = queue_depth st"
      by (simp_all add: counters_def)
    with finish_clients [OF performed(3)] start_registered [of c "wc_now calls" r st] show ?thesis
      by (simp add: is_registered_iff)
  qed
  then show "is_registered_client c st' = is_registered_client c st" "queue_depth st' = queue_depth st" by blast+
  show "cancel_client_id st' \<noteq> sint c" by (rule cancel_id_stays [OF assms])
qed

lemma ready_after:
  assumes "ready_for c p g" "with_job k c opn (g_state g) = (st0, job)" "c \<noteq> 0"
    and "process_request L pg calls r (st0, g_files g) = Ok ((st, fs), msgs)"
  shows "ready_for c p (g\<lparr>g_state := st, g_files := fs\<rparr>)" "cancel_client_id st0 \<noteq> sint c" "tables st0 = tables (g_state g)"
proof -
  have 0: "clients st0 = clients (g_state g)" "cancel_client_id st0 = cancel_client_id (g_state g)"
    "queue_depth st0 = queue_depth (g_state g)" "tables st0 = tables (g_state g)"
    using create_keeps [of k c opn "g_state g"] assms(2) by simp_all
  then show "cancel_client_id st0 \<noteq> sint c" "tables st0 = tables (g_state g)"
    using assms(1) by (simp_all add: ready_for_def)
  from process_ready [OF assms(4) this(1) assms(3)] 0 assms(1)
  show "ready_for c p (g\<lparr>g_state := st, g_files := fs\<rparr>)"
    by (simp add: ready_for_def is_registered_iff)
qed

lemma ready_used: "ready_for c p g \<Longrightarrow> c \<noteq> 0"
  by (simp add: ready_for_def)

section \<open>Upload\<close>

text \<open>
  What the client's upload needs of a server: while the client is served, a first request
  starts an empty file, a chunk is appended to it, and each is answered by OK.
\<close>

locale upload_server =
  fixes k :: "'s link" and c :: "32 word" and served :: "'s \<Rightarrow> bool" and stored :: "'s \<Rightarrow> string option"
  assumes begin_law: "served s \<Longrightarrow> \<exists>s1 h resp s2. lk_send k (client_msg c OP_UPLOAD_BEGIN path) s = (True, s1) \<and>
      lk_recv k s1 = (Some (h, resp), s2) \<and> mh_op_id h = OP_OK \<and> served s2 \<and> stored s2 = Some []"
    and chunk_law: "served s \<Longrightarrow> stored s = Some t \<Longrightarrow> bs \<noteq> [] \<Longrightarrow>
      \<exists>s1 h resp s2. lk_send k (client_msg c OP_UPLOAD_CHUNK bs) s = (True, s1) \<and>
        lk_recv k s1 = (Some (h, resp), s2) \<and> mh_op_id h = OP_OK \<and> served s2 \<and> stored s2 = Some (t @ bs)"

text \<open>Reads that succeed, and the bytes they return.\<close>

fun good_reads :: "read_event list \<Rightarrow> bool" where
  "good_reads [] = True"
| "good_reads (Got bs # evs) = (bs \<noteq> [] \<and> good_reads evs)"
| "good_reads (ReadInterrupted # evs) = good_reads evs"
| "good_reads (ReadFails # evs) = False"

fun bytes_read :: "read_event list \<Rightarrow> string" where
  "bytes_read [] = []"
| "bytes_read (Got bs # evs) = bs @ bytes_read evs"
| "bytes_read (_ # evs) = bytes_read evs"

context upload_server begin

lemma chunks_stored:
  "good_reads evs \<Longrightarrow> served s \<Longrightarrow> stored s = Some t \<Longrightarrow>
   \<exists>s'. upload_chunks k c evs s = (s', True) \<and> served s' \<and> stored s' = Some (t @ bytes_read evs)"
proof (induction evs arbitrary: s t)
  case (Cons e evs)
  show ?case
  proof (cases e)
    case (Got bs)
    with Cons.prems have "bs \<noteq> []" "good_reads evs" by simp_all
    from chunk_law [OF Cons.prems(2,3) this(1)] obtain s1 h resp s2 where
      "lk_send k (client_msg c OP_UPLOAD_CHUNK bs) s = (True, s1)" "lk_recv k s1 = (Some (h, resp), s2)"
      "mh_op_id h = OP_OK" "served s2" "stored s2 = Some (t @ bs)" by blast
    with Cons.IH [OF \<open>good_reads evs\<close>, of s2 "t @ bs"] \<open>bs \<noteq> []\<close> Got show ?thesis by simp
  qed (use Cons in simp_all)
qed simp

text \<open>The file arrives; what the last request does with it is up to the server.\<close>

lemma upload_stored:
  assumes "served s" "good_reads evs"
  shows "\<exists>s'. served s' \<and> stored s' = Some (bytes_read evs) \<and>
    upload_file k c path (Some evs) True s =
      (let (s'', good, reply) = request_text k c OP_UPLOAD_END [] s' in (s'', good))"
proof -
  from begin_law [OF assms(1)] obtain s1 h resp s2 where
    b: "lk_send k (client_msg c OP_UPLOAD_BEGIN (cstr path)) s = (True, s1)" "lk_recv k s1 = (Some (h, resp), s2)"
    "mh_op_id h = OP_OK" "served s2" "stored s2 = Some []" by blast
  with chunks_stored [OF assms(2) b(4,5)] show ?thesis
    by (auto simp: upload_file_def request_text_def)
qed

end

text \<open>A request that is answered by a text.\<close>

lemma process_answer:
  assumes "cancel_client_id st \<noteq> sint (rq_client_id r)"
    "perform_request L pg calls r (start_request (wc_now calls) r st, fs) = Ok ((st1, fs1), answer opn s)"
  shows "\<exists>st' t. process_request L pg calls r (st, fs) =
    Ok ((st', fs1), [respond_text (rq_fd r) (rq_client_id r) opn t]) \<and> tables st' = tables st1"
  using process_performed [OF assms] finish_fields(1) [of calls r "answer opn s" st1] finish_unsent by auto

lemma recv_next [simp]: "lk_recv (server_link L pg calls k fd) (g, m # ms) = (Some m, (g, ms))"
  by (simp add: server_link_def)

lemma deliver_text: "deliver (respond_text fd c opn t) = client_msg c opn t"
  by (simp add: deliver_def respond_text_def)

lemma client_msg_parts:
  "msg_size (fst (client_msg c opn bs)) = word_of_nat (length bs)"
  "snd (client_msg c opn bs) = (if bs = [] then None else Some bs)"
  by (simp_all add: client_msg_def)

text \<open>A client that the server serves without errors of the system.\<close>

locale served_client =
  fixes L :: "'j cjson" and pg :: "string \<Rightarrow> string option" and calls :: worker_calls and k :: iface_calls
    and p :: nat and fd :: int and c :: "32 word"
  assumes calloc: "ic_calloc k = Some p" and opens: "wc_upload_open calls = None"
    and appends: "wc_append calls = None"
begin

abbreviation server :: "(globals \<times> message list) link" where
  "server \<equiv> server_link L pg calls k fd"

text \<open>One request and its only answer.\<close>

lemma served_request:
  assumes "ready_for c p g" "opn \<notin> {OP_CONNECT, OP_BYE, OP_JOB_STATUS, OP_JOB_RESULT}"
    and "\<And>st job. tables st = tables (g_state g) \<Longrightarrow>
      \<exists>st1. perform_request L pg calls (client_request fd c opn job bs) (st, g_files g) =
        Ok ((st1, fs1), answer opn' s) \<and> tables st1 = ts"
  shows "\<exists>g' t. lk_send server (client_msg c opn bs) (g, inbox) =
      (True, (g', inbox @ [deliver (respond_text fd c opn' t)])) \<and>
    ready_for c p g' \<and> g_files g' = fs1 \<and> tables (g_state g') = ts"
proof -
  obtain st0 job where j: "with_job k c opn (g_state g) = (st0, job)" by fastforce
  let ?r = "client_request fd c opn job bs"
  have nc: "cancel_client_id st0 \<noteq> sint (rq_client_id ?r)" "tables st0 = tables (g_state g)"
    using create_keeps(2,4) [of k c opn "g_state g"] j assms(1) by (simp_all add: ready_for_def client_request_def)
  obtain st1 where st1: "perform_request L pg calls ?r (start_request (wc_now calls) ?r st0, g_files g) =
      Ok ((st1, fs1), answer opn' s)" "tables st1 = ts"
    using assms(3) [of "start_request (wc_now calls) ?r st0" job] nc(2) by auto
  from process_answer [OF nc(1) st1(1)] obtain st' t where
    "process_request L pg calls ?r (st0, g_files g) = Ok ((st', fs1), [respond_text (rq_fd ?r) (rq_client_id ?r) opn' t])"
    and ts: "tables st' = tables st1" by blast
  then have p: "process_request L pg calls ?r (st0, g_files g) = Ok ((st', fs1), [respond_text fd c opn' t])"
    by (simp only: client_request_def Request.simps)
  have sent: "lk_send server (client_msg c opn bs) (g, inbox) =
      (True, (g\<lparr>g_state := st', g_files := fs1\<rparr>, inbox @ [deliver (respond_text fd c opn' t)]))"
    using send_request [OF assms(1) calloc assms(2) j p, of inbox] by (simp only: list.map)
  show ?thesis
    by (intro exI conjI, rule sent) (simp_all add: ready_after(1) [OF assms(1) j ready_used [OF assms(1)] p] ts st1(2))
qed

lemma served_answer:
  "\<exists>h resp. lk_recv server (g, [deliver (respond_text fd c opn t)]) = (Some (h, resp), (g, [])) \<and> mh_op_id h = opn"
  by (simp add: server_link_def deliver_def respond_text_def client_msg_def)

end

sublocale served_client \<subseteq> upload_server "server_link L pg calls k fd" c "\<lambda>(g, inbox). inbox = [] \<and> ready_for c p g"
  "\<lambda>(g, inbox). g_files g (upload_path c)"
proof
  fix s :: "globals \<times> message list" and path
  assume "case s of (g, inbox) \<Rightarrow> inbox = [] \<and> ready_for c p g"
  then obtain g where s: "s = (g, [])" "ready_for c p g" by (cases s) auto
  have "\<exists>st1. perform_request L pg calls (client_request fd c OP_UPLOAD_BEGIN job path) (st, g_files g) =
      Ok ((st1, (g_files g)(upload_path c \<mapsto> [])), answer OP_OK ''OK: upload started'') \<and> tables st1 = tables (g_state g)"
    if "tables st = tables (g_state g)" for st job
    using that opens by (simp add: perform_request_def client_request_def upload_begin_def)
  from served_request [OF s(2) _ this, of "[]"] obtain g' t where
    "lk_send server (client_msg c OP_UPLOAD_BEGIN path) (g, []) = (True, (g', [deliver (respond_text fd c OP_OK t)]))"
    "ready_for c p g'" "g_files g' = (g_files g)(upload_path c \<mapsto> [])" by auto
  then show "\<exists>s1 h resp s2. lk_send server (client_msg c OP_UPLOAD_BEGIN path) s = (True, s1) \<and>
      lk_recv server s1 = (Some (h, resp), s2) \<and> mh_op_id h = OP_OK \<and>
      (case s2 of (g, inbox) \<Rightarrow> inbox = [] \<and> ready_for c p g) \<and> (case s2 of (g, inbox) \<Rightarrow> g_files g (upload_path c)) = Some []"
    using served_answer [of g' OP_OK t] unfolding s(1) by (elim exE conjE) (intro exI conjI, assumption+, simp_all)
next
  fix s :: "globals \<times> message list" and t bs :: string
  assume "case s of (g, inbox) \<Rightarrow> inbox = [] \<and> ready_for c p g"
    and "(case s of (g, inbox) \<Rightarrow> g_files g (upload_path c)) = Some t" and bs: "bs \<noteq> []"
  then obtain g where s: "s = (g, [])" "ready_for c p g" "g_files g (upload_path c) = Some t" by (cases s) auto
  have "\<exists>st1. perform_request L pg calls (client_request fd c OP_UPLOAD_CHUNK job bs) (st, g_files g) =
      Ok ((st1, (g_files g)(upload_path c \<mapsto> t @ bs)),
        answer OP_OK (''OK: chunk stored ('' @ udec (word_of_nat (length bs)) @ '' bytes)'')) \<and>
      tables st1 = tables (g_state g)"
    if "tables st = tables (g_state g)" for st job
    using that appends bs s(3)
    by (simp add: perform_request_def client_request_def upload_chunk_def append_upload_chunk_def)
  from served_request [OF s(2) _ this, of "[]"] obtain g' u where
    "lk_send server (client_msg c OP_UPLOAD_CHUNK bs) (g, []) = (True, (g', [deliver (respond_text fd c OP_OK u)]))"
    "ready_for c p g'" "g_files g' = (g_files g)(upload_path c \<mapsto> t @ bs)" by auto
  then show "\<exists>s1 h resp s2. lk_send server (client_msg c OP_UPLOAD_CHUNK bs) s = (True, s1) \<and>
      lk_recv server s1 = (Some (h, resp), s2) \<and> mh_op_id h = OP_OK \<and>
      (case s2 of (g, inbox) \<Rightarrow> inbox = [] \<and> ready_for c p g) \<and>
      (case s2 of (g, inbox) \<Rightarrow> g_files g (upload_path c)) = Some (t @ bs)"
    using served_answer [of g' OP_OK u] unfolding s(1) by (elim exE conjE) (intro exI conjI, assumption+, simp_all)
qed

section \<open>Upload and download of a session\<close>

context served_client begin

lemma upload_ends:
  assumes "ready_for c p g" "g_files g (upload_path c) = Some s"
    and "wc_reader calls (Some s) = plain_file s" "0 < length s" "length s \<le> MAX_ER_FILE_SIZE"
    and "cj_parse L s = Some root" "schema_node L root ts" "fresh_tables ts"
  shows "\<exists>g' reply. request_text server c OP_UPLOAD_END [] (g, []) = ((g', []), True, reply) \<and>
    ready_for c p g' \<and> tables (g_state g') = ts"
proof -
  have load: "load_er_json L (wc_reader calls (g_files g (upload_path c))) st = (st\<lparr>tables := ts\<rparr>, Inr (length ts))" for st
    unfolding assms(2,3) by (rule load_schema_node [OF read_plain_file [OF assms(4,5)] assms(6-8)])
  have "\<exists>st1. perform_request L pg calls (client_request fd c OP_UPLOAD_END job []) (st, g_files g) =
      Ok ((st1, g_files g), answer OP_OK (''OK: '' @ snprintf ERR_SIZE (load_message (Inr (length ts))))) \<and>
      tables st1 = ts" for st job
    using load by (simp add: perform_request_def client_request_def upload_end_def)
  from served_request [OF assms(1) _ this, of "[]"] obtain g' t where
    r: "lk_send server (client_msg c OP_UPLOAD_END []) (g, []) = (True, (g', [deliver (respond_text fd c OP_OK t)]))"
      "ready_for c p g'" "tables (g_state g') = ts" by auto
  with served_answer [of g' OP_OK t] show ?thesis by (auto simp: request_text_def cstr_def)
qed

lemma upload_loads:
  assumes "ready_for c p g" "good_reads evs"
    and "wc_reader calls (Some (bytes_read evs)) = plain_file (bytes_read evs)"
    and "0 < length (bytes_read evs)" "length (bytes_read evs) \<le> MAX_ER_FILE_SIZE"
    and "cj_parse L (bytes_read evs) = Some root" "schema_node L root ts" "fresh_tables ts"
  shows "\<exists>g'. upload_file server c path (Some evs) True (g, []) = ((g', []), True) \<and>
    ready_for c p g' \<and> tables (g_state g') = ts"
proof -
  obtain g1 where "ready_for c p g1" "g_files g1 (upload_path c) = Some (bytes_read evs)"
    and u: "upload_file server c path (Some evs) True (g, []) =
      (let (s'', good, reply) = request_text server c OP_UPLOAD_END [] (g1, []) in (s'', good))"
    using upload_stored [of "(g, [])" evs path] assms(1,2) by auto
  with upload_ends [OF this(1,2) assms(3-8)] show ?thesis by auto
qed

text \<open>The loop of the download reads the parts of the file in order.\<close>

lemma download_parts:
  assumes "\<And>n. writes n = None"
  shows "\<forall>s \<in> set parts. s \<noteq> [] \<and> length s < 2 ^ 32 \<Longrightarrow>
    download_loop server writes True n out
      (g, map deliver (map (respond_text fd c OP_DOWNLOAD_CHUNK) parts @ [respond_text fd c OP_DOWNLOAD_END u])) =
    Some ((g, []), out @ concat parts, True)"
proof (induction parts arbitrary: n out)
  case Nil
  then show ?case
    by (simp add: download_loop.simps [of server] deliver_text client_msg_def)
next
  case (Cons s parts)
  from Cons.prems have "0 < (word_of_nat (length s) :: 32 word)"
    by (simp add: word_less_nat_alt unsigned_of_nat take_bit_nat_eq_self)
  with Cons.prems Cons.IH [of "Suc n" "out @ s"] show ?case
    by (subst download_loop.simps)
      (simp add: deliver_text case_prod_unfold client_msg_fields client_msg_parts payload_bytes_def assms [of n])
qed

text \<open>What the server sends for a download, and the loop over it.\<close>

lemma served_download:
  assumes "ready_for c p g" "wc_sql calls = None"
  shows "\<exists>g'. lk_send server (client_msg c OP_DOWNLOAD_SQL []) (g, []) = (True, (g',
      deliver (respond_text fd c OP_DOWNLOAD_BEGIN (download_begin_text c (generate_sql (g_state g) SQL_BUFFER))) #
      map deliver (map (respond_text fd c OP_DOWNLOAD_CHUNK) (file_chunks SQLCG_FILE_CHUNK (generate_sql (g_state g) SQL_BUFFER))
        @ [respond_text fd c OP_DOWNLOAD_END ''OK'']))) \<and>
    ready_for c p g' \<and> tables (g_state g') = tables (g_state g)"
proof -
  obtain st0 job where j: "with_job k c OP_DOWNLOAD_SQL (g_state g) = (st0, job)" by fastforce
  let ?r = "client_request fd c OP_DOWNLOAD_SQL job []"
  let ?st = "start_request (wc_now calls) ?r st0"
  have nc: "cancel_client_id st0 \<noteq> sint (rq_client_id ?r)" and ts: "tables st0 = tables (g_state g)"
    using ready_after(2) create_keeps(2,4) [of k c OP_DOWNLOAD_SQL "g_state g"] j assms(1)
    by (simp_all add: ready_for_def client_request_def)
  then have gen: "generate_sql ?st SQL_BUFFER = generate_sql (g_state g) SQL_BUFFER"
    by (simp add: generate_sql_def)
  define msgs where "msgs = respond_text fd c OP_DOWNLOAD_BEGIN (download_begin_text c (generate_sql (g_state g) SQL_BUFFER)) #
      map (respond_text fd c OP_DOWNLOAD_CHUNK) (file_chunks SQLCG_FILE_CHUNK (generate_sql (g_state g) SQL_BUFFER))
        @ [respond_text fd c OP_DOWNLOAD_END ''OK'']"
  obtain rp st1 where d: "perform_request L pg calls ?r (?st, g_files g) = Ok ((st1, g_files g), rp)"
      "response_sent rp" "sent_before rp = msgs" "tables st1 = tables (g_state g)"
    using assms(2) gen ts unfolding msgs_def
    by (simp add: perform_request_def download_sql_request_def send_generated_sql_file_def Let_def client_request_def answer_def)
  define st' where "st' = fst (finish_request calls ?r rp st1)"
  have "snd (finish_request calls ?r rp st1) = msgs"
    using d(2,3) by (simp add: finish_request_def Let_def final_reply_def)
  with process_performed [OF nc d(1)]
  have pr: "process_request L pg calls ?r (st0, g_files g) = Ok ((st', g_files g), msgs)" by (simp add: st'_def)
  have sent: "lk_send server (client_msg c OP_DOWNLOAD_SQL []) (g, []) =
      (True, (g\<lparr>g_state := st', g_files := g_files g\<rparr>, map deliver msgs))"
    using send_request [OF assms(1) calloc _ j pr, of "[]"] by simp
  show ?thesis
    by (intro exI conjI, rule sent [unfolded msgs_def list.map])
      (use ready_after(1) [OF assms(1) j ready_used [OF assms(1)] pr] d(4) in \<open>simp_all add: st'_def\<close>)
qed

lemma download_saves:
  assumes "ready_for c p g" "wc_sql calls = None" "\<And>n. writes n = None"
  shows "\<exists>g'. download_sql_file server c True writes (g, []) =
      Some ((g', []), Some (generate_sql (g_state g) SQL_BUFFER), True) \<and>
    ready_for c p g' \<and> tables (g_state g') = tables (g_state g)"
proof -
  let ?parts = "file_chunks SQLCG_FILE_CHUNK (generate_sql (g_state g) SQL_BUFFER)"
  let ?v = "download_begin_text c (generate_sql (g_state g) SQL_BUFFER)"
  obtain g' where s: "lk_send server (client_msg c OP_DOWNLOAD_SQL []) (g, []) = (True, (g',
      deliver (respond_text fd c OP_DOWNLOAD_BEGIN ?v) #
      map deliver (map (respond_text fd c OP_DOWNLOAD_CHUNK) ?parts @ [respond_text fd c OP_DOWNLOAD_END ''OK''])))"
    "ready_for c p g'" "tables (g_state g') = tables (g_state g)"
    using served_download [OF assms(1,2)] by blast
  have "\<forall>s \<in> set ?parts. s \<noteq> [] \<and> length s < 2 ^ 32"
    using file_chunks_bounds by fastforce
  from download_parts [where writes = writes and n = 0 and out = "[]", OF assms(3) this, of g' "''OK''"]
  have "download_loop server writes False 0 []
      (g', deliver (respond_text fd c OP_DOWNLOAD_BEGIN ?v) #
        map deliver (map (respond_text fd c OP_DOWNLOAD_CHUNK) ?parts @ [respond_text fd c OP_DOWNLOAD_END ''OK''])) =
    Some ((g', []), generate_sql (g_state g) SQL_BUFFER, True)"
    by (subst download_loop.simps)
      (simp add: deliver_text client_msg_def concat_file_chunks)
  with s show ?thesis by (simp add: download_sql_file_def)
qed

text \<open>Where the local file is not created, the parts of the download stay unread.\<close>

lemma not_created:
  assumes "ready_for c p g" "wc_sql calls = None"
  shows "\<exists>s'. download_sql_file server c False writes (g, []) = Some (s', None, False) \<and>
    snd (request_text server c OP_GENERATE_SQL [] s') =
      (False, Some (download_begin_text c (generate_sql (g_state g) SQL_BUFFER)))"
proof -
  let ?v = "download_begin_text c (generate_sql (g_state g) SQL_BUFFER)"
  obtain g1 rest where s: "lk_send server (client_msg c OP_DOWNLOAD_SQL []) (g, []) =
      (True, (g1, client_msg c OP_DOWNLOAD_BEGIN ?v # rest))" "ready_for c p g1"
    using served_download [OF assms] by (auto simp: deliver_text)
  have "\<exists>st1. perform_request L pg calls (client_request fd c OP_GENERATE_SQL job []) (st, g_files g1) =
      Ok ((st1, g_files g1), answer OP_OK (generate_sql (g_state g1) RESPONSE_SIZE)) \<and> tables st1 = tables (g_state g1)"
    if "tables st = tables (g_state g1)" for st job
    using that by (simp add: perform_request_def client_request_def generate_sql_request_def generate_sql_def)
  from served_request [OF s(2) _ this, of "client_msg c OP_DOWNLOAD_BEGIN ?v # rest"] obtain g2 t where
    "lk_send server (client_msg c OP_GENERATE_SQL []) (g1, client_msg c OP_DOWNLOAD_BEGIN ?v # rest) =
      (True, (g2, client_msg c OP_DOWNLOAD_BEGIN ?v # rest @ [deliver (respond_text fd c OP_OK t)]))" by auto
  moreover have "?v \<noteq> []" by (simp add: download_begin_text_def snprintf_def)
  ultimately show ?thesis
    using s(1) by (simp add: download_sql_file_def request_text_def client_msg_def cstr_def)
qed

end

text \<open>Whatever else the system answers, the server serves the client once memory and files are there.\<close>

interpretation fortunate: served_client L pg "calls\<lparr>wc_upload_open := None, wc_append := None\<rparr>" "k\<lparr>ic_calloc := Some p\<rparr>" p fd c
  for L :: "'j cjson" and pg calls k p fd c
  by unfold_locales simp_all

lemma fortunate_calls:
  "wc_upload_open calls = None \<Longrightarrow> wc_append calls = None \<Longrightarrow>
   calls\<lparr>wc_upload_open := None, wc_append := None\<rparr> = calls"
  "ic_calloc k = Some p \<Longrightarrow> k\<lparr>ic_calloc := Some p\<rparr> = k"
  by (cases calls, simp) (cases k, simp)

text \<open>A session after the handshake that uploads and downloads.\<close>

lemma session_saves:
  assumes "ready_for c p g" and "ic_calloc k = Some p"
    and "wc_upload_open calls = None" and "wc_append calls = None" and "wc_sql calls = None"
    and "co_input opts = Some path" and "\<not> co_generate opts" and "co_download opts = Some out"
    and "co_insert opts = None" and "co_no_repl opts"
    and "ce_open env path = Some evs" and "good_reads evs" and "ce_malloc env" and "ce_create env out"
    and "\<And>n. ce_writes env n = None"
    and "wc_reader calls (Some (bytes_read evs)) = plain_file (bytes_read evs)"
    and "0 < length (bytes_read evs)" and "length (bytes_read evs) \<le> MAX_ER_FILE_SIZE"
    and "cj_parse L (bytes_read evs) = Some root" and "schema_node L root ts" and "fresh_tables ts" and "length ts \<le> 7"
  shows "\<exists>cs. client_session (server_link L pg calls k fd) env opts typed c ((g, []), fs) = Some (cs, 0) \<and>
    snd cs out = Some (schema_ddl ts)"
proof -
  note eqs = fortunate_calls(1) [OF assms(3,4)] fortunate_calls(2) [OF assms(2)]
  obtain g1 where up: "upload_file (server_link L pg calls k fd) c path (Some evs) True (g, []) = ((g1, []), True)"
    "ready_for c p g1" "tables (g_state g1) = ts"
    using fortunate.upload_loads [where calls = calls and k = k and p = p, unfolded eqs, OF assms(1,12,16-21)] by blast
  obtain g2 where down: "download_sql_file (server_link L pg calls k fd) c True (ce_writes env) (g1, []) =
      Some ((g2, []), Some (generate_sql (g_state g1) SQL_BUFFER), True)"
    using fortunate.download_saves [where calls = calls and k = k and p = p and writes = "ce_writes env", unfolded eqs,
        OF up(2) assms(5,15)] by blast
  have "wf_tables ts" using assms(21) by (simp add: fresh_tables_def)
  then have ddl: "generate_sql (g_state g1) SQL_BUFFER = schema_ddl ts"
    using generate_sql_fits [of "g_state g1"] up(3) assms(22) by (simp only:)
  obtain s' good where bye: "ask (server_link L pg calls k fd) c OP_BYE [] ((g2, []), fs(out \<mapsto> schema_ddl ts)) =
      ((s', fs(out \<mapsto> schema_ddl ts)), good)"
    by (fastforce simp: ask_def split: prod.splits)
  show ?thesis
    using assms(6-11,13,14) up(1) down [unfolded ddl] bye
    by (simp add: client_session_def asked_for_def do_upload_def do_download_def saved_def)
qed

section \<open>The handshake\<close>

text \<open>The server can take another connection, and nothing waits for the worker.\<close>

definition accepts_client :: "nat \<Rightarrow> globals \<Rightarrow> bool" where
  "accepts_client p g \<longleftrightarrow> clients_ok (g_state g) \<and> free_slot (g_state g) \<and> next_client_id (g_state g) < 2 ^ 31 \<and>
     cancel_client_id (g_state g) \<noteq> next_client_id (g_state g) \<and> queue_depth (g_state g) = 0 \<and>
     q_head (g_queue g) = None \<and> q_tail (g_queue g) = None \<and> q_mem (g_queue g) p = None"

lemma strtoul_dec: "n < 2 ^ 64 \<Longrightarrow> strtoul (dec n) = n"
proof -
  assume "n < 2 ^ 64"
  have tk: "takeWhile isdigit (dec n) = dec n" "dropWhile isspace (dec n) = dec n"
    using dec_digits [of _ n] hd_dec_digit [of n] isdigit_not_sign
    by (auto simp: takeWhile_eq_all_conv intro!: dropWhile_all_not)
  have "peek (dec n) = hd (dec n)" by (cases "dec n") auto
  with \<open>n < 2 ^ 64\<close> isdigit_not_sign [OF hd_dec_digit [of n]] show ?thesis
    by (simp add: strtoul_def Let_def tk)
qed

lemma udec_plain: "cstr (udec c) = udec c" "udec c \<noteq> []"
  using dec_digits [of NUL "unat c"] isdigit_not_sign [of NUL] by (auto simp: udec_def intro!: cstr_id)

lemma connect_fields:
  "connect_client now fd addr st = (st', c) \<Longrightarrow> queue_depth st' = queue_depth st \<and> cancel_client_id st' = cancel_client_id st"
  by (auto simp: connect_client_def register_client_def Let_def split: option.split)

lemma handshake:
  assumes "accepts_client p g" "0 < fd"
  shows "\<exists>g' c. connect_protocol (server_link L pg calls k fd) (g, []) = ((g', []), Ok c) \<and> ready_for c p g'"
proof -
  let ?st = "g_state g" and ?ip = "fd_addr_get fd (g_fd_addrs g)"
  obtain st' c where conn: "connect_client (ic_now k) fd ?ip ?st = (st', c)" by fastforce
  have c: "sint c = next_client_id ?st"
    using assms(1) conn sint_of_id [of "next_client_id ?st"]
    by (auto simp: connect_client_def Let_def clients_ok_def accepts_client_def)
  have c0: "c \<noteq> 0" using c assms(1) by (auto simp: accepts_client_def clients_ok_def)
  let ?g = "g\<lparr>g_state := history_add ''client connected'' st'\<rparr>"
  have "is_registered_client c st'"
    using registered_connect [OF _ assms(2) conn] assms(1) by (simp add: accepts_client_def)
  then have ready: "ready_for c p ?g"
    using assms(1) c connect_fields [OF conn]
    by (simp add: ready_for_def accepts_client_def is_registered_iff history_add_def c0)
  have "lk_send (server_link L pg calls k fd) (client_msg 0 OP_CONNECT []) (g, []) =
      (True, (?g, [client_msg c OP_OK (udec c)]))"
    using assms(1) conn length_udec [of c]
    by (simp add: server_link_def ordinary_message_def handle_connect_def client_msg_fields worker_round_def
        accepts_client_def queue_pop_def snprintf_fits sent_by_def List.map_filter_simps arriving_def deliver_text)
      (simp add: respond_text_def)
  moreover have "strtoul (udec c) = unat c"
    using strtoul_dec [of "unat c"] unsigned_less [of c, where 'a = nat] by (simp add: udec_def)
  ultimately have "request_text (server_link L pg calls k fd) 0 OP_CONNECT [] (g, []) = ((?g, []), True, Some (udec c))"
      "strtoul (cstr (udec c)) = unat c"
    using udec_plain [of c] by (simp_all add: request_text_def cstr_def [of "[]"] client_msg_def [of c])
  then have "connect_protocol (server_link L pg calls k fd) (g, []) = ((?g, []), Ok c)"
    using c0 by (simp add: connect_protocol_def)
  with ready show ?thesis by blast
qed

text \<open>
  From the JSON file to the SQL file.  A client that is started with an upload and a
  download connects, ends with exit code 0 and leaves in its local file the complete CREATE
  TABLE text of the schema that the uploaded JSON describes, however the reads split the file
  into chunks and however many parts the download has.
\<close>

theorem client_saves_ddl:
  assumes "accepts_client p g" and "ic_calloc k = Some p" and "0 < fd"
    and "wc_upload_open calls = None" and "wc_append calls = None" and "wc_sql calls = None"
    and "co_input opts = Some path" and "\<not> co_generate opts" and "co_download opts = Some out"
    and "co_insert opts = None" and "co_no_repl opts"
    and "ce_open env path = Some evs" and "good_reads evs" and "ce_malloc env" and "ce_create env out"
    and "\<And>n. ce_writes env n = None"
    and "wc_reader calls (Some (bytes_read evs)) = plain_file (bytes_read evs)"
    and "0 < length (bytes_read evs)" and "length (bytes_read evs) \<le> MAX_ER_FILE_SIZE"
    and "cj_parse L (bytes_read evs) = Some root" and "schema_node L root ts" and "fresh_tables ts" and "length ts \<le> 7"
  shows "\<exists>cs. client_main (server_link L pg calls k fd) env opts typed ((g, []), fs) = Ok (Some (cs, 0)) \<and>
    snd cs out = Some (schema_ddl ts)"
proof -
  obtain g1 c where hs: "connect_protocol (server_link L pg calls k fd) (g, []) = ((g1, []), Ok c)" "ready_for c p g1"
    using handshake [OF assms(1,3)] by blast
  from session_saves [OF hs(2) assms(2,4-)] hs(1) show ?thesis
    by (simp add: client_main_def)
qed


section \<open>Witnesses\<close>

text \<open>Client 1 on descriptor 7; a file that is read in two pieces, and written without errors.\<close>

abbreviation calm_iface :: iface_calls where
  "calm_iface \<equiv> \<lparr>ic_now = 4, ic_calloc = Some 1\<rparr>"

abbreviation example_link :: "(globals \<times> message list) link" where
  "example_link \<equiv> server_link (json_lib (\<lambda>_. Some example_json)) Some calm calm_iface 7"

definition example_env :: client_env where
  "example_env = \<lparr>ce_open = (\<lambda>_. Some [Got ''{'', ReadInterrupted, Got ''}'']), ce_size = (\<lambda>_. Some 2),
     ce_malloc = True, ce_create = (\<lambda>_. True), ce_writes = (\<lambda>_. None)\<rparr>"

definition example_options :: client_options where
  "example_options = default_options\<lparr>co_input := Some ''er.json'', co_download := Some ''out.sql'', co_no_repl := True\<rparr>"

lemma one_client_ready: "ready_for 1 1 one_client"
  by (simp add: ready_for_def one_client_def globals_init_def is_registered_iff first_client queue_init_def)
    (simp add: new_client_def connect_client_def register_client_def state_init_def Let_def split: option.split)

theorem client_saves_ddl_witness:
  "\<exists>cs. client_main example_link example_env example_options [] ((globals_init 0, []), \<lambda>_. None) = Ok (Some (cs, 0)) \<and>
    snd cs ''out.sql'' = Some (schema_ddl example_tables)"
proof -
  have "accepts_client 1 (globals_init 0)"
    using clients_ok_init [of 0] init_free by (simp add: accepts_client_def globals_init_def queue_init_def state_init_def)
  then show ?thesis
    by (rule client_saves_ddl [where path = "''er.json''" and evs = "[Got ''{'', ReadInterrupted, Got ''}'']" and
          root = example_json])
      (use example_schema_node in \<open>simp_all add: calm_def example_env_def example_options_def default_options_def
        json_lib_def example_tables_def\<close>)
qed


end
