(* ===== verification/Wire.thy ===== *)
theory Wire
  imports ClientServer
begin

text \<open>
  The client and the server over bytes.  \<open>ClientServer\<close> hands whole messages from one to the
  other; here each message goes through \<open>send_message\<close> with its short writes, the network cuts
  the bytes as it likes, and \<open>recv_message\<close> puts them together again.  The client cannot tell
  the difference, so that what is proved of it over messages holds over bytes.
\<close>

section \<open>Connections that cannot be told apart\<close>

text \<open>
  Two connections answer alike in related states.  The messages are those the client sends:
  the ones within the limit of the protocol.
\<close>

locale link_simulation =
  fixes k1 :: "'a link" and k2 :: "'b link" and R :: "'a \<Rightarrow> 'b \<Rightarrow> bool"
  assumes send_sim: "R a b \<Longrightarrow> length bs \<le> SQLCG_MAX_PAYLOAD \<Longrightarrow> lk_send k1 (client_msg c opn bs) a = (r, a') \<Longrightarrow>
      \<exists>b'. lk_send k2 (client_msg c opn bs) b = (r, b') \<and> R a' b'"
    and recv_sim: "R a b \<Longrightarrow> lk_recv k1 a = (m, a') \<Longrightarrow> \<exists>b'. lk_recv k2 b = (m, b') \<and> R a' b'"

text \<open>Reads of at most the limit at a time; the client asks for 64 KiB.\<close>

definition small_reads :: "read_event list \<Rightarrow> bool" where
  "small_reads evs \<longleftrightarrow> (\<forall>bs. Got bs \<in> set evs \<longrightarrow> length bs \<le> SQLCG_MAX_PAYLOAD)"

lemma small_reads_Cons: "small_reads (e # evs) \<longleftrightarrow> small_reads evs \<and> (\<forall>bs. e = Got bs \<longrightarrow> length bs \<le> SQLCG_MAX_PAYLOAD)"
  by (auto simp: small_reads_def)

lemma length_cstr: "length (cstr s) \<le> length s"
  by (simp add: cstr_def length_takeWhile_le)

context link_simulation begin

lemma request_sim:
  assumes "R a b" "length payload \<le> SQLCG_MAX_PAYLOAD" "request_text k1 c opn payload a = (a', x)"
  shows "\<exists>b'. request_text k2 c opn payload b = (b', x) \<and> R a' b'"
proof -
  obtain r a1 where s1: "lk_send k1 (client_msg c opn (cstr payload)) a = (r, a1)" by fastforce
  have "length (cstr payload) \<le> SQLCG_MAX_PAYLOAD" using assms(2) length_cstr order_trans by blast
  from send_sim [OF assms(1) this s1] obtain b1 where
    s2: "lk_send k2 (client_msg c opn (cstr payload)) b = (r, b1)" "R a1 b1" by blast
  obtain m a2 where r1: "lk_recv k1 a1 = (m, a2)" by fastforce
  from recv_sim [OF s2(2) this] obtain b2 where r2: "lk_recv k2 b1 = (m, b2)" "R a2 b2" by blast
  from assms(3) s1 s2 r1 r2 show ?thesis
    by (cases r; cases m) (auto simp: request_text_def split: prod.splits)
qed

lemma connect_sim:
  assumes "R a b" "connect_protocol k1 a = (a', x)"
  shows "\<exists>b'. connect_protocol k2 b = (b', x) \<and> R a' b'"
proof -
  obtain a1 y where r1: "request_text k1 0 OP_CONNECT [] a = (a1, y)" by (metis prod.collapse)
  from request_sim [OF assms(1) _ this] obtain b1 where
    r2: "request_text k2 0 OP_CONNECT [] b = (b1, y)" "R a1 b1" by auto
  obtain good reply where y: "y = (good, reply)" by fastforce
  from assms(2) r1 r2 y show ?thesis
    by (cases good; cases reply) (auto simp: connect_protocol_def Let_def)
qed

lemma chunks_sim:
  "upload_chunks k1 c evs a = (a', x) \<Longrightarrow> R a b \<Longrightarrow> small_reads evs \<Longrightarrow>
   \<exists>b'. upload_chunks k2 c evs b = (b', x) \<and> R a' b'"
proof (induction evs arbitrary: a b)
  case (Cons e evs)
  show ?case
  proof (cases e)
    case (Got buf)
    show ?thesis
    proof (cases "buf = []")
      case False
      with Cons.prems(3) Got have small: "length buf \<le> SQLCG_MAX_PAYLOAD" "small_reads evs"
        by (simp_all add: small_reads_Cons)
      obtain r a1 where s1: "lk_send k1 (client_msg c OP_UPLOAD_CHUNK buf) a = (r, a1)" by fastforce
      from send_sim [OF Cons.prems(2) small(1) this] obtain b1 where
        s2: "lk_send k2 (client_msg c OP_UPLOAD_CHUNK buf) b = (r, b1)" "R a1 b1" by blast
      obtain m a2 where r1: "lk_recv k1 a1 = (m, a2)" by fastforce
      from recv_sim [OF s2(2) this] obtain b2 where r2: "lk_recv k2 b1 = (m, b2)" "R a2 b2" by blast
      from Cons.IH [OF _ r2(2) small(2)] Cons.prems(1) Got False s1 s2 r1 r2 show ?thesis
        by (cases r; cases m) (auto split: if_splits)
    qed (use Cons.prems Got in auto)
  qed (use Cons in \<open>auto simp: small_reads_Cons\<close>)
qed simp

lemma upload_sim:
  assumes "R a b" "length path \<le> SQLCG_MAX_PAYLOAD" "\<forall>evs. src = Some evs \<longrightarrow> small_reads evs"
    and "upload_file k1 c path src malloc a = (a', x)"
  shows "\<exists>b'. upload_file k2 c path src malloc b = (b', x) \<and> R a' b'"
proof (cases src)
  case (Some evs)
  obtain a1 good reply where r1: "request_text k1 c OP_UPLOAD_BEGIN path a = (a1, good, reply)" by (metis prod.collapse)
  from request_sim [OF assms(1,2) this] obtain b1 where
    r2: "request_text k2 c OP_UPLOAD_BEGIN path b = (b1, good, reply)" "R a1 b1" by blast
  show ?thesis
  proof (cases "good \<and> malloc")
    case True
    obtain a2 y where u1: "upload_chunks k1 c evs a1 = (a2, y)" by fastforce
    from chunks_sim [OF this r2(2)] assms(3) Some obtain b2 where
      u2: "upload_chunks k2 c evs b1 = (b2, y)" "R a2 b2" by blast
    obtain a3 z where e1: "request_text k1 c OP_UPLOAD_END [] a2 = (a3, z)" by (metis prod.collapse)
    from request_sim [OF u2(2) _ this] obtain b3 where
      e2: "request_text k2 c OP_UPLOAD_END [] b2 = (b3, z)" "R a3 b3" by auto
    from assms(4) Some True r1 r2 u1 u2 e1 e2 show ?thesis
      by (cases y; cases z) (auto simp: upload_file_def)
  next
    case False
    with assms(4) Some r1 r2 show ?thesis by (cases good) (auto simp: upload_file_def)
  qed
qed (use assms in \<open>simp add: upload_file_def\<close>)

definition answers_alike ::
  "'a link \<Rightarrow> (nat \<Rightarrow> nat option) \<Rightarrow> bool \<Rightarrow> nat \<Rightarrow> string \<Rightarrow> 'a \<Rightarrow> 'a \<times> string \<times> bool \<Rightarrow> bool" where
  "answers_alike k writes saw n out a y \<longleftrightarrow> (k = k1 \<longrightarrow>
     (\<forall>b. R a b \<longrightarrow> (\<exists>b'. download_loop k2 writes saw n out b = Some (b', snd y) \<and> R (fst y) b')))"

lemma download_loop_same:
  "download_loop k writes saw n out a = Some y \<Longrightarrow> answers_alike k writes saw n out a y"
proof (erule download_loop.raw_induct [rotated])
  fix loop :: "'a link \<Rightarrow> (nat \<Rightarrow> nat option) \<Rightarrow> bool \<Rightarrow> nat \<Rightarrow> string \<Rightarrow> 'a \<Rightarrow> ('a \<times> string \<times> bool) option"
  fix k :: "'a link" and writes saw n out a y
  assume ih: "\<And>k writes saw n out a y. loop k writes saw n out a = Some y \<Longrightarrow> answers_alike k writes saw n out a y"
    and body: "(case lk_recv k a of
        (None, s) \<Rightarrow> Some (s, out, False)
      | (Some (h, payload), s) \<Rightarrow>
          if mh_op_id h = OP_DOWNLOAD_BEGIN then loop k writes True n out s
          else if mh_op_id h = OP_DOWNLOAD_CHUNK then
            (if \<not> saw then Some (s, out, False)
             else if 0 < msg_size h then
               (case writes n of
                  None \<Rightarrow> loop k writes saw (Suc n) (out @ payload_bytes payload) s
                | Some m \<Rightarrow> Some (s, out @ take m (payload_bytes payload), False))
             else loop k writes saw n out s)
          else if mh_op_id h = OP_DOWNLOAD_END then Some (s, out, True)
          else Some (s, out, False)) = Some y"
  show "answers_alike k writes saw n out a y"
    unfolding answers_alike_def
  proof (intro impI allI)
    fix b
    assume k: "k = k1" and ab: "R a b"
    obtain m a1 where r1: "lk_recv k1 a = (m, a1)" by fastforce
    from recv_sim [OF ab this] obtain b1 where r2: "lk_recv k2 b = (m, b1)" "R a1 b1" by blast
    have again: "loop k1 writes saw' n' out' a1 = Some y \<Longrightarrow>
        \<exists>b'. download_loop k2 writes saw' n' out' b1 = Some (b', snd y) \<and> R (fst y) b'" for saw' n' out'
      using ih [of k1 writes saw' n' out' a1 y] r2(2) by (simp add: answers_alike_def)
    show "\<exists>b'. download_loop k2 writes saw n out b = Some (b', snd y) \<and> R (fst y) b'"
      using body [unfolded k r1] r2 again
      by (subst download_loop.simps) (auto split: option.splits if_splits prod.splits)
  qed
qed

lemma download_sim:
  assumes "R a b" "download_sql_file k1 c created writes a = Some (a', x)"
  shows "\<exists>b'. download_sql_file k2 c created writes b = Some (b', x) \<and> R a' b'"
proof -
  obtain r a1 where s1: "lk_send k1 (client_msg c OP_DOWNLOAD_SQL []) a = (r, a1)" by fastforce
  from send_sim [OF assms(1) _ this] obtain b1 where
    s2: "lk_send k2 (client_msg c OP_DOWNLOAD_SQL []) b = (r, b1)" "R a1 b1" by auto
  show ?thesis
  proof (cases "r \<and> created")
    case True
    with assms(2) s1 obtain a2 out good where d1: "download_loop k1 writes False 0 [] a1 = Some (a2, out, good)"
      and x: "a' = a2" "x = (Some out, good)" by (auto simp: download_sql_file_def)
    from download_loop_same [OF d1] s2(2) obtain b2 where
      "download_loop k2 writes False 0 [] b1 = Some (b2, out, good)" "R a2 b2" by (auto simp: answers_alike_def)
    with True s2(1) x show ?thesis by (simp add: download_sql_file_def)
  next
    case False
    with assms(2) s1 s2 show ?thesis by (cases r) (auto simp: download_sql_file_def)
  qed
qed

text \<open>The commands: the connections stay related and the local files are the same.\<close>

definition same_client :: "'a client_state \<Rightarrow> 'b client_state \<Rightarrow> bool" where
  "same_client x y \<longleftrightarrow> R (fst x) (fst y) \<and> snd x = snd y"

lemma ask_sim:
  assumes "same_client x y" "length payload \<le> SQLCG_MAX_PAYLOAD" "ask k1 c opn payload x = (x', good)"
  shows "\<exists>y'. ask k2 c opn payload y = (y', good) \<and> same_client x' y'"
proof -
  obtain a fs b where xy: "x = (a, fs)" "y = (b, fs)" "R a b" using assms(1) by (cases x, cases y) (auto simp: same_client_def)
  obtain a1 g reply where r1: "request_text k1 c opn payload a = (a1, g, reply)" by (metis prod.collapse)
  from request_sim [OF xy(3) assms(2) this] obtain b1 where
    "request_text k2 c opn payload b = (b1, g, reply)" "R a1 b1" by blast
  with assms(3) r1 xy show ?thesis by (auto simp: ask_def same_client_def)
qed

lemma do_upload_sim:
  assumes "same_client x y" "length path \<le> SQLCG_MAX_PAYLOAD" "\<forall>evs. ce_open env path = Some evs \<longrightarrow> small_reads evs"
    and "do_upload k1 env c path x = (x', good)"
  shows "\<exists>y'. do_upload k2 env c path y = (y', good) \<and> same_client x' y'"
proof -
  obtain a fs b where xy: "x = (a, fs)" "y = (b, fs)" "R a b" using assms(1) by (cases x, cases y) (auto simp: same_client_def)
  obtain a1 g where r1: "upload_file k1 c path (ce_open env path) (ce_malloc env) a = (a1, g)" by fastforce
  from upload_sim [OF xy(3) assms(2,3) this] obtain b1 where
    "upload_file k2 c path (ce_open env path) (ce_malloc env) b = (b1, g)" "R a1 b1" by blast
  with assms(4) r1 xy show ?thesis by (auto simp: do_upload_def same_client_def)
qed

lemma do_download_sim:
  assumes "same_client x y" "do_download k1 env c path x = Some (x', good)"
  shows "\<exists>y'. do_download k2 env c path y = Some (y', good) \<and> same_client x' y'"
proof -
  obtain a fs b where xy: "x = (a, fs)" "y = (b, fs)" "R a b" using assms(1) by (cases x, cases y) (auto simp: same_client_def)
  with assms(2) obtain a1 content where
    r1: "download_sql_file k1 c (ce_create env path) (ce_writes env) a = Some (a1, content, good)"
    and x': "x' = (a1, saved path content fs)" by (auto simp: do_download_def)
  from download_sim [OF xy(3) r1] obtain b1 where
    "download_sql_file k2 c (ce_create env path) (ce_writes env) b = Some (b1, content, good)" "R a1 b1" by blast
  with xy x' show ?thesis by (simp add: do_download_def same_client_def)
qed

end

text \<open>The file that is read for its INSERTs is within the limit.\<close>

lemma length_read_upto: "read_upto sz got evs = Some s \<Longrightarrow> length got \<le> sz \<Longrightarrow> length s \<le> sz"
  by (induction sz got evs rule: read_upto.induct) (auto split: if_splits read_event.splits)

lemma length_read_file: "read_file src st_size malloc = Some s \<Longrightarrow> length s \<le> SQLCG_MAX_PAYLOAD"
  using length_read_upto [of _ "[]"]
  by (fastforce simp: read_file_def split: option.splits if_splits)

text \<open>What is typed comes in lines of fewer than 8192 characters.\<close>

fun command_fits :: "command \<Rightarrow> bool" where
  "command_fits (Upload path) = (length path \<le> SQLCG_MAX_PAYLOAD)"
| "command_fits (Status job) = (length job \<le> SQLCG_MAX_PAYLOAD)"
| "command_fits (Result job) = (length job \<le> SQLCG_MAX_PAYLOAD)"
| "command_fits (Insert sql) = (length sql \<le> SQLCG_MAX_PAYLOAD)"
| "command_fits _ = True"

lemma after_prefix_length: "after_prefix p line = Some arg \<Longrightarrow> length arg \<le> length line"
  by (auto simp: after_prefix_def split: if_splits)

lemma prefixed_fits:
  "command_fits other \<Longrightarrow> (\<And>arg. length arg \<le> length line \<Longrightarrow> command_fits (f arg)) \<Longrightarrow>
   command_fits (prefixed p line f other)"
  by (auto simp: prefixed_def dest: after_prefix_length split: option.splits)

lemma parse_command_fits: "length line \<le> SQLCG_MAX_PAYLOAD \<Longrightarrow> command_fits (parse_command line)"
  by (simp add: parse_command_def prefixed_fits if_distrib [of command_fits])

definition env_small :: "client_env \<Rightarrow> bool" where
  "env_small env \<longleftrightarrow> (\<forall>path evs. ce_open env path = Some evs \<longrightarrow> small_reads evs)"

lemma length_fgets:
  assumes "0 < n"
  shows "length (fst (fgets n s)) < n"
proof -
  obtain a r where sc: "scan (\<lambda>c. c \<noteq> CHR 0x0A) (n - 1) s = (a, r)" by fastforce
  then have "length a \<le> n - 1" using scan_bounds [OF sc] by simp
  moreover have "fst (fgets n s) = (if length a < n - 1 \<and> r \<noteq> [] then a @ [hd r] else a)"
    unfolding fgets_def sc by simp
  ultimately show ?thesis using assms by (cases n) auto
qed

lemma length_file_lines: "line \<in> set (file_lines n s) \<Longrightarrow> length line < n"
proof (induction n s rule: file_lines.induct)
  case (1 n s)
  show ?case
  proof (cases "s = [] \<or> n < 2")
    case False
    with 1 length_fgets [of n s] length_cstr [of "fst (fgets n s)"] show ?thesis
      by (auto simp: file_lines.simps [of n s])
  qed (use 1 in \<open>simp add: file_lines.simps [of n s]\<close>)
qed

context link_simulation begin

lemma ask_same:
  assumes "same_client x y" "length payload \<le> SQLCG_MAX_PAYLOAD"
  shows "same_client (fst (ask k1 c opn payload x)) (fst (ask k2 c opn payload y))"
  using ask_sim [OF assms surjective_pairing, of c opn] by (metis fst_conv)

lemma do_insert_file_sim:
  assumes "same_client x y" "do_insert_file k1 env c path x = (x', good)"
  shows "\<exists>y'. do_insert_file k2 env c path y = (y', good) \<and> same_client x' y'"
proof (cases "read_file (ce_open env path) (ce_size env path) (ce_malloc env)")
  case (Some sql)
  with ask_sim [OF assms(1) length_read_file [OF Some]] assms(2) show ?thesis by (simp add: do_insert_file_def)
qed (use assms in \<open>auto simp: do_insert_file_def\<close>)

lemma exec_sim:
  assumes "same_client x y" "command_fits cmd" "env_small env" "exec_command k1 env c cmd x = Some x'"
  shows "\<exists>y'. exec_command k2 env c cmd y = Some y' \<and> same_client x' y'"
proof -
  have ask: "same_client (fst (ask k1 c opn payload x)) (fst (ask k2 c opn payload y))"
    if "length payload \<le> SQLCG_MAX_PAYLOAD" for opn payload
    by (rule ask_same [OF assms(1) that])
  show ?thesis
  proof (cases cmd)
    case (Upload path)
    with do_upload_sim [OF assms(1) _ _ surjective_pairing, of path env c] assms(2-4) show ?thesis
      by (fastforce simp: env_small_def)
  next
    case (Download path)
    with assms(4) obtain good where "do_download k1 env c path x = Some (x', good)" by auto
    from do_download_sim [OF assms(1) this] Download show ?thesis by auto
  next
    case (InsertFile path)
    with do_insert_file_sim [OF assms(1) surjective_pairing, of env c path] assms(4) show ?thesis by fastforce
  qed (use ask assms in auto)
qed

lemma repl_sim:
  "repl k1 env c lines x = Some x' \<Longrightarrow> same_client x y \<Longrightarrow> env_small env \<Longrightarrow>
   \<forall>line \<in> set lines. length line \<le> SQLCG_MAX_PAYLOAD \<Longrightarrow> \<exists>y'. repl k2 env c lines y = Some y' \<and> same_client x' y'"
proof (induction lines arbitrary: x y)
  case (Cons line lines)
  have fits: "command_fits (command_of_line line)"
  proof -
    have "length (cstr (takeWhile (\<lambda>c. c \<noteq> CHR 0x0A) line)) \<le> length line"
      using length_cstr length_takeWhile_le order_trans by blast
    with Cons.prems(4) show ?thesis by (auto simp: command_of_line_def intro!: parse_command_fits)
  qed
  from Cons.prems(1) obtain x1 where e: "exec_command k1 env c (command_of_line line) x = Some x1"
    and rest: "(if command_of_line line = Quit then Some x1 else repl k1 env c lines x1) = Some x'"
    by (auto split: option.splits)
  from exec_sim [OF Cons.prems(2) fits Cons.prems(3) e] obtain y1 where
    y1: "exec_command k2 env c (command_of_line line) y = Some y1" "same_client x1 y1" by blast
  show ?case
  proof (cases "command_of_line line = Quit")
    case True
    with rest y1 show ?thesis by (intro exI [of _ y1]) simp
  next
    case False
    with rest y1 Cons.IH [of x1 y1] Cons.prems(3,4) show ?thesis by (simp del: split_paired_Ex)
  qed
qed simp

text \<open>The steps of the session, each of which may end it.\<close>

definition step_sim :: "('a client_state \<Rightarrow> ('a client_state \<times> 'v) option) \<Rightarrow> ('b client_state \<Rightarrow> ('b client_state \<times> 'v) option) \<Rightarrow> bool" where
  "step_sim f1 f2 \<longleftrightarrow> (\<forall>x y x' v. same_client x y \<and> f1 x = Some (x', v) \<longrightarrow>
     (\<exists>y'. f2 y = Some (y', v) \<and> same_client x' y'))"

lemma asked_for_sim:
  assumes "\<And>arg. what = Some arg \<Longrightarrow> step_sim (act1 arg) (act2 arg)" "step_sim rest1 rest2"
  shows "step_sim (asked_for what act1 rest1) (asked_for what act2 rest2)"
  unfolding step_sim_def
proof (intro allI impI)
  fix x y x' v
  assume *: "same_client x y \<and> asked_for what act1 rest1 x = Some (x', v)"
  show "\<exists>y'. asked_for what act2 rest2 y = Some (y', v) \<and> same_client x' y'"
  proof (cases what)
    case None
    with * assms(2) show ?thesis
      by (simp add: asked_for_def step_sim_def del: split_paired_Ex split_paired_All)
  next
    case (Some arg)
    with * obtain x1 good where a1: "act1 arg x = Some (x1, good)" by (auto simp: asked_for_def split: option.splits)
    with assms(1) [OF Some] * obtain y1 where a2: "act2 arg y = Some (y1, good)" "same_client x1 y1"
      unfolding step_sim_def by blast
    show ?thesis
    proof (cases good)
      case True
      with * Some a1 have "rest1 x1 = Some (x', v)" by (simp add: asked_for_def)
      with assms(2) a2(2) obtain y' where "rest2 y1 = Some (y', v)" "same_client x' y'"
        unfolding step_sim_def by blast
      with Some a2(1) True show ?thesis by (simp add: asked_for_def)
    next
      case False
      with * Some a1 a2 show ?thesis by (simp add: asked_for_def)
    qed
  qed
qed

lemma session_sim:
  assumes "env_small env" "\<forall>path. co_input opts = Some path \<longrightarrow> length path \<le> SQLCG_MAX_PAYLOAD"
  shows "step_sim (client_session k1 env opts typed c) (client_session k2 env opts typed c)"
  unfolding client_session_def
proof (intro asked_for_sim)
  fix path assume "co_input opts = Some path"
  with assms(1,2) show "step_sim (\<lambda>cs. Some (do_upload k1 env c path cs)) (\<lambda>cs. Some (do_upload k2 env c path cs))"
    using do_upload_sim by (fastforce simp: step_sim_def env_small_def)
next
  show "step_sim (\<lambda>cs. Some (ask k1 c OP_GENERATE_SQL [] cs)) (\<lambda>cs. Some (ask k2 c OP_GENERATE_SQL [] cs))"
    using ask_sim [of _ _ "[]"] by (fastforce simp: step_sim_def)
next
  fix path show "step_sim (do_download k1 env c path) (do_download k2 env c path)"
    using do_download_sim by (fastforce simp: step_sim_def)
next
  fix path
  show "step_sim (\<lambda>cs. Some (do_insert_file k1 env c path cs)) (\<lambda>cs. Some (do_insert_file k2 env c path cs))"
    using do_insert_file_sim by (fastforce simp: step_sim_def)
next
  have lines: "\<forall>line \<in> set (file_lines 8192 typed). length line \<le> SQLCG_MAX_PAYLOAD"
    using length_file_lines by fastforce
  show "step_sim
      (\<lambda>cs. if co_no_repl opts then Some (fst (ask k1 c OP_BYE [] cs), 0)
            else map_option (\<lambda>cs. (cs, 0 :: int)) (repl k1 env c (file_lines 8192 typed) cs))
      (\<lambda>cs. if co_no_repl opts then Some (fst (ask k2 c OP_BYE [] cs), 0)
            else map_option (\<lambda>cs. (cs, 0)) (repl k2 env c (file_lines 8192 typed) cs))"
  proof (cases "co_no_repl opts")
    case True
    then show ?thesis using ask_same [of _ _ "[]"] by (auto simp: step_sim_def simp del: split_paired_Ex split_paired_All)
  next
    case False
    then show ?thesis using repl_sim [OF _ _ assms(1) lines, of c]
      by (fastforce simp: step_sim_def simp del: split_paired_Ex split_paired_All)
  qed
qed

lemma main_sim:
  assumes "R a b" "env_small env" "\<forall>path. co_input opts = Some path \<longrightarrow> length path \<le> SQLCG_MAX_PAYLOAD"
    and "client_main k1 env opts typed (a, fs) = Ok (Some ((a', fs'), code))"
  shows "\<exists>b'. client_main k2 env opts typed (b, fs) = Ok (Some ((b', fs'), code)) \<and> R a' b'"
proof -
  obtain a1 r where c1: "connect_protocol k1 a = (a1, r)" by fastforce
  from connect_sim [OF assms(1) this] obtain b1 where c2: "connect_protocol k2 b = (b1, r)" "R a1 b1" by blast
  show ?thesis
  proof (cases r)
    case (Ok cid)
    with assms(4) c1 have "client_session k1 env opts typed cid (a1, fs) = Some ((a', fs'), code)"
      by (simp add: client_main_def)
    moreover have "same_client (a1, fs) (b1, fs)" using c2(2) by (simp add: same_client_def)
    ultimately obtain y' where "client_session k2 env opts typed cid (b1, fs) = Some (y', code)" "same_client (a', fs') y'"
      using session_sim [OF assms(2,3), of typed cid] unfolding step_sim_def by blast
    with Ok c2(1) show ?thesis by (cases y') (auto simp: client_main_def same_client_def)
  qed (use assms(4) c1 c2 in \<open>auto simp: client_main_def\<close>)
qed

end

section \<open>Everything the server sends is within the limit\<close>

definition reply_small :: "reply \<Rightarrow> bool" where
  "reply_small rp \<longleftrightarrow> length (response rp) < RESPONSE_SIZE \<and> (\<forall>m \<in> set (sent_before rp). length (body m) \<le> SQLCG_FILE_CHUNK)"

lemma answer_small [simp]: "reply_small (answer opn s)"
  by (simp add: reply_small_def answer_def)

lemma download_small:
  assumes "download_sql_request calls r (st, fs) = (sv', rp)"
  shows "reply_small rp"
proof -
  let ?sql = "generate_sql st SQL_BUFFER"
  have "\<forall>c \<in> set (file_chunks SQLCG_FILE_CHUNK ?sql). length c \<le> SQLCG_FILE_CHUNK"
    using file_chunks_bounds by blast
  moreover have "length (download_begin_text (rq_client_id r) ?sql) \<le> SQLCG_FILE_CHUNK"
    by (simp add: download_begin_text_def min_le_iff_disj)
  ultimately have "\<forall>m \<in> set (fst (send_generated_sql_file (wc_sql calls) st (rq_fd r) (rq_client_id r))).
      length (body m) \<le> SQLCG_FILE_CHUNK"
    by (auto simp: send_generated_sql_file_def respond_text_def Let_def dest!: in_set_takeD
        split: option.splits sql_file_error.splits)
  with assms show ?thesis
    by (auto simp: download_sql_request_def reply_small_def answer_def Let_def split: prod.splits if_splits)
qed

lemma perform_small:
  assumes "perform_request L pg calls r (st, fs) = Ok ((st', fs'), rp)"
  shows "reply_small rp"
proof (cases "rq_op_id r = OP_DOWNLOAD_SQL")
  case True
  with assms have "download_sql_request calls r (st, fs) = ((st', fs'), rp)" by (simp add: perform_request_def)
  then show ?thesis by (rule download_small)
next
  case False
  with assms show ?thesis
    by (auto simp: perform_request_def upload_begin_def upload_chunk_def upload_end_def generate_sql_request_def
        validate_insert_request_def Let_def split: if_splits option.splits prod.splits sum.splits outcome.splits)
qed

lemma finish_small:
  assumes "reply_small rp" "finish_request calls r rp st = (st', msgs)" "m \<in> set msgs"
  shows "length (body m) \<le> SQLCG_MAX_PAYLOAD"
proof -
  have "length (wire_response r rp) \<le> SQLCG_MAX_PAYLOAD"
    using assms(1) by (simp add: wire_response_def reply_small_def del: length_append) (simp add: min_le_iff_disj)
  moreover have "m \<in> set (sent_before rp) \<or> body m = wire_response r rp"
    using assms(2,3) by (auto simp: finish_request_def final_reply_def respond_text_def Let_def split: if_splits)
  ultimately show ?thesis using assms(1) by (auto simp: reply_small_def)
qed

lemma process_small:
  assumes "process_request L pg calls r (st, fs) = Ok ((st', fs'), msgs)" "m \<in> set msgs"
  shows "length (body m) \<le> SQLCG_MAX_PAYLOAD"
  using assms(1)
proof (cases rule: process_request_cases)
  case (cancelled st1 rp)
  then have "reply_small rp" by (auto simp: cancel_request_def)
  then show ?thesis using cancelled(3) assms(2) by (rule finish_small)
next
  case (performed st1 rp)
  from perform_small [OF performed(2)] performed(3) assms(2) show ?thesis by (rule finish_small)
qed

lemma job_info_small: "length (snd (respond_job_info st c opn payload)) \<le> SQLCG_MAX_PAYLOAD"
  by (simp add: respond_job_info_def Let_def min_le_iff_disj split: option.split)

lemma ordinary_small:
  assumes "ordinary_message k res i (fds, g) = (s', eff, f)" "Send m \<in> set eff"
  shows "length (body m) \<le> SQLCG_MAX_PAYLOAD"
proof (cases res)
  case (Message h payload)
  have rt: "body (respond_text fd c opn t) = t" for fd c opn t by (simp add: respond_text_def)
  have "length (snprintf 64 t) \<le> SQLCG_MAX_PAYLOAD" for t
    by (simp add: min_le_iff_disj)
  with Message assms job_info_small show ?thesis
    by (auto simp: ordinary_message_def handle_connect_def handle_request_def enqueue_request_def remove_pollfd_def
        case_prod_unfold Let_def rt split: if_splits option.splits)
qed (use assms in \<open>auto simp: ordinary_message_def remove_pollfd_def Let_def\<close>)

section \<open>The connection over bytes\<close>

text \<open>
  What the calls of \<open>write\<close> do with some bytes, and how the network hands bytes to the calls
  of \<open>recv\<close>, for the n-th use of the connection.
\<close>

record network =
  nw_writes :: "nat \<Rightarrow> string \<Rightarrow> write_event list"
  nw_cut :: "nat \<Rightarrow> string \<Rightarrow> recv_event list"

text \<open>A network that does its work: writes are accepted in the end, and no byte is lost or changed.\<close>

definition good_network :: "network \<Rightarrow> bool" where
  "good_network nw \<longleftrightarrow> (\<forall>n bs. length bs \<le> accepting (nw_writes nw n bs) \<and> stream_bytes (nw_cut nw n bs) = bs)"

text \<open>The bytes that \<open>send_message\<close> puts on the wire for a message of the server.\<close>

definition sent_bytes :: "network \<Rightarrow> nat \<Rightarrow> sent \<Rightarrow> string" where
  "sent_bytes nw n m = fst (snd (send_message (to_client m) (sent_op m) (Some (body m)) (word_of_nat (length (body m)))
     (nw_writes nw n (wire (deliver m)))))"

text \<open>The state holds the bytes under way to the client, and counts the uses.\<close>

definition wire_link ::
  "'j cjson \<Rightarrow> (string \<Rightarrow> string option) \<Rightarrow> worker_calls \<Rightarrow> iface_calls \<Rightarrow> int \<Rightarrow> network \<Rightarrow> (globals \<times> string \<times> nat) link" where
  "wire_link L pg calls k fd nw =
     \<lparr>lk_send = (\<lambda>m (g, stream, n).
        case send_of m (nw_writes nw n (wire m)) of
          (Some True, out, _) \<Rightarrow>
            (let ((fds, g1), eff, fate) =
                   ordinary_message k (fst (recv_message (nw_cut nw n out))) 0 ([\<lparr>pf_fd = fd, pf_ready = True\<rparr>], g)
             in (case worker_round L pg calls g1 of
                   None \<Rightarrow> (False, (g1, stream, Suc n))
                 | Some (g2, msgs) \<Rightarrow>
                     (True, (g2, stream @ concat (map (sent_bytes nw n) (filter (\<lambda>m. to_fd m = fd) (sent_by eff @ msgs))), Suc n))))
        | _ \<Rightarrow> (False, (g, stream, Suc n))),
      lk_recv = (\<lambda>(g, stream, n).
        case recv_message (nw_cut nw n stream) of
          (Message h p, rest) \<Rightarrow> (Some (h, p), (g, stream_bytes rest, Suc n))
        | _ \<Rightarrow> (None, (g, [], Suc n)))\<rparr>"

text \<open>Related: the bytes under way are those of the messages that have not been read.\<close>

definition same_bytes :: "globals \<times> message list \<Rightarrow> globals \<times> string \<times> nat \<Rightarrow> bool" where
  "same_bytes a b \<longleftrightarrow> fst b = fst a \<and> fst (snd b) = concat (map wire (snd a)) \<and> (\<forall>m \<in> set (snd a). allowed m)"

lemma client_msg_allowed: "length bs \<le> SQLCG_MAX_PAYLOAD \<Longrightarrow> allowed (client_msg c opn bs)"
  by (auto simp: allowed_def client_msg_def payload_bytes_def unat_of_nat take_bit_nat_eq_self)

lemma deliver_allowed: "length (body m) \<le> SQLCG_MAX_PAYLOAD \<Longrightarrow> allowed (deliver m)"
  by (simp add: deliver_def client_msg_allowed)

lemma sent_bytes_wire:
  assumes "good_network nw" "length (body m) \<le> SQLCG_MAX_PAYLOAD"
  shows "sent_bytes nw n m = wire (deliver m)"
proof -
  let ?evs = "nw_writes nw n (wire (deliver m))"
  have "length (wire (deliver m)) \<le> accepting ?evs" using assms(1) by (simp add: good_network_def)
  moreover have "flags (fst (deliver m)) = 0" by (simp add: deliver_def client_msg_def)
  ultimately obtain evs' where s: "send_of (deliver m) ?evs = (Some True, wire (deliver m), evs')"
    using send_completes [OF deliver_allowed [OF assms(2)]] by blast
  have "send_message (to_client m) (sent_op m) (Some (body m)) (word_of_nat (length (body m))) ?evs = send_of (deliver m) ?evs"
    by (cases "body m = []") (simp_all add: send_of_def deliver_def client_msg_def send_message_def
        split: prod.split option.split bool.split)
  with s show ?thesis by (simp add: sent_bytes_def)
qed

section \<open>Bytes refine messages\<close>

lemma worker_round_small:
  assumes "worker_round L pg calls g = Some (g', msgs)" "m \<in> set msgs"
  shows "length (body m) \<le> SQLCG_MAX_PAYLOAD"
  using assms process_small
  by (auto simp: worker_round_def split: option.splits prod.splits outcome.splits)

lemma sent_by_Send: "m \<in> set (sent_by effs) \<Longrightarrow> Send m \<in> set effs"
  by (induction effs) (auto simp: sent_by_def List.map_filter_simps split: effect.splits option.splits)

locale good_wire =
  fixes L :: "'j cjson" and pg :: "string \<Rightarrow> string option" and calls :: worker_calls and k :: iface_calls
    and fd :: int and nw :: network
  assumes good: "good_network nw"
begin

lemma bytes_of_messages:
  assumes "\<forall>m \<in> set msgs. length (body m) \<le> SQLCG_MAX_PAYLOAD"
  shows "concat (map (sent_bytes nw n) (filter (\<lambda>m. to_fd m = fd) msgs)) = concat (map wire (arriving fd msgs))"
    and "\<forall>m \<in> set (arriving fd msgs). allowed m"
proof -
  have "map (sent_bytes nw n) (filter (\<lambda>m. to_fd m = fd) msgs) = map wire (arriving fd msgs)"
    using assms sent_bytes_wire [OF good] by (simp add: arriving_def)
  then show "concat (map (sent_bytes nw n) (filter (\<lambda>m. to_fd m = fd) msgs)) = concat (map wire (arriving fd msgs))"
    by simp
  show "\<forall>m \<in> set (arriving fd msgs). allowed m"
    using assms deliver_allowed by (auto simp: arriving_def)
qed

lemma received_again:
  assumes "allowed m"
  shows "fst (recv_message (nw_cut nw n (wire m))) = Message (fst m) (snd m)"
proof -
  have "stream_bytes (nw_cut nw n (wire m)) = wire m @ []" using good by (simp add: good_network_def)
  with recv_message_wire [OF assms] show ?thesis by (metis fst_conv)
qed

end

sublocale good_wire \<subseteq> link_simulation "server_link L pg calls k fd" "wire_link L pg calls k fd nw" same_bytes
proof
  fix a a' :: "globals \<times> message list" and b :: "globals \<times> string \<times> nat" and bs c opn r
  assume ab: "same_bytes a b" and small: "length bs \<le> SQLCG_MAX_PAYLOAD"
    and s: "lk_send (server_link L pg calls k fd) (client_msg c opn bs) a = (r, a')"
  let ?m = "client_msg c opn bs"
  obtain g inbox stream n where g: "a = (g, inbox)" "b = (g, stream, n)" "stream = concat (map wire inbox)"
    "\<forall>m \<in> set inbox. allowed m"
    using ab by (cases a, cases b) (auto simp: same_bytes_def)
  have ok: "allowed ?m" "flags (fst ?m) = 0" using client_msg_allowed [OF small] by (simp_all add: client_msg_def)
  obtain evs where sent: "send_of ?m (nw_writes nw n (wire ?m)) = (Some True, wire ?m, evs)"
    using send_completes [OF ok, of "nw_writes nw n (wire ?m)"] good by (auto simp: good_network_def)
  obtain fds g1 eff f where om: "ordinary_message k (Message (fst ?m) (snd ?m)) 0 ([\<lparr>pf_fd = fd, pf_ready = True\<rparr>], g) =
      ((fds, g1), eff, f)" by (metis prod.collapse)
  show "\<exists>b'. lk_send (wire_link L pg calls k fd nw) ?m b = (r, b') \<and> same_bytes a' b'"
  proof (cases "worker_round L pg calls g1")
    case None
    with s g om sent received_again [OF ok(1)] show ?thesis
      by (auto simp: server_link_def wire_link_def same_bytes_def)
  next
    case (Some x)
    obtain g2 msgs where x: "x = (g2, msgs)" by fastforce
    have small: "\<forall>m \<in> set (sent_by eff @ msgs). length (body m) \<le> SQLCG_MAX_PAYLOAD"
      using ordinary_small [OF om] sent_by_Send worker_round_small [OF Some [unfolded x]] by auto
    from s g om Some x have a': "r = True" "a' = (g2, inbox @ arriving fd (sent_by eff @ msgs))"
      by (simp_all add: server_link_def)
    have "lk_send (wire_link L pg calls k fd nw) ?m b =
        (True, (g2, stream @ concat (map (sent_bytes nw n) (filter (\<lambda>m. to_fd m = fd) (sent_by eff @ msgs))), Suc n))"
      using g om Some x sent received_again [OF ok(1)] by (simp add: wire_link_def)
    moreover have "same_bytes a'
        (g2, stream @ concat (map (sent_bytes nw n) (filter (\<lambda>m. to_fd m = fd) (sent_by eff @ msgs))), Suc n)"
      using g(3,4) bytes_of_messages [OF small] unfolding same_bytes_def a' by auto
    ultimately show ?thesis using a'(1) by blast
  qed
next
  fix a a' :: "globals \<times> message list" and b :: "globals \<times> string \<times> nat" and m
  assume ab: "same_bytes a b" and r: "lk_recv (server_link L pg calls k fd) a = (m, a')"
  obtain g inbox stream n where g: "a = (g, inbox)" "b = (g, stream, n)" "stream = concat (map wire inbox)"
    "\<forall>m \<in> set inbox. allowed m"
    using ab by (cases a, cases b) (auto simp: same_bytes_def)
  have st: "stream_bytes (nw_cut nw n stream) = stream" using good by (simp add: good_network_def)
  show "\<exists>b'. lk_recv (wire_link L pg calls k fd nw) b = (m, b') \<and> same_bytes a' b'"
  proof (cases inbox)
    case Nil
    have "\<not> (\<exists>h p rest. recv_message (nw_cut nw n stream) = (Message h p, rest))"
    proof
      assume "\<exists>h p rest. recv_message (nw_cut nw n stream) = (Message h p, rest)"
      then obtain h p rest where "recv_message (nw_cut nw n stream) = (Message h p, rest)" by blast
      from recv_message_delivers(2) [OF this] st g(3) Nil length_header_bytes [of h] show False by (simp add: wire_def)
    qed
    then have "lk_recv (wire_link L pg calls k fd nw) b = (None, (g, [], Suc n))"
      using g(2) by (auto simp: wire_link_def split: prod.split recv_result.split)
    with r g Nil show ?thesis by (auto simp: server_link_def same_bytes_def)
  next
    case (Cons m1 ms)
    then have "stream_bytes (nw_cut nw n stream) = wire m1 @ concat (map wire ms)" "allowed m1"
      using st g(3,4) by simp_all
    from recv_message_wire [OF this(2,1)] obtain rest where
      "recv_message (nw_cut nw n stream) = (Message (fst m1) (snd m1), rest)" "stream_bytes rest = concat (map wire ms)" .
    then have "lk_recv (wire_link L pg calls k fd nw) b = (Some m1, (g, concat (map wire ms), Suc n))"
      using g(2) by (simp add: wire_link_def)
    with r g Cons show ?thesis by (auto simp: server_link_def same_bytes_def)
  qed
qed

text \<open>A network that hands on everything at once; it stands in where a network loses bytes.\<close>

definition prompt_network :: network where
  "prompt_network = \<lparr>nw_writes = (\<lambda>_ bs. replicate (length bs) (Accepts 1)), nw_cut = (\<lambda>_ bs. [Segment bs])\<rparr>"

lemma accepting_replicate: "accepting (replicate n (Accepts (Suc 0))) = n"
  by (induction n) simp_all

lemma prompt_good: "good_network prompt_network"
  by (simp add: good_network_def prompt_network_def accepting_replicate)

interpretation bytes: good_wire L pg calls k fd "if good_network nw then nw else prompt_network"
  for L :: "'j cjson" and pg calls k fd nw
  by unfold_locales (simp add: prompt_good)

text \<open>
  C12: the client cannot tell bytes from messages.  Over any network that accepts writes in
  the end and neither loses nor changes a byte, however it cuts them, every session of the
  client that ends over whole messages ends over bytes with the same exit code, the same local
  files and the same state of the server; unread bytes are those of the unread messages.
\<close>

theorem wire_refines_messages:
  assumes "good_network nw" and "env_small env"
    and "\<forall>path. co_input opts = Some path \<longrightarrow> length path \<le> SQLCG_MAX_PAYLOAD"
    and "client_main (server_link L pg calls k fd) env opts typed ((g, []), fs) = Ok (Some (((g', inbox), fs'), code))"
  shows "\<exists>n'. client_main (wire_link L pg calls k fd nw) env opts typed ((g, [], n), fs) =
    Ok (Some (((g', concat (map wire inbox), n'), fs'), code))"
proof -
  have "same_bytes (g, []) (g, [], n)" by (simp add: same_bytes_def)
  from bytes.main_sim [where nw = nw, OF this assms(2-4)] assms(1) show ?thesis
    by (auto simp: same_bytes_def)
qed


section \<open>Witnesses\<close>

text \<open>Every write takes one byte, and every byte is a segment of its own, with signals between.\<close>

definition slow_network :: network where
  "slow_network = \<lparr>nw_writes = (\<lambda>_ bs. WriteInterrupted # replicate (length bs) (Accepts 1)),
     nw_cut = (\<lambda>_ bs. concat (map (\<lambda>c. [Segment [c], Interrupted]) bs))\<rparr>"

lemma slow_good: "good_network slow_network"
proof -
  have "stream_bytes (concat (map (\<lambda>c. [Segment [c], Interrupted]) bs)) = bs" for bs
    by (induction bs) simp_all
  then show ?thesis by (simp add: good_network_def slow_network_def accepting_replicate)
qed

lemma example_env_small: "env_small example_env"
  by (simp add: env_small_def small_reads_def example_env_def)

lemma example_accepts: "accepts_client 1 (globals_init 0)"
  using clients_ok_init [of 0] init_free by (simp add: accepts_client_def globals_init_def queue_init_def state_init_def)


theorem wire_refines_messages_witness:
  "\<exists>g' inbox fs' n'. client_main (wire_link (json_lib (\<lambda>_. Some example_json)) Some calm calm_iface 7 slow_network)
      example_env example_options [] ((globals_init 0, [], 0), \<lambda>_. None) =
    Ok (Some (((g', concat (map wire inbox), n'), fs'), 0)) \<and> fs' ''out.sql'' = Some (schema_ddl example_tables)"
proof -
  have "\<exists>cs. client_main example_link example_env example_options [] ((globals_init 0, []), \<lambda>_. None) = Ok (Some (cs, 0)) \<and>
      snd cs ''out.sql'' = Some (schema_ddl example_tables)"
    by (rule client_saves_ddl [where path = "''er.json''" and evs = "[Got ''{'', ReadInterrupted, Got ''}'']" and
          root = example_json, OF example_accepts])
      (use example_schema_node in \<open>simp_all add: calm_def example_env_def example_options_def default_options_def
        json_lib_def example_tables_def\<close>)
  then obtain g' inbox fs' where m: "client_main example_link example_env example_options [] ((globals_init 0, []), \<lambda>_. None) =
      Ok (Some (((g', inbox), fs'), 0))" "fs' ''out.sql'' = Some (schema_ddl example_tables)" by auto
  from wire_refines_messages [OF slow_good example_env_small _ m(1), of 0] m(2) show ?thesis
    by (fastforce simp: example_options_def default_options_def)
qed

end
