(* ===== verification/AdminClient.thy ===== *)
theory AdminClient
  imports ClientServer Config
begin

text \<open>
  The administrator's client, \<open>src/admin_client.c\<close>: its command line, one request and its
  reply, the single command of \<open>--report\<close>, \<open>--disconnect\<close>, \<open>--cancel\<close> and \<open>--block\<close>, and the
  menu that asks for reports key by key.  The connection is a parameter; the keys and what is
  typed at a prompt are arguments.  Drawing with ncurses is left out but for the report that
  is shown.
\<close>

section \<open>Ports and requests\<close>

definition admin_parse_port :: "string \<Rightarrow> 16 word option" where
  "admin_parse_port s =
     (case strtol s of
        None \<Rightarrow> None
      | Some (parsed, end, erange) \<Rightarrow>
          if end \<noteq> [] \<or> parsed < 1 \<or> 65535 < parsed then None else Some (word_of_int parsed))"

definition admin_request_text ::
  "'s link \<Rightarrow> 32 word \<Rightarrow> string \<Rightarrow> 's \<Rightarrow> 's \<times> bool \<times> string option" where
  "admin_request_text k opn payload s =
     (case lk_send k (client_msg 0 opn (cstr payload)) s of
        (False, s) \<Rightarrow> (s, False, None)
      | (True, s) \<Rightarrow>
          (case lk_recv k s of
             (None, s) \<Rightarrow> (s, False, None)
           | (Some (h, resp), s) \<Rightarrow> (s, mh_op_id h = OP_OK, resp)))"

text \<open>\<open>reply ? reply : alternative\<close>, printed with \<open>%s\<close>.\<close>

definition reply_or :: "string \<Rightarrow> string option \<Rightarrow> string" where
  "reply_or other reply = (case reply of None \<Rightarrow> other | Some bs \<Rightarrow> cstr bs)"

section \<open>The command line\<close>

record admin_options =
  ao_host :: string
  ao_port :: "16 word"
  ao_op :: "32 word"
  ao_payload :: "string option"

definition admin_defaults :: admin_options where
  "admin_defaults = \<lparr>ao_host = ''127.0.0.1'', ao_port = SQLCG_ADMIN_PORT, ao_op = 0, ao_payload = None\<rparr>"

definition one_shot :: "32 word \<Rightarrow> string \<Rightarrow> admin_options \<Rightarrow> admin_options" where
  "one_shot opn v opts = opts\<lparr>ao_op := opn, ao_payload := Some v\<rparr>"

definition admin_single_arg :: "admin_options \<Rightarrow> string \<Rightarrow> admin_options args_result" where
  "admin_single_arg opts a =
     (if a = ''--help'' then HelpShown
      else if peek a \<noteq> CHR ''-'' then Options (opts\<lparr>ao_host := a\<rparr>)
      else Usage)"

fun admin_args :: "admin_options \<Rightarrow> string list \<Rightarrow> admin_options args_result" where
  "admin_args opts [] = Options opts"
| "admin_args opts [a] = admin_single_arg opts a"
| "admin_args opts (a # v # args) =
     (if a = ''--help'' then HelpShown
      else if a = ''--host'' then admin_args (opts\<lparr>ao_host := v\<rparr>) args
      else if a = ''--port'' then
        (case admin_parse_port v of None \<Rightarrow> BadPort | Some p \<Rightarrow> admin_args (opts\<lparr>ao_port := p\<rparr>) args)
      else if a = ''--report'' then admin_args (one_shot OP_ADMIN_REPORT v opts) args
      else if a = ''--disconnect'' then admin_args (one_shot OP_ADMIN_DISCONNECT v opts) args
      else if a = ''--cancel'' then admin_args (one_shot OP_ADMIN_CANCEL v opts) args
      else if a = ''--block'' then admin_args (one_shot OP_ADMIN_BLOCK v opts) args
      else (case admin_single_arg opts a of Options opts \<Rightarrow> admin_args opts (v # args) | r \<Rightarrow> r))"

section \<open>The menu\<close>

definition PAYLOAD_SIZE :: nat where [simp]: "PAYLOAD_SIZE = 128"

text \<open>\<open>prompt_payload\<close>: what is typed, cut to the buffer; \<open>None\<close> where \<open>getnstr\<close> fails.\<close>

definition prompt_payload :: "string option \<Rightarrow> string option" where
  "prompt_payload typed = map_option (take (PAYLOAD_SIZE - 1)) typed"

datatype key_action = AskFor "32 word" string | Leave | Ignored

definition prompted :: "32 word \<Rightarrow> string option \<Rightarrow> key_action" where
  "prompted opn typed = (case prompt_payload typed of None \<Rightarrow> Ignored | Some payload \<Rightarrow> AskFor opn payload)"

definition key_action :: "char \<Rightarrow> string option \<Rightarrow> key_action" where
  "key_action ch typed =
     (if ch = CHR ''1'' then AskFor OP_ADMIN_REPORT ''clients''
      else if ch = CHR ''2'' then AskFor OP_ADMIN_REPORT ''commands''
      else if ch = CHR ''3'' then AskFor OP_ADMIN_REPORT ''avg''
      else if ch = CHR ''4'' then AskFor OP_ADMIN_REPORT ''history''
      else if ch = CHR ''5'' then AskFor OP_ADMIN_REPORT ''tables''
      else if ch = CHR ''6'' then AskFor OP_ADMIN_REPORT ''queue''
      else if ch = CHR ''0'' then AskFor OP_ADMIN_REPORT ''jobs''
      else if ch = CHR ''7'' then prompted OP_ADMIN_DISCONNECT typed
      else if ch = CHR ''8'' then prompted OP_ADMIN_CANCEL typed
      else if ch = CHR ''9'' then prompted OP_ADMIN_BLOCK typed
      else if ch = CHR ''q'' \<or> ch = CHR ''Q'' then Leave
      else Ignored)"

text \<open>The key and the answer to the prompt; the result is the report shown and whether the loop was left.\<close>

fun admin_menu :: "'s link \<Rightarrow> (char \<times> string option) list \<Rightarrow> 's \<times> string \<Rightarrow> ('s \<times> string) \<times> bool" where
  "admin_menu k [] st = (st, False)"
| "admin_menu k ((ch, typed) # keys) (s, report) =
     (case key_action ch typed of
        Leave \<Rightarrow> ((s, report), True)
      | Ignored \<Rightarrow> admin_menu k keys (s, report)
      | AskFor opn payload \<Rightarrow>
          (let (s, good, reply) = admin_request_text k opn payload s
           in admin_menu k keys (s, snprintf 65536 (reply_or (if good then [] else ''request failed'') reply))))"

section \<open>The main program\<close>

text \<open>
  The exit code, or \<open>None\<close> while the menu waits for another key, and the text shown last.
\<close>

definition admin_one_shot :: "'s link \<Rightarrow> admin_options \<Rightarrow> 's \<Rightarrow> 's \<times> string \<times> int option" where
  "admin_one_shot k opts s =
     (let (s, good, reply) = admin_request_text k (ao_op opts) (case ao_payload opts of None \<Rightarrow> [] | Some v \<Rightarrow> v) s in
      if good
      then (let (s, _) = admin_request_text k OP_ADMIN_BYE [] s in (s, reply_or [] reply, Some 0))
      else (s, reply_or ''admin request failed'' reply, Some 1))"

definition admin_main ::
  "'s link \<Rightarrow> admin_options \<Rightarrow> (char \<times> string option) list \<Rightarrow> 's \<Rightarrow> 's \<times> string \<times> int option" where
  "admin_main k opts keys s =
     (let (s, good, reply) = admin_request_text k OP_ADMIN_LOGIN ''admin'' s in
      if \<not> good then (s, reply_or ''admin login failed'' reply, Some 1)
      else if ao_op opts \<noteq> 0 then admin_one_shot k opts s
      else (let ((s, report), left) = admin_menu k keys
                 (s, snprintf 65536 (''Connected to '' @ ao_host opts @ '':'' @ dec (unat (ao_port opts))))
            in if left then (let (s, _) = admin_request_text k OP_ADMIN_BYE [] s in (s, report, Some 0))
               else (s, report, None)))"

section \<open>The ports of the three programs\<close>

lemma strtol_large:
  assumes "2 ^ 63 \<le> n"
  shows "strtol (dec n) = Some (2 ^ 63 - 1, [], True)"
proof -
  have tk: "takeWhile isdigit (dec n) = dec n" "dropWhile isdigit (dec n) = []" "dropWhile isspace (dec n) = dec n"
    using dec_digits [of _ n] hd_dec_digit [of n] isdigit_not_sign
    by (auto simp: takeWhile_eq_all_conv dropWhile_eq_Nil_conv intro!: dropWhile_all_not)
  have "peek (dec n) = hd (dec n)" by (cases "dec n") auto
  with assms isdigit_not_sign [OF hd_dec_digit [of n]] show ?thesis
    by (simp add: strtol_def Let_def tk)
qed

lemma strtol_small: "n < 2 ^ 63 \<Longrightarrow> strtol (dec n) = Some (int n, [], False)"
  using strtol_sdec [of "int n"] by (simp add: sdec_def flip: of_nat_less_iff)

text \<open>A value that does not fit a \<open>long\<close> is not a port either way.\<close>

lemma strtol_erange: "strtol s = Some (v, rest, True) \<Longrightarrow> v < 1 \<or> 65535 < v"
  by (auto simp: strtol_def Let_def split: if_splits)

text \<open>
  The client, the administrator's client and the configuration of the server read the
  same ports from the same texts, though only two of them look at \<open>errno\<close>: the decimal text
  of a number from 1 to 65535 is read as this number, and a text that is refused by one
  program is refused by all.
\<close>

theorem port_readers_agree:
  "parse_port s = admin_parse_port s \<and>
   apply_port_value s target = (case parse_port s of None \<Rightarrow> target | Some p \<Rightarrow> p) \<and>
   parse_port (dec n) = (if 1 \<le> n \<and> n \<le> 65535 then Some (word_of_nat n) else None)"
proof (intro conjI)
  show "parse_port s = admin_parse_port s"
    using strtol_erange [of s] by (auto simp: parse_port_def admin_parse_port_def split: option.splits)
  show "apply_port_value s target = (case parse_port s of None \<Rightarrow> target | Some p \<Rightarrow> p)"
    by (auto simp: apply_port_value_def parse_number_def parse_port_def split: option.splits)
  show "parse_port (dec n) = (if 1 \<le> n \<and> n \<le> 65535 then Some (word_of_nat n) else None)"
    using strtol_small [of n] strtol_large [of n] by (cases "n < 2 ^ 63") (auto simp: parse_port_def)
qed

section \<open>Against the server\<close>

text \<open>The connection of the administrator is the second entry of the array of its thread.\<close>

definition admin_link :: "int \<Rightarrow> int \<Rightarrow> ((admin_thread \<times> globals) \<times> message list) link" where
  "admin_link now fd =
     \<lparr>lk_send = (\<lambda>m (s, inbox).
        let (s', eff, fate) = admin_message now (Message (fst m) (snd m)) 1 s
        in (True, (s', inbox @ arriving fd (sent_by eff)))),
      lk_recv = (\<lambda>(s, inbox). case inbox of [] \<Rightarrow> (None, (s, [])) | m # ms \<Rightarrow> (Some m, (s, ms)))\<rparr>"

definition serves_admin :: "int \<Rightarrow> pollfd \<Rightarrow> admin_thread \<Rightarrow> bool" where
  "serves_admin fd l a \<longleftrightarrow> 0 < fd \<and> ad_fd a = fd \<and> (\<exists>ready. ad_fds a = [l, \<lparr>pf_fd = fd, pf_ready = ready\<rparr>])"

lemma serves_admin_last: "serves_admin fd l (a\<lparr>ad_last := t\<rparr>) = serves_admin fd l a"
  by (simp add: serves_admin_def)

text \<open>One command and its answer.\<close>

lemma admin_exchange:
  assumes "serves_admin fd l a"
    and "handle_admin_message now fd (fst (client_msg 0 opn (cstr v))) (snd (client_msg 0 opn (cstr v))) (a, g) =
      ((a\<lparr>ad_last := now\<rparr>, g'), [admin_reply fd res ans])"
  shows "admin_request_text (admin_link now fd) opn v ((a, g), []) =
    (((a\<lparr>ad_last := now\<rparr>, g'), []), res = OP_OK, if ans = [] then None else Some ans)"
proof -
  obtain ready where a: "ad_fd a = fd" "0 < fd" "ad_fds a = [l, \<lparr>pf_fd = fd, pf_ready = ready\<rparr>]"
    using assms(1) by (auto simp: serves_admin_def)
  then have "admin_message now (Message (fst (client_msg 0 opn (cstr v))) (snd (client_msg 0 opn (cstr v)))) 1 (a, g) =
      ((a\<lparr>ad_last := now\<rparr>, g'), [admin_reply fd res ans], Stays)"
    using assms(2) by (simp add: admin_message_def)
  then have "lk_send (admin_link now fd) (client_msg 0 opn (cstr v)) ((a, g), []) =
      (True, ((a\<lparr>ad_last := now\<rparr>, g'), [client_msg 0 res ans]))"
    by (simp add: admin_link_def sent_by_def arriving_def admin_reply_def List.map_filter_simps deliver_text)
      (simp add: respond_text_def)
  then show ?thesis
    by (simp add: admin_request_text_def) (simp add: admin_link_def client_msg_def)
qed

text \<open>The farewell frees the place of the administrator.\<close>

lemma farewell_flag: "admin_connected (client_remove_fd fd st) = admin_connected st"
  by (simp add: client_remove_fd_def split: option.split)

lemma admin_farewell:
  assumes "serves_admin fd l a" "admin_request_text (admin_link now fd) OP_ADMIN_BYE [] ((a, g), []) = (s, res)"
  shows "ad_fds (fst (fst s)) = [l] \<and> ad_fd (fst (fst s)) = - 1 \<and> \<not> admin_connected (g_state (snd (fst s))) \<and>
    g_blocked_addrs (snd (fst s)) = g_blocked_addrs g"
proof -
  obtain ready where a: "ad_fd a = fd" "0 < fd" "ad_fds a = [l, \<lparr>pf_fd = fd, pf_ready = ready\<rparr>]"
    using assms(1) by (auto simp: serves_admin_def)
  have "client_msg 0 OP_ADMIN_BYE (cstr []) = (fst (client_msg 0 OP_ADMIN_BYE []), None)"
    by (simp add: client_msg_def cstr_def)
  with assms(2) a show ?thesis
    by (auto simp: admin_request_text_def admin_link_def admin_message_def handle_admin_message_def drop_admin_fd_def
        remove_pollfd_def client_msg_fields with_state_def farewell_flag Let_def split: list.splits)
qed

lemma admin_logs_in:
  assumes "serves_admin fd l a"
  shows "admin_request_text (admin_link now fd) OP_ADMIN_LOGIN ''admin'' ((a, g), []) =
    (((a\<lparr>ad_last := now\<rparr>, g), []), True, Some ''OK: admin logged in'')"
  using admin_exchange [OF assms, of now OP_ADMIN_LOGIN "''admin''" g g OP_OK "''OK: admin logged in''"]
  by (simp add: handle_admin_message_def admin_login_def client_msg_def cstr_def)

text \<open>A single command of the administrator that the server accepts.\<close>

lemma one_shot_accepted:
  assumes "serves_admin fd l a" and "ao_op opts = opn" and "opn \<noteq> 0" and "ao_payload opts = Some v"
    and "handle_admin_message now fd (fst (client_msg 0 opn (cstr v))) (snd (client_msg 0 opn (cstr v)))
      (a\<lparr>ad_last := now\<rparr>, g) = ((a\<lparr>ad_last := now\<rparr>, g'), [admin_reply fd OP_OK ans])"
  shows "\<exists>s. admin_main (admin_link now fd) opts keys ((a, g), []) = (s, cstr ans, Some 0) \<and>
    ad_fds (fst (fst s)) = [l] \<and> ad_fd (fst (fst s)) = - 1 \<and> \<not> admin_connected (g_state (snd (fst s))) \<and>
    g_blocked_addrs (snd (fst s)) = g_blocked_addrs g'"
proof -
  have a1: "serves_admin fd l (a\<lparr>ad_last := now\<rparr>)" using assms(1) by (simp add: serves_admin_last)
  have "admin_request_text (admin_link now fd) opn v ((a\<lparr>ad_last := now\<rparr>, g), []) =
      (((a\<lparr>ad_last := now\<rparr>, g'), []), True, if ans = [] then None else Some ans)"
    using admin_exchange [OF a1, of now opn v g g' OP_OK ans] assms(5) by simp
  moreover obtain s res where bye: "admin_request_text (admin_link now fd) OP_ADMIN_BYE []
      ((a\<lparr>ad_last := now\<rparr>, g'), []) = (s, res)"
    by (rule prod.exhaust)
  ultimately have "admin_main (admin_link now fd) opts keys ((a, g), []) = (s, cstr ans, Some 0)"
    using admin_logs_in [OF assms(1), of now g] assms(2-4)
    by (simp add: admin_main_def admin_one_shot_def reply_or_def cstr_def)
  with admin_farewell [OF a1 bye] show ?thesis by simp
qed

text \<open>
  C28: a report asked for on the command line of the administrator's client is printed as the
  server composed it, the exit code is 0, and the place of the administrator is free again.
\<close>

theorem report_command_prints:
  assumes "serves_admin fd l a" and "ao_op opts = OP_ADMIN_REPORT" and "ao_payload opts = Some category"
  shows "\<exists>s. admin_main (admin_link now fd) opts keys ((a, g), []) =
      (s, cstr (admin_report now (g_state g) (cstr category) REPORT_SIZE), Some 0) \<and>
    ad_fds (fst (fst s)) = [l] \<and> ad_fd (fst (fst s)) = - 1 \<and> \<not> admin_connected (g_state (snd (fst s)))"
proof -
  have "handle_admin_message now fd (fst (client_msg 0 OP_ADMIN_REPORT (cstr category)))
      (snd (client_msg 0 OP_ADMIN_REPORT (cstr category))) (a\<lparr>ad_last := now\<rparr>, g) =
    ((a\<lparr>ad_last := now\<rparr>, g),
     [admin_reply fd OP_OK (admin_report now (g_state g) (cstr category) REPORT_SIZE)])"
    by (simp add: handle_admin_message_def client_msg_fields client_msg_parts cstr_def)
  from one_shot_accepted [OF assms(1,2) _ assms(3) this, of keys] show ?thesis by auto
qed


section \<open>Witnesses\<close>

text \<open>An administrator on descriptor 5.\<close>

definition one_admin :: admin_thread where
  "one_admin = \<lparr>ad_fds = [\<lparr>pf_fd = 4, pf_ready = False\<rparr>, \<lparr>pf_fd = 5, pf_ready = True\<rparr>], ad_fd = 5, ad_last = 0\<rparr>"

lemma serves_one_admin: "serves_admin 5 \<lparr>pf_fd = 4, pf_ready = False\<rparr> one_admin"
  by (auto simp: serves_admin_def one_admin_def)

theorem report_command_prints_witness:
  "\<exists>s. admin_main (admin_link 9 5) (one_shot OP_ADMIN_REPORT ''tables'' admin_defaults) [] ((one_admin, one_client), []) =
      (s, cstr (admin_report 9 (g_state one_client) ''tables'' REPORT_SIZE), Some 0) \<and>
    ad_fds (fst (fst s)) = [\<lparr>pf_fd = 4, pf_ready = False\<rparr>]"
  using report_command_prints [OF serves_one_admin, of "one_shot OP_ADMIN_REPORT ''tables'' admin_defaults" "''tables''" 9
      "[]" one_client]
  by (auto simp: one_shot_def cstr_def)


end
