(* ===== verification/Spec2Isabelle.thy ===== *)
theory Spec2Isabelle
  imports ErLoader InsertText InsertValidator Ddl Protocol Jobs RequestQueue Sessions Reports Config
    Worker Uploads Interface Admin System Lifecycle Program Store Service Logging Client ClientServer Wire AdminClient
begin

text \<open>
  \<^bold>\<open>The SQL code generator: a model of the server and of its two C clients.\<close>

  The program.  A server keeps one schema in memory.  A client uploads an ER diagram as JSON,
  asks for the CREATE TABLE statements the server generates from it, and sends batches of
  INSERT statements that the server checks against the constraints of the schema and the rows
  it has stored.  An administrator connects to a port of its own, reads reports, disconnects
  clients, cancels commands and blocks addresses.  Three threads of the server share one state:
  the ordinary interface accepts clients and queues their requests, the worker takes the
  requests from the queue one by one, and the admin interface serves the administrator.

  \<^bold>\<open>Which theory models what.\<close>

  \<^item> Prelude: C strings and the functions of the C library the program calls
    (\<open>snprintf\<close>, \<open>strtol\<close>, \<open>fgets\<close>, \<open>isspace\<close>); the type \<open>outcome\<close> of a function that may
    report an error (\<open>Err\<close>) or leave its arrays (\<open>Fault\<close>).
  \<^item> Schema: \<open>include/model.h\<close> and the text routines of \<open>src/model.c\<close>.  The records
    \<open>Column\<close>, \<open>Row\<close>, \<open>Table\<close>, \<open>ClientInfo\<close>, \<open>JobInfo\<close> and \<open>SharedState\<close> have the fields of the
    structs; an array with a counter (\<open>tables\<close>, \<open>columns\<close>, \<open>rows\<close>) is the list of its used
    entries, an array of fixed size (\<open>clients\<close>, \<open>jobs\<close>, \<open>history\<close>) is a list of that length.
    \<open>wf_tables\<close> states the limits of \<open>model.h\<close>.
  \<^item> ErLoader: \<open>load_er_json\<close> and its helpers in \<open>src/model.c\<close>, over cJSON as a parameter.
  \<^item> InsertParser, InsertText: \<open>parse_batch\<close> with everything it calls, and the INSERT text
    that is parsed back to the rows it was printed from.
  \<^item> InsertValidator: \<open>validate_insert_batch\<close>, \<open>validate_batch_rows\<close>, \<open>apply_insert_batch\<close>
    over libpg_query as a parameter; \<open>integrity\<close> is what NOT NULL, PRIMARY KEY, UNIQUE and
    REFERENCES promise.
  \<^item> Ddl: \<open>generate_sql\<close>.  Reports: \<open>admin_report\<close>.
  \<^item> Protocol: \<open>include/protocol.h\<close> and \<open>src/protocol.c\<close>, down to the bytes and the short
    and interrupted transfers of \<open>read_full\<close> and \<open>write_full\<close>.
  \<^item> Jobs, RequestQueue, Sessions, Config, Worker, Interface, Admin, Logging: the parts of
    \<open>src/server.c\<close>, namely the two rings of jobs and history, the linked list of requests, the
    tables of clients and addresses, \<open>cfg_load\<close>, \<open>process_request\<close>, \<open>ordinary_interface_main\<close>,
    \<open>admin_interface_main\<close> and \<open>log_event\<close>.
  \<^item> Uploads: sequences of requests.  System: the three threads in any interleaving.
  \<^item> Lifecycle: \<open>main\<close> of \<open>src/server.c\<close> from its first call to its last, the loops of
    \<open>ordinary_interface_main\<close>, \<open>admin_interface_main\<close> and \<open>worker_main\<close> around \<open>g_running\<close>,
    \<open>handle_stop_signal\<close>, the wait of \<open>queue_pop\<close> and the joins.  The record \<open>server\<close> holds the
    state of System and where each thread is; \<open>server_step\<close> is one decision of one thread.
  \<^item> Program: the invariants, the queue, the wake-ups and the stop over these steps.  Store: the
    abstract store that the whole program refines.  Service: what the store gives to a client,
    and the turns of the worker.
  \<^item> Client, AdminClient: \<open>src/client.c\<close> and \<open>src/admin_client.c\<close> over a connection that is a
    parameter.  ClientServer: the client connected to the model of the server, message by
    message.  Wire: the same over bytes, through \<open>send_message\<close>, a network that cuts them, and
    \<open>recv_message\<close>.

  \<^bold>\<open>What the lemmas show.\<close>

  \<^item> Stored rows satisfy the constraints and every array keeps its size in each reachable
    state of the three threads (System) and of the whole program (Program), because each
    operation keeps it: the locales
    \<open>thread_invariant\<close> and \<open>state_invariant\<close> state what an operation must keep, and are
    interpreted for the integrity of the rows, jobs, clients, sizes, the flag of the
    administrator.
  \<^item> The validator is equivalent to the declarative condition \<open>row_admissible\<close>, row by row; the
    parser inverts the printer; the loader yields the schema a document describes; the
    generator writes the DDL text of the schema, cut to its buffer.
  \<^item> Messages arrive as they were sent, requests leave the queue in the order they came in
    and are answered once each, a pass over the descriptors serves each ready one.
  \<^item> A client that uploads and downloads leaves the DDL of the uploaded schema in its file:
    the locale \<open>upload_server\<close> is what an upload needs of a server, and the model of the
    server is shown to provide it.  The locale \<open>link_simulation\<close> states when two connections
    cannot be told apart by the client; bytes on a network and whole messages are such
    connections, so that the result holds over bytes.
  \<^item> The program refines a sequential store: requests are served in the order of the queue, the
    data changes by that and nothing else, and the answers are those of the store.  The relation
    \<open>serves\<close> is the store, \<open>serving\<close> the simulation, proved step by step and composed over runs.
    What follows for a client is in Service: its upload is not disturbed by others, and what
    is stored stays until the next schema.
  \<^item> The worker never sleeps while a request waits, answers all requests within a bound of turns,
    and a stop signal ends every thread: \<open>stop_order\<close> is the measure that each step decreases
    once \<open>g_running\<close> is cleared.
  \<^item> Each path on which the program does not do what it means to is stated as a theorem of its
    own.  These are the theorems about refused uploads, double CONNECT, backslashes in strings,
    schemas that are cut, job numbers of late clients, partial messages, ignored logins,
    late cancellations, reused descriptors, downloads whose file is not created, requests that
    a stop leaves in the queue, and a \<open>poll\<close> that fails.

  \<^bold>\<open>Parameters.\<close>  What is not in the repository or depends on the system is an argument: cJSON
  (\<open>cjson\<close>), libpg_query (a function from the SQL text to an error), libconfig, the results of
  system calls (\<open>file_calls\<close>, \<open>worker_calls\<close>, \<open>iface_calls\<close>, \<open>client_env\<close>), the addresses
  that \<open>calloc\<close> returns, the times, what arrives on descriptors.  Theorems that need an
  answer to be favourable say so in a hypothesis; the others hold for every answer.  What the
  system guarantees is a premise of the steps: \<open>accept\<close> returns a descriptor that is not in use
  (\<open>fresh_socket\<close>), \<open>calloc\<close> memory that is not in use (\<open>fresh_calloc\<close>), reading a
  file gives what was written to it (\<open>fair_files\<close>); a network neither loses
  nor changes bytes and accepts writes in the end (\<open>good_network\<close>).

  \<^bold>\<open>Conventions and bounds.\<close>  Machine integers whose overflow matters are words: sizes and
  identifiers of the protocol have 32 bits, ports 16.  A string is the list of characters in
  front of its NUL; payloads, which may contain NUL, are cut by \<open>cstr\<close> where the code treats
  them as strings.  Counters of the statistics are integers without overflow.  Loops that end
  are total functions, with a measure where the recursion is not structural (\<open>poll_pass\<close>,
  \<open>admin_pass\<close>, \<open>file_chunks\<close>, \<open>file_lines\<close>); the loop of a download may run for ever while the
  server keeps sending, so \<open>download_loop\<close> is a partial function, whose value is shown for the
  server of this repository.  No definition uses fuel.

  \<^bold>\<open>Interleaving.\<close>  A step of System handles one message or one event of an interface thread,
  or one part of a request in the worker: taking it from the queue, deciding whether it is
  cancelled, performing it and finishing it are separate steps, since the administrator can
  act in between.  A step of Lifecycle is the head of a loop, one descriptor of a pass, one of
  these parts of a request, a wait, a wake-up (also one without cause), a join or the signal;
  the threads are all there from the start, and a signal may come at any time.  Within a step
  the code is treated as atomic: the data races the code has on \<open>g_state\<close>, of which a mutex
  protects only the queue, are not represented.  A request on which the code leaves its arrays
  ends the worker in the model (\<open>WFault\<close>), since C gives it no meaning; this also holds where
  the access is made by the child process that validates.

  \<^bold>\<open>Not modelled.\<close>  Printing to the console and to the log while the server starts and stops,
  \<open>print_usage\<close> and \<open>print_help\<close>, drawing with ncurses and the clock, since these are calls to
  the system without decisions of the program; what is behind the socket calls of \<open>listen_tcp\<close>
  and \<open>connect_tcp\<close>, whose results are arguments; the Python client, which is not C; cJSON,
  libpg_query and libconfig, whose sources are not in the repository.  Several clients over
  bytes at once are covered by Lifecycle, where whatever message may arrive on any descriptor,
  not by Wire, which follows one client.
\<close>

end
